(* ===== verification/Prelude.thy ===== *)
theory Prelude
  imports Main "HOL-Library.Word"
begin

text \<open>
  The vocabulary every component shares: machine integers, the outcome of a Rust computation
  (a value, an error value, a panic), checked arithmetic, and the operations of \<open>Vec\<close> and of
  slices that the sources use, each with its panics written out. The two collections
  \<open>rust_std\<close> and \<open>frame_simps\<close> hold the unfolding and the framing facts that carry the
  component proofs.
\<close>

named_theorems rust_std "definitions of the standard-library operations"
named_theorems frame_simps "what an operation leaves unchanged"

section \<open>Machine integers\<close>

type_synonym u8 = "8 word"
type_synonym u16 = "16 word"
type_synonym u32 = "32 word"
type_synonym u64 = "64 word"
type_synonym u128 = "128 word"

text \<open>\<open>Vec<u8>\<close> and \<open>&[u8]\<close>. A \<open>usize\<close> is a \<open>nat\<close>: it only ever counts elements
  of a list that is in memory. The target has 64-bit pointers, so \<open>as usize\<close> and
  \<open>as u64\<close> do not truncate a length.\<close>

type_synonym bytes = "u8 list"

section \<open>Outcomes\<close>

text \<open>Why a computation panicked; the program never inspects it.\<close>

datatype panic =
    ArithmeticOverflow   \<comment> \<open>\<open>+\<close> in a build with overflow checks\<close>
  | UnwrapNone           \<comment> \<open>\<open>Option::unwrap\<close> on \<open>None\<close>\<close>
  | UnwrapErr            \<comment> \<open>\<open>Result::unwrap\<close> or \<open>expect\<close> on \<open>Err\<close>\<close>
  | IndexOutOfBounds     \<comment> \<open>\<open>Vec::remove\<close>, \<open>Vec::insert\<close> or a slice out of range\<close>
  | ZeroChunkSize        \<comment> \<open>\<open>slice::chunks(0)\<close>\<close>
  | ExplicitPanic        \<comment> \<open>\<open>panic!\<close>\<close>

text \<open>The outcome of a Rust call with result type \<open>Result<'a, 'e>\<close>.\<close>

datatype ('a, 'e) res = Ok 'a | Err 'e | Panic panic

fun is_Ok :: "('a, 'e) res \<Rightarrow> bool" where
  "is_Ok (Ok _) = True"
| "is_Ok _ = False"

fun is_Panic :: "('a, 'e) res \<Rightarrow> bool" where
  "is_Panic (Panic _) = True"
| "is_Panic _ = False"

text \<open>Third-party calls return \<open>'e + 'a\<close>; the conversions the sources apply to them.\<close>

definition unwrap_result :: "'x + 'a \<Rightarrow> ('a, 'e) res" where
  "unwrap_result r = (case r of Inl _ \<Rightarrow> Panic UnwrapErr | Inr a \<Rightarrow> Ok a)"

definition unwrap_option :: "'a option \<Rightarrow> ('a, 'e) res" where
  "unwrap_option r = (case r of None \<Rightarrow> Panic UnwrapNone | Some a \<Rightarrow> Ok a)"

definition question :: "('x \<Rightarrow> 'e) \<Rightarrow> 'x + 'a \<Rightarrow> ('a, 'e) res" where
  \<comment> \<open>the operator \<open>?\<close> with its error conversion\<close>
  "question conv r = (case r of Inl x \<Rightarrow> Err (conv x) | Inr a \<Rightarrow> Ok a)"

lemmas outcome_defs [rust_std] = unwrap_result_def unwrap_option_def question_def

section \<open>Arithmetic\<close>

text \<open>
  \<open>a + b\<close> on \<open>u64\<close>. The manifest sets no profile, so both builds occur: with overflow checks
  (the development and test profile) an overflow panics, without them (the release profile) it
  wraps. The flag \<open>oc\<close> says which build is meant.
\<close>

definition add_u64 :: "bool \<Rightarrow> u64 \<Rightarrow> u64 \<Rightarrow> (u64, 'e) res" where
  "add_u64 oc a b =
     (if oc \<and> 2 ^ 64 \<le> unat a + unat b then Panic ArithmeticOverflow else Ok (a + b))"

abbreviation u64_max :: u64 where "u64_max \<equiv> 18446744073709551615"

lemma unat_less_exp: "unat (w :: 'a::len word) < 2 ^ LENGTH('a)"
  by (rule unsigned_less)

lemma unat_u64_less: "unat (a :: u64) < 18446744073709551616"
  using unsigned_less [of a] by simp

lemma u64_le_max: "(a :: u64) \<le> u64_max"
  using unat_u64_less [of a] by (simp add: word_le_nat_alt)

lemma unat_of_nat_u64: "n < 2 ^ 64 \<Longrightarrow> unat (of_nat n :: u64) = n"
  by (simp add: unat_of_nat)

lemma u64_max_iff: "a = u64_max \<longleftrightarrow> 2 ^ 64 \<le> unat a + unat (1 :: u64)"
  using unat_u64_less [of a] by (auto simp: word_unat_eq_iff)

lemma add_u64_1_cases:
  "add_u64 oc a 1 = (if oc \<and> a = u64_max then Panic ArithmeticOverflow else Ok (a + 1))"
  by (simp only: add_u64_def u64_max_iff)

lemma unat_plus_1: "a \<noteq> u64_max \<Longrightarrow> unat (a + 1) = Suc (unat a)"
  using unat_u64_less [of a] unfolding u64_max_iff
  by (simp add: unat_word_ariths)

section \<open>Vectors and slices\<close>

definition vec_remove :: "'a list \<Rightarrow> nat \<Rightarrow> ('a list, 'e) res" where
  "vec_remove xs i =
     (if i < length xs then Ok (take i xs @ drop (Suc i) xs) else Panic IndexOutOfBounds)"

definition vec_insert :: "'a list \<Rightarrow> nat \<Rightarrow> 'a \<Rightarrow> ('a list, 'e) res" where
  "vec_insert xs i x =
     (if i \<le> length xs then Ok (take i xs @ x # drop i xs) else Panic IndexOutOfBounds)"

text \<open>\<open>&xs[..n]\<close>\<close>

definition slice_to :: "'a list \<Rightarrow> nat \<Rightarrow> ('a list, 'e) res" where
  "slice_to xs n = (if n \<le> length xs then Ok (take n xs) else Panic IndexOutOfBounds)"

text \<open>Writing bytes to the front of a buffer of fixed length: what does not fit is lost. This
  is both the effect of a \<open>zip\<close> over \<open>iter_mut\<close> and of a callee that fills a
  \<open>&mut [u8]\<close>.\<close>

definition overwrite :: "'a list \<Rightarrow> 'a list \<Rightarrow> 'a list" where
  "overwrite out buf = take (length buf) out @ drop (length out) buf"

lemmas vec_defs [rust_std] = vec_remove_def vec_insert_def slice_to_def

lemma remove_then_insert:
  assumes "i < length xs"
  shows "\<exists>ys. vec_remove xs i = Ok ys \<and> vec_insert ys i x = Ok (xs[i := x])"
  using assms by (auto simp: rust_std upd_conv_take_nth_drop min_def)

lemma length_overwrite [simp]: "length (overwrite out buf) = length buf"
  by (simp add: overwrite_def)

lemma take_overwrite: "length out \<le> length buf \<Longrightarrow> take (length out) (overwrite out buf) = out"
  by (simp add: overwrite_def)

lemma slice_overwrite:
  "slice_to (overwrite out buf) (length out) =
     (if length out \<le> length buf then Ok out else Panic IndexOutOfBounds)"
  by (simp add: slice_to_def take_overwrite)

subsection \<open>\<open>slice::chunks\<close>\<close>

text \<open>The chunks of a slice, for a size that is not zero (zero panics in the caller).\<close>

function slice_chunks :: "nat \<Rightarrow> 'a list \<Rightarrow> 'a list list" where
  "slice_chunks n xs =
     (if n = 0 \<or> xs = [] then [] else take n xs # slice_chunks n (drop n xs))"
  by pat_completeness auto
termination
  by (relation "measure (\<lambda>(n, xs). length xs)") auto

declare slice_chunks.simps [simp del]

lemma slice_chunks_Nil [simp]: "slice_chunks n [] = []"
  by (simp add: slice_chunks.simps)

lemma slice_chunks_step:
  "0 < n \<Longrightarrow> xs \<noteq> [] \<Longrightarrow> slice_chunks n xs = take n xs # slice_chunks n (drop n xs)"
  by (subst slice_chunks.simps) simp

lemma concat_slice_chunks: "0 < n \<Longrightarrow> concat (slice_chunks n xs) = xs"
proof (induction n xs rule: slice_chunks.induct)
  case (1 n xs)
  then show ?case by (cases "xs = []") (auto simp: slice_chunks_step)
qed

lemma slice_chunks_eq_Nil [simp]: "0 < n \<Longrightarrow> slice_chunks n xs = [] \<longleftrightarrow> xs = []"
  by (cases "xs = []") (auto simp: slice_chunks_step)

lemma slice_chunks_sizes:
  "0 < n \<Longrightarrow> c \<in> set (slice_chunks n xs) \<Longrightarrow> c \<noteq> [] \<and> length c \<le> n"
proof (induction n xs rule: slice_chunks.induct)
  case (1 n xs)
  then show ?case by (cases "xs = []") (auto simp: slice_chunks_step)
qed

lemma slice_chunks_full:
  "0 < n \<Longrightarrow> c \<in> set (butlast (slice_chunks n xs)) \<Longrightarrow> length c = n"
proof (induction n xs rule: slice_chunks.induct)
  case (1 n xs)
  show ?case
  proof (cases "xs = [] \<or> length xs \<le> n")
    case True
    with 1 show ?thesis by (cases "xs = []") (auto simp: slice_chunks_step)
  next
    case False
    then have "butlast (slice_chunks n xs) = take n xs # butlast (slice_chunks n (drop n xs))"
      using 1(2) by (simp add: slice_chunks_step)
    with 1 False show ?thesis by auto
  qed
qed

lemma length_slice_chunks_le: "0 < n \<Longrightarrow> length (slice_chunks n xs) \<le> length xs"
proof (induction n xs rule: slice_chunks.induct)
  case (1 n xs)
  show ?case
  proof (cases "xs = []")
    case False
    with 1 have "length (slice_chunks n (drop n xs)) \<le> length xs - n" by simp
    moreover have "0 < length xs" using False by simp
    ultimately show ?thesis using False 1(2)
      by (simp add: slice_chunks_step del: length_greater_0_conv)
  qed simp
qed

section \<open>Lists\<close>

lemma enumerate_map_index:
  "map f (enumerate 0 xs) = map (\<lambda>i. f (i, xs ! i)) [0 ..< length xs]"
  by (rule nth_equalityI) (simp_all add: nth_enumerate_eq)

lemma drop_nth_Cons: "i < length xs \<Longrightarrow> drop i xs = xs ! i # drop (Suc i) xs"
  by (simp add: Cons_nth_drop_Suc)

end
