(* ===== verification/Collections.thy ===== *)
theory Collections
  imports Prelude
begin

text \<open>
  The ordered containers of the standard library that the program uses: \<open>BTreeMap\<close> (the
  chunk groups of a \<open>Chunker\<close>, the wakers of a \<open>Session\<close>) and \<open>BTreeSet\<close> (the nonces
  of a \<open>LossyTransportState\<close>). A map is the list of its entries in ascending key order, a
  set the list of its elements in ascending order, so that \<open>len\<close>, \<open>first\<close> and
  \<open>pop_first\<close> compute. The locales state what the clients rely on; the interpretations
  discharge it for these lists.
\<close>

section \<open>BTreeMap\<close>

type_synonym ('k, 'v) btree_map = "('k \<times> 'v) list"

abbreviation btm_invar :: "('k::linorder, 'v) btree_map \<Rightarrow> bool" where
  "btm_invar m \<equiv> sorted_wrt (<) (map fst m)"

fun btm_insert :: "'k::linorder \<Rightarrow> 'v \<Rightarrow> ('k, 'v) btree_map \<Rightarrow> ('k, 'v) btree_map" where
  "btm_insert k v [] = [(k, v)]"
| "btm_insert k v ((a, b) # m) =
     (if k < a then (k, v) # (a, b) # m
      else if k = a then (k, v) # m
      else (a, b) # btm_insert k v m)"

fun btm_remove :: "'k \<Rightarrow> ('k, 'v) btree_map \<Rightarrow> ('k, 'v) btree_map" where
  "btm_remove k [] = []"
| "btm_remove k ((a, b) # m) = (if k = a then m else (a, b) # btm_remove k m)"

definition btm_get :: "('k, 'v) btree_map \<Rightarrow> 'k \<Rightarrow> 'v option" where
  "btm_get m = map_of m"

definition btm_pop_first :: "('k, 'v) btree_map \<Rightarrow> ('k \<times> 'v) option \<times> ('k, 'v) btree_map" where
  "btm_pop_first m = (case m of [] \<Rightarrow> (None, []) | e # m' \<Rightarrow> (Some e, m'))"

lemma btm_insert_keys: "fst ` set (btm_insert k v m) = insert k (fst ` set m)"
  by (induction k v m rule: btm_insert.induct) auto

lemma btm_insert_invar: "btm_invar m \<Longrightarrow> btm_invar (btm_insert k v m)"
proof (induction k v m rule: btm_insert.induct)
  case (2 k v a b m)
  then show ?case using btm_insert_keys [of k v m] by auto
qed simp

lemma btm_get_insert: "btm_get (btm_insert k v m) = (btm_get m)(k \<mapsto> v)"
  unfolding btm_get_def by (induction k v m rule: btm_insert.induct) (auto simp: fun_eq_iff)

lemma btm_insert_twice [simp]: "btm_insert k v (btm_insert k w m) = btm_insert k v m"
  by (induction k w m rule: btm_insert.induct) auto

lemma btm_insert_entries: "set (btm_insert k v m) \<subseteq> insert (k, v) (set m)"
  by (induction k v m rule: btm_insert.induct) auto

lemma btm_remove_keys: "btm_invar m \<Longrightarrow> fst ` set (btm_remove k m) = fst ` set m - {k}"
  by (induction k m rule: btm_remove.induct) auto

lemma btm_remove_subset: "set (btm_remove k m) \<subseteq> set m"
  by (induction k m rule: btm_remove.induct) auto

lemma btm_remove_invar: "btm_invar m \<Longrightarrow> btm_invar (btm_remove k m)"
proof (induction k m rule: btm_remove.induct)
  case (2 k a b m)
  then show ?case using btm_remove_subset [of k m] by auto
qed simp

lemma map_of_lower: "\<forall>x \<in> fst ` set m. k < (x :: 'k::linorder) \<Longrightarrow> map_of m k = None"
  by (metis less_irrefl map_of_eq_None_iff)

lemma btm_get_remove: "btm_invar m \<Longrightarrow> btm_get (btm_remove k m) = (btm_get m)(k := None)"
  unfolding btm_get_def
  by (induction k m rule: btm_remove.induct) (auto simp: fun_eq_iff map_of_lower)

lemma btm_remove_absent: "btm_get m k = None \<Longrightarrow> btm_remove k m = m"
  unfolding btm_get_def by (induction k m rule: btm_remove.induct) (auto split: if_splits)

lemma length_btm_remove:
  "btm_get m k \<noteq> None \<Longrightarrow> Suc (length (btm_remove k m)) = length m"
  unfolding btm_get_def
  by (induction k m rule: btm_remove.induct) (auto split: if_splits)

lemma length_btm_remove_le: "length (btm_remove k m) \<le> length m"
  by (induction k m rule: btm_remove.induct) auto

text \<open>The contract of an ordered map and what follows from it for any client.\<close>

locale ordered_map =
  fixes empty :: "'m"
    and get :: "'m \<Rightarrow> 'k::linorder \<Rightarrow> 'v option"
    and ins :: "'k \<Rightarrow> 'v \<Rightarrow> 'm \<Rightarrow> 'm"
    and rem :: "'k \<Rightarrow> 'm \<Rightarrow> 'm"
    and len :: "'m \<Rightarrow> nat"
    and pop :: "'m \<Rightarrow> ('k \<times> 'v) option \<times> 'm"
    and invar :: "'m \<Rightarrow> bool"
  assumes get_empty: "get empty = Map.empty"
    and get_ins: "invar m \<Longrightarrow> get (ins k v m) = (get m)(k \<mapsto> v)"
    and get_rem: "invar m \<Longrightarrow> get (rem k m) = (get m)(k := None)"
    and len_card: "invar m \<Longrightarrow> finite (dom (get m)) \<and> len m = card (dom (get m))"
    and pop_None: "invar m \<Longrightarrow> fst (pop m) = None \<Longrightarrow> get m = Map.empty \<and> snd (pop m) = m"
    and pop_Some: "invar m \<Longrightarrow> fst (pop m) = Some (k, v) \<Longrightarrow>
      get m k = Some v \<and> (\<forall>j \<in> dom (get m). k \<le> j) \<and> get (snd (pop m)) = (get m)(k := None)"
    and invar_empty: "invar empty"
    and invar_ins: "invar m \<Longrightarrow> invar (ins k v m)"
    and invar_rem: "invar m \<Longrightarrow> invar (rem k m)"
    and invar_pop: "invar m \<Longrightarrow> invar (snd (pop m))"
begin

lemma get_after_insert [simp]: "invar m \<Longrightarrow> get (ins k v m) k = Some v"
  by (simp add: get_ins)

lemma get_rem_ins: "invar m \<Longrightarrow> get m k = None \<Longrightarrow> get (rem k (ins k v m)) = get m"
  by (simp add: get_rem get_ins invar_ins fun_upd_idem)

lemma len_ins: "invar m \<Longrightarrow> len (ins k v m) = (if get m k = None then Suc (len m) else len m)"
  using len_card [of m] len_card [OF invar_ins, of m k v]
  by (auto simp: get_ins domIff card_insert_if)

lemma pop_min:
  assumes "invar m" and "get m j = Some w" and "get (snd (pop m)) j = None"
  shows "fst (pop m) = Some (j, w) \<and> (\<forall>i \<in> dom (get m). j \<le> i)"
proof (cases "fst (pop m)")
  case None
  with pop_None [OF assms(1)] assms(2) show ?thesis by simp
next
  case (Some e)
  then obtain k v where e: "fst (pop m) = Some (k, v)" by (cases e) simp
  note p = pop_Some [OF assms(1) e]
  then have "k = j" using assms(2,3) by (auto split: if_splits)
  then show ?thesis using p e assms(2) by auto
qed

end

interpretation btm: ordered_map "[]" btm_get btm_insert btm_remove length btm_pop_first btm_invar
proof (unfold_locales, goal_cases)
  case (4 m)
  then have "distinct (map fst m)" by (simp add: strict_sorted_iff)
  then have "card (dom (map_of m)) = length (map fst m)"
    by (simp only: dom_map_of_conv_image_fst set_map [symmetric] distinct_card)
  then show ?case by (simp add: btm_get_def finite_dom_map_of)
next
  case (6 m k v)
  then obtain m' where m: "m = (k, v) # m'" and "\<forall>x \<in> fst ` set m'. k < x"
    by (cases m) (auto simp: btm_pop_first_def)
  moreover have "dom (map_of m') = fst ` set m'"
    by (rule dom_map_of_conv_image_fst)
  ultimately show ?case
    by (auto simp: m btm_pop_first_def btm_get_def fun_eq_iff map_of_lower)
next
  case (10 m)
  then show ?case by (cases m) (auto simp: btm_pop_first_def)
qed (auto simp: btm_get_insert btm_get_remove btm_insert_invar btm_remove_invar
    btm_get_def [of "[]"] btm_pop_first_def split: list.splits)

section \<open>BTreeSet\<close>

type_synonym 'k btree_set = "'k list"

abbreviation bts_invar :: "'k::linorder btree_set \<Rightarrow> bool" where
  "bts_invar s \<equiv> sorted_wrt (<) s"

fun bts_insert :: "'k::linorder \<Rightarrow> 'k btree_set \<Rightarrow> 'k btree_set" where
  "bts_insert k [] = [k]"
| "bts_insert k (a # s) =
     (if k < a then k # a # s else if k = a then a # s else a # bts_insert k s)"

definition bts_contains :: "'k \<Rightarrow> 'k btree_set \<Rightarrow> bool" where
  "bts_contains k s \<longleftrightarrow> List.member s k"

definition bts_first :: "'k btree_set \<Rightarrow> 'k option" where
  "bts_first s = (case s of [] \<Rightarrow> None | a # _ \<Rightarrow> Some a)"

definition bts_pop_first :: "'k btree_set \<Rightarrow> 'k btree_set" where
  "bts_pop_first s = tl s"

lemma bts_contains_iff [simp]: "bts_contains k s \<longleftrightarrow> k \<in> set s"
  by (simp add: bts_contains_def)

lemma set_bts_insert [simp]: "set (bts_insert k s) = insert k (set s)"
  by (induction k s rule: bts_insert.induct) auto

lemma bts_insert_invar [simp]: "bts_invar s \<Longrightarrow> bts_invar (bts_insert k s)"
  by (induction k s rule: bts_insert.induct) auto

lemma length_bts_insert: "k \<notin> set s \<Longrightarrow> length (bts_insert k s) = Suc (length s)"
  by (induction k s rule: bts_insert.induct) auto

lemma bts_insert_not_Nil [simp]: "bts_insert k s \<noteq> []"
  by (cases s) auto

end
