(* ===== verification/Bincode.thy ===== *)
theory Bincode
  imports Prelude
begin

text \<open>
  The package \<open>bincode\<close> is not part of the repository: its calls are parameters of the model,
  a \<^emph>\<open>codec\<close> per serialised type. What the program relies on, that a value that fits in
  memory is serialised and read back unchanged, is the named hypothesis \<open>codec_ok\<close> of the
  theorems that need it. The second half builds codecs in the layout that the package documents
  for its default configuration (fixed-width little-endian integers, length-prefixed vectors,
  32-bit variant numbers, trailing bytes allowed); they show that the hypothesis can hold and
  serve as the concrete parameters of the witnesses, and nothing else depends on them.
\<close>

text \<open>An error of the package: the program only displays it or wraps it.\<close>

datatype bincode_error = BincodeError string

record 'a codec =
  serialize :: "'a \<Rightarrow> bincode_error + bytes"
  deserialize :: "bytes \<Rightarrow> bincode_error + 'a"

text \<open>A vector of bytes holds at most \<open>isize::MAX\<close> bytes.\<close>

definition in_memory :: "'a list \<Rightarrow> bool" where
  "in_memory xs \<longleftrightarrow> length xs < 2 ^ 63"

definition codec_ok :: "('a \<Rightarrow> bool) \<Rightarrow> 'a codec \<Rightarrow> bool" where
  "codec_ok V c \<longleftrightarrow>
     (\<forall>x. V x \<longrightarrow> (\<exists>b. serialize c x = Inr b \<and> deserialize c b = Inr x))"

text \<open>The interface of a serialised type, for values in \<open>V\<close>.\<close>

locale wire_format =
  fixes V :: "'a \<Rightarrow> bool"
    and ser :: "'a \<Rightarrow> bincode_error + bytes"
    and des :: "bytes \<Rightarrow> bincode_error + 'a"
  assumes roundtrip: "V x \<Longrightarrow> \<exists>b. ser x = Inr b \<and> des b = Inr x"
begin

lemma ser_total: "V x \<Longrightarrow> \<exists>b. ser x = Inr b"
  using roundtrip by blast

lemma des_ser: "V x \<Longrightarrow> ser x = Inr b \<Longrightarrow> des b = Inr x"
  using roundtrip by fastforce

lemma ser_inj: "V x \<Longrightarrow> V y \<Longrightarrow> ser x = ser y \<Longrightarrow> x = y"
  using roundtrip by (metis sum.inject(2))

end

lemma codec_ok_iff: "codec_ok V c \<longleftrightarrow> wire_format V (serialize c) (deserialize c)"
  by (simp add: codec_ok_def wire_format_def)

lemma codec_okE:
  assumes "codec_ok V c" and "V x"
  obtains b where "serialize c x = Inr b" and "deserialize c b = Inr x"
  using assms by (auto simp: codec_ok_def)

section \<open>The documented layout\<close>

text \<open>Readers consume a prefix of the input.\<close>

type_synonym 'a reader = "bytes \<Rightarrow> ('a \<times> bytes) option"

fun put_le :: "nat \<Rightarrow> nat \<Rightarrow> bytes" where
  "put_le 0 n = []"
| "put_le (Suc k) n = of_nat (n mod 256) # put_le k (n div 256)"

fun take_le :: "nat \<Rightarrow> nat reader" where
  "take_le 0 bs = Some (0, bs)"
| "take_le (Suc k) [] = None"
| "take_le (Suc k) (b # bs) =
     (case take_le k bs of None \<Rightarrow> None | Some (n, r) \<Rightarrow> Some (unat b + 256 * n, r))"

lemma take_le_put_le: "n < 256 ^ k \<Longrightarrow> take_le k (put_le k n @ r) = Some (n, r)"
proof (induction k arbitrary: n)
  case (Suc k)
  then have "n div 256 < 256 ^ k" by (simp add: less_mult_imp_div_less mult.commute)
  with Suc.IH show ?case by (simp add: unat_of_nat)
qed simp

lemma length_put_le [simp]: "length (put_le k n) = k"
  by (induction k arbitrary: n) auto

definition put_u32 :: "u32 \<Rightarrow> bytes" where "put_u32 w = put_le 4 (unat w)"
definition take_u32 :: "u32 reader" where
  "take_u32 bs = map_option (\<lambda>(n, r). (of_nat n, r)) (take_le 4 bs)"

definition put_u64 :: "u64 \<Rightarrow> bytes" where "put_u64 w = put_le 8 (unat w)"
definition take_u64 :: "u64 reader" where
  "take_u64 bs = map_option (\<lambda>(n, r). (of_nat n, r)) (take_le 8 bs)"

definition put_u128 :: "u128 \<Rightarrow> bytes" where "put_u128 w = put_le 16 (unat w)"
definition take_u128 :: "u128 reader" where
  "take_u128 bs = map_option (\<lambda>(n, r). (of_nat n, r)) (take_le 16 bs)"

definition put_bytes :: "bytes \<Rightarrow> bytes" where
  "put_bytes xs = put_u64 (of_nat (length xs)) @ xs"

definition take_bytes :: "bytes reader" where
  "take_bytes bs =
     (case take_u64 bs of
        None \<Rightarrow> None
      | Some (n, r) \<Rightarrow> if unat n \<le> length r then Some (take (unat n) r, drop (unat n) r) else None)"

lemma take_put_u32 [simp]: "take_u32 (put_u32 w @ r) = Some (w, r)"
  using unat_less_exp [of w]
  by (simp add: take_u32_def put_u32_def take_le_put_le)

lemma take_put_u64 [simp]: "take_u64 (put_u64 w @ r) = Some (w, r)"
  using unat_less_exp [of w]
  by (simp add: take_u64_def put_u64_def take_le_put_le)

lemma take_put_u128 [simp]: "take_u128 (put_u128 w @ r) = Some (w, r)"
  using unat_less_exp [of w]
  by (simp add: take_u128_def put_u128_def take_le_put_le)

lemma take_put_bytes [simp]: "in_memory xs \<Longrightarrow> take_bytes (put_bytes xs @ r) = Some (xs, r)"
  by (simp add: take_bytes_def put_bytes_def in_memory_def unat_of_nat_u64)

lemma take_put_all [simp]:
  "take_u32 (put_u32 v) = Some (v, [])" "take_u64 (put_u64 w) = Some (w, [])"
  "take_u128 (put_u128 u) = Some (u, [])"
  "in_memory xs \<Longrightarrow> take_bytes (put_bytes xs) = Some (xs, [])"
  using take_put_u32 [of v "[]"] take_put_u64 [of w "[]"] take_put_u128 [of u "[]"]
    take_put_bytes [of xs "[]"]
  by simp_all

lemma length_puts [simp]:
  "length (put_u32 v) = 4" "length (put_u64 w) = 8" "length (put_u128 u) = 16"
  "length (put_bytes xs) = 8 + length xs"
  by (simp_all add: put_u32_def put_u64_def put_u128_def put_bytes_def)

text \<open>A codec from a writer and a reader of the whole value; trailing bytes are ignored.\<close>

definition layout_codec :: "('a \<Rightarrow> bytes) \<Rightarrow> 'a reader \<Rightarrow> 'a codec" where
  "layout_codec put get =
     \<lparr>serialize = (\<lambda>x. Inr (put x)),
      deserialize = (\<lambda>bs. case get bs of
          None \<Rightarrow> Inl (BincodeError ''unexpected end of input'') | Some (x, _) \<Rightarrow> Inr x)\<rparr>"

lemma layout_codec_ok:
  assumes "\<And>x. V x \<Longrightarrow> get (put x) = Some (x, [])"
  shows "codec_ok V (layout_codec put get)"
  using assms by (simp add: codec_ok_def layout_codec_def)

end
