(* ===== verification/Chunker.thy ===== *)
theory Chunker
  imports Collections Bincode
begin

text \<open>
  \<open>src/src/transform.rs\<close>: the trait \<open>Bidirectional\<close> with its in-memory implementation on
  \<open>VecDeque\<close>, and \<open>Chunker\<close>, which splits a message into numbered chunks, sends them through
  a delegate and reassembles what arrives. The fields behind \<open>Arc<Mutex<_>>\<close> are fields of the
  record: all clones of a chunker share them, and a call runs to its end before the next one.
  (What overlapping calls of \<open>send\<close> can do is the subject of the theory \<open>Races\<close>.)
\<close>

section \<open>The trait Bidirectional\<close>

text \<open>\<open>enum VeqError\<close> of \<open>src/src/veq.rs\<close>.\<close>

datatype veq_error = Disconnected

text \<open>
  \<open>send\<close> and \<open>recv\<close> of an implementation with state \<open>'d\<close>. A \<open>recv\<close> that waits for
  something that never comes does not return: \<open>None\<close>.
\<close>

type_synonym 'd bidir_send = "'d \<Rightarrow> bytes \<Rightarrow> 'd \<times> (unit, veq_error) res"
type_synonym 'd bidir_recv = "'d \<Rightarrow> ('d \<times> (bytes, veq_error) res) option"

text \<open>\<open>impl Bidirectional for Arc<Mutex<VecDeque<Vec<u8>>>>\<close>\<close>

definition deque_send :: "bytes list bidir_send" where
  "deque_send q data = (q @ [data], Ok ())"

definition deque_recv :: "bytes list bidir_recv" where
  "deque_recv q =
     Some (case q of [] \<Rightarrow> (q, Panic UnwrapNone) | x # q' \<Rightarrow> (q', Ok x))"

section \<open>Chunks and chunk groups\<close>

record chunked_data =
  cd_group :: u64
  cd_index :: u64
  cd_group_length :: u64
  cd_data :: bytes

record chunk_group =
  cg_chunks :: "chunked_data option list"
  cg_size :: u64
  cg_group_length :: u64

definition ChunkGroup_new :: "u64 \<Rightarrow> chunk_group" where
  "ChunkGroup_new group_length =
     \<lparr>cg_chunks = replicate (unat group_length) None, cg_size = 0,
      cg_group_length = group_length\<rparr>"

definition ChunkGroup_add_chunk ::
    "bool \<Rightarrow> chunk_group \<Rightarrow> chunked_data \<Rightarrow> chunk_group \<times> (unit, veq_error) res" where
  "ChunkGroup_add_chunk oc g chunk =
     (case vec_remove (cg_chunks g) (unat (cd_index chunk)) of
        Ok cs1 \<Rightarrow>
          (case vec_insert cs1 (unat (cd_index chunk)) (Some chunk) of
             Ok cs2 \<Rightarrow>
               (case add_u64 oc (cg_size g) 1 of
                  Ok n \<Rightarrow> (g\<lparr>cg_chunks := cs2, cg_size := n\<rparr>, Ok ())
                | Err e \<Rightarrow> (g\<lparr>cg_chunks := cs2\<rparr>, Err e)
                | Panic p \<Rightarrow> (g\<lparr>cg_chunks := cs2\<rparr>, Panic p))
           | Err e \<Rightarrow> (g\<lparr>cg_chunks := cs1\<rparr>, Err e)
           | Panic p \<Rightarrow> (g\<lparr>cg_chunks := cs1\<rparr>, Panic p))
      | Err e \<Rightarrow> (g, Err e)
      | Panic p \<Rightarrow> (g, Panic p))"

definition ChunkGroup_is_complete :: "chunk_group \<Rightarrow> bool" where
  "ChunkGroup_is_complete g \<longleftrightarrow> cg_size g = cg_group_length g"

fun collect_loop :: "chunked_data option list \<Rightarrow> bytes \<Rightarrow> (bytes, veq_error) res" where
  "collect_loop [] output = Ok output"
| "collect_loop (c # cs) output =
     (case unwrap_option c of
        Ok cd \<Rightarrow> collect_loop cs (output @ cd_data cd)
      | Err e \<Rightarrow> Err e
      | Panic p \<Rightarrow> Panic p)"

definition ChunkGroup_collect :: "chunk_group \<Rightarrow> (bytes, veq_error) res" where
  "ChunkGroup_collect g = collect_loop (cg_chunks g) []"

section \<open>The chunker\<close>

record 'd chunker =
  delegate :: 'd
  chunk_size :: u64
  current_group :: u64
  chunk_groups :: "(u64, chunk_group) btree_map"
  completed_chunks :: "bytes list"

definition Chunker_new :: "'d \<Rightarrow> u64 \<Rightarrow> 'd chunker" where
  "Chunker_new d n =
     \<lparr>delegate = d, chunk_size = n, current_group = 0, chunk_groups = [],
      completed_chunks = []\<rparr>"

text \<open>The last block of \<open>add_chunk\<close>: at most ten groups stay.\<close>

definition evict_old_group :: "'d chunker \<Rightarrow> 'd chunker" where
  "evict_old_group c =
     (if 10 < length (chunk_groups c)
      then c\<lparr>chunk_groups := snd (btm_pop_first (chunk_groups c))\<rparr> else c)"

text \<open>\<open>entry(chunk.group).or_insert_with(|| ChunkGroup::new(chunk.group_length))\<close>\<close>

definition group_for :: "'d chunker \<Rightarrow> chunked_data \<Rightarrow> chunk_group" where
  "group_for c chunk =
     (case btm_get (chunk_groups c) (cd_group chunk) of
        Some g \<Rightarrow> g | None \<Rightarrow> ChunkGroup_new (cd_group_length chunk))"

definition Chunker_add_chunk ::
    "bool \<Rightarrow> 'd chunker \<Rightarrow> chunked_data \<Rightarrow> 'd chunker \<times> (unit, veq_error) res" where
  "Chunker_add_chunk oc c chunk =
     (let group_id = cd_group chunk
      in case ChunkGroup_add_chunk oc (group_for c chunk) chunk of
           (group', Ok _) \<Rightarrow>
             (let c1 = c\<lparr>chunk_groups := btm_insert group_id group' (chunk_groups c)\<rparr>
              in if ChunkGroup_is_complete group'
                 then (let c2 = c1\<lparr>chunk_groups := btm_remove group_id (chunk_groups c1)\<rparr>
                       in case ChunkGroup_collect group' of
                            Ok data \<Rightarrow>
                              (evict_old_group
                                 (c2\<lparr>completed_chunks := completed_chunks c2 @ [data]\<rparr>), Ok ())
                          | Err e \<Rightarrow> (c2, Err e)
                          | Panic p \<Rightarrow> (c2, Panic p))
                 else (evict_old_group c1, Ok ()))
         | (group', Err e) \<Rightarrow>
             (c\<lparr>chunk_groups := btm_insert group_id group' (chunk_groups c)\<rparr>, Err e)
         | (group', Panic p) \<Rightarrow>
             (c\<lparr>chunk_groups := btm_insert group_id group' (chunk_groups c)\<rparr>, Panic p))"

definition next_ready_chunk :: "'d chunker \<Rightarrow> bytes option \<times> 'd chunker" where
  "next_ready_chunk c =
     (case completed_chunks c of
        [] \<Rightarrow> (None, c)
      | x # xs \<Rightarrow> (Some x, c\<lparr>completed_chunks := xs\<rparr>))"

subsection \<open>Sending\<close>

definition make_chunks :: "u64 \<Rightarrow> bytes list \<Rightarrow> chunked_data list" where
  "make_chunks gid parts =
     map (\<lambda>(index, data). \<lparr>cd_group = gid, cd_index = of_nat index,
            cd_group_length = of_nat (length parts), cd_data = data\<rparr>)
       (enumerate 0 parts)"

fun serialize_chunks :: "chunked_data codec \<Rightarrow> chunked_data list \<Rightarrow> (bytes list, veq_error) res" where
  "serialize_chunks cdc [] = Ok []"
| "serialize_chunks cdc (x # xs) =
     (case unwrap_result (serialize cdc x) of
        Ok b \<Rightarrow> (case serialize_chunks cdc xs of
                   Ok bs \<Rightarrow> Ok (b # bs) | Err e \<Rightarrow> Err e | Panic p \<Rightarrow> Panic p)
      | Err e \<Rightarrow> Err e
      | Panic p \<Rightarrow> Panic p)"

fun send_each :: "'d bidir_send \<Rightarrow> 'd \<Rightarrow> bytes list \<Rightarrow> 'd \<times> (unit, veq_error) res" where
  "send_each dsend d [] = (d, Ok ())"
| "send_each dsend d (x # xs) =
     (case dsend d x of
        (d', Ok _) \<Rightarrow> send_each dsend d' xs
      | (d', Err e) \<Rightarrow> (d', Err e)
      | (d', Panic p) \<Rightarrow> (d', Panic p))"

definition Chunker_send ::
    "bool \<Rightarrow> chunked_data codec \<Rightarrow> 'd bidir_send \<Rightarrow> 'd chunker bidir_send" where
  "Chunker_send oc cdc dsend c data =
     (if chunk_size c = 0 then (c, Panic ZeroChunkSize)
      else
        let chunks = slice_chunks (unat (chunk_size c)) data;
            gid = current_group c
        in case add_u64 oc gid 1 of
             Ok next \<Rightarrow>
               (let c1 = c\<lparr>current_group := next\<rparr>
                in case serialize_chunks cdc (make_chunks gid chunks) of
                     Ok ds \<Rightarrow>
                       (case send_each dsend (delegate c1) ds of
                          (d', r) \<Rightarrow> (c1\<lparr>delegate := d'\<rparr>, r))
                   | Err e \<Rightarrow> (c1, Err e)
                   | Panic p \<Rightarrow> (c1, Panic p))
           | Err e \<Rightarrow> (c, Err e)
           | Panic p \<Rightarrow> (c, Panic p))"

subsection \<open>Receiving\<close>

text \<open>
  One pass through the body of the loop in \<open>recv\<close>: \<open>None\<close> if the delegate never returns,
  otherwise the new state with what \<open>recv\<close> returns, or with \<open>None\<close> if the loop goes on.
\<close>

definition recv_step ::
    "bool \<Rightarrow> chunked_data codec \<Rightarrow> 'd bidir_recv \<Rightarrow> 'd chunker \<Rightarrow>
       ('d chunker \<times> (bytes, veq_error) res option) option" where
  "recv_step oc cdc drecv c =
     (case next_ready_chunk c of
        (Some ready, c1) \<Rightarrow> Some (c1, Some (Ok ready))
      | (None, c1) \<Rightarrow>
          (case drecv (delegate c1) of
             None \<Rightarrow> None
           | Some (d', Ok bs) \<Rightarrow>
               (let c2 = c1\<lparr>delegate := d'\<rparr>
                in case unwrap_result (deserialize cdc bs) of
                     Ok chunked_data \<Rightarrow>
                       (case Chunker_add_chunk oc c2 chunked_data of
                          (c3, Ok _) \<Rightarrow> Some (c3, None)
                        | (c3, Err e) \<Rightarrow> Some (c3, Some (Err e))
                        | (c3, Panic p) \<Rightarrow> Some (c3, Some (Panic p)))
                   | Err e \<Rightarrow> Some (c2, Some (Err e))
                   | Panic p \<Rightarrow> Some (c2, Some (Panic p)))
           | Some (d', Err e) \<Rightarrow> Some (c1\<lparr>delegate := d'\<rparr>, Some (Err e))
           | Some (d', Panic p) \<Rightarrow> Some (c1\<lparr>delegate := d'\<rparr>, Some (Panic p))))"

partial_function (option) Chunker_recv ::
    "bool \<Rightarrow> chunked_data codec \<Rightarrow> 'd bidir_recv \<Rightarrow> 'd chunker \<Rightarrow>
       ('d chunker \<times> (bytes, veq_error) res) option" where
  "Chunker_recv oc cdc drecv c =
     Option.bind (recv_step oc cdc drecv c)
       (\<lambda>(c', r). case r of Some x \<Rightarrow> Some (c', x) | None \<Rightarrow> Chunker_recv oc cdc drecv c')"

section \<open>Splitting\<close>

lemma make_chunks_nth:
  "make_chunks g parts =
     map (\<lambda>i. \<lparr>cd_group = g, cd_index = of_nat i, cd_group_length = of_nat (length parts),
               cd_data = parts ! i\<rparr>) [0 ..< length parts]"
  by (simp add: make_chunks_def enumerate_map_index)

lemma length_make_chunks [simp]: "length (make_chunks g parts) = length parts"
  by (simp add: make_chunks_def)

lemma serialize_chunks_ok:
  assumes "codec_ok V cdc" and "\<forall>x \<in> set xs. V x"
  shows "\<exists>bs. serialize_chunks cdc xs = Ok bs \<and> map (deserialize cdc) bs = map Inr xs"
  using assms(2)
proof (induction xs)
  case (Cons x xs)
  then obtain bs where bs: "serialize_chunks cdc xs = Ok bs" "map (deserialize cdc) bs = map Inr xs"
    by auto
  from Cons.prems have "V x" by simp
  with assms(1) obtain b where "serialize cdc x = Inr b" and "deserialize cdc b = Inr x"
    by (rule codec_okE)
  with bs show ?case by (intro exI [of _ "b # bs"]) (simp add: unwrap_result_def)
qed simp

section \<open>The branches of add\_chunk\<close>

text \<open>\<open>remove\<close> followed by \<open>insert\<close> at the same place replaces the slot.\<close>

lemma ChunkGroup_add_chunk_slot:
  assumes "unat (cd_index x) < length (cg_chunks g)"
  shows "ChunkGroup_add_chunk oc g x =
    (let g' = g\<lparr>cg_chunks := (cg_chunks g)[unat (cd_index x) := Some x]\<rparr>
     in if oc \<and> cg_size g = u64_max then (g', Panic ArithmeticOverflow)
        else (g'\<lparr>cg_size := cg_size g + 1\<rparr>, Ok ()))"
proof -
  obtain ys where "vec_remove (cg_chunks g) (unat (cd_index x)) = (Ok ys :: (_, veq_error) res)"
      and "vec_insert ys (unat (cd_index x)) (Some x)
             = (Ok ((cg_chunks g)[unat (cd_index x) := Some x]) :: (_, veq_error) res)"
    using remove_then_insert [OF assms, of "Some x"] by auto
  then show ?thesis by (simp add: ChunkGroup_add_chunk_def add_u64_1_cases Let_def)
qed

lemma add_chunk_incomplete:
  assumes "ChunkGroup_add_chunk oc (group_for c x) x = (grp', Ok ())"
    and "\<not> ChunkGroup_is_complete grp'"
  shows "Chunker_add_chunk oc c x =
    (evict_old_group (c\<lparr>chunk_groups := btm_insert (cd_group x) grp' (chunk_groups c)\<rparr>), Ok ())"
  using assms by (simp add: Chunker_add_chunk_def Let_def)

lemma add_chunk_collected:
  assumes "ChunkGroup_add_chunk oc (group_for c x) x = (grp', Ok ())"
    and "ChunkGroup_is_complete grp'" and "ChunkGroup_collect grp' = Ok data"
  shows "Chunker_add_chunk oc c x =
    (evict_old_group (c\<lparr>chunk_groups :=
         btm_remove (cd_group x) (btm_insert (cd_group x) grp' (chunk_groups c)),
       completed_chunks := completed_chunks c @ [data]\<rparr>), Ok ())"
  using assms by (simp add: Chunker_add_chunk_def Let_def)

lemma add_chunk_uncollected:
  assumes "ChunkGroup_add_chunk oc (group_for c x) x = (grp', Ok ())"
    and "ChunkGroup_is_complete grp'" and "ChunkGroup_collect grp' = Panic p"
  shows "snd (Chunker_add_chunk oc c x) = Panic p"
  using assms by (simp add: Chunker_add_chunk_def Let_def)

lemma add_chunk_OkE:
  assumes "Chunker_add_chunk oc c x = (c', Ok ())"
  obtains grp' where "c' =
      evict_old_group (c\<lparr>chunk_groups := btm_insert (cd_group x) grp' (chunk_groups c)\<rparr>)"
  | grp' data where "c' =
      evict_old_group (c\<lparr>chunk_groups :=
         btm_remove (cd_group x) (btm_insert (cd_group x) grp' (chunk_groups c)),
         completed_chunks := completed_chunks c @ [data]\<rparr>)"
  using assms
  by (auto simp: Chunker_add_chunk_def Let_def split: prod.splits res.splits if_splits)

section \<open>The loop of recv\<close>

lemma Chunker_recv_ready:
  "completed_chunks c = x # xs \<Longrightarrow>
     Chunker_recv oc cdc drecv c = Some (c\<lparr>completed_chunks := xs\<rparr>, Ok x)"
  by (subst Chunker_recv.simps) (simp add: recv_step_def next_ready_chunk_def)

lemma Chunker_recv_waits:
  "completed_chunks c = [] \<Longrightarrow> drecv (delegate c) = None \<Longrightarrow> Chunker_recv oc cdc drecv c = None"
  by (subst Chunker_recv.simps) (simp add: recv_step_def next_ready_chunk_def)

lemma Chunker_recv_continue:
  "recv_step oc cdc drecv c = Some (c', None) \<Longrightarrow>
     Chunker_recv oc cdc drecv c = Chunker_recv oc cdc drecv c'"
  by (subst Chunker_recv.simps) simp

text \<open>Receiving leaves the sending side of the chunker alone.\<close>

lemma add_chunk_sending_side:
  "Chunker_add_chunk oc c x = (c', r) \<Longrightarrow>
     chunk_size c' = chunk_size c \<and> current_group c' = current_group c"
  by (auto simp: Chunker_add_chunk_def evict_old_group_def Let_def
      split: prod.splits option.splits res.splits if_splits)

lemma recv_step_sending_side:
  "recv_step oc cdc drecv c = Some (c', r) \<Longrightarrow>
     chunk_size c' = chunk_size c \<and> current_group c' = current_group c"
  by (auto simp: recv_step_def next_ready_chunk_def Let_def dest!: add_chunk_sending_side
      split: prod.splits option.splits res.splits list.splits)

lemma Chunker_recv_sending_side:
  assumes "Chunker_recv oc cdc drecv c = Some y"
  shows "chunk_size (fst y) = chunk_size c \<and> current_group (fst y) = current_group c"
  using assms
proof (rule Chunker_recv.raw_induct [rotated])
  fix rec :: "bool \<Rightarrow> chunked_data codec \<Rightarrow> 'a bidir_recv \<Rightarrow> 'a chunker \<Rightarrow> ('a chunker \<times> (bytes, veq_error) res) option"
    and oc cdc drecv c y
  assume rec: "\<And>oc cdc drecv c y. rec oc cdc drecv c = Some y \<Longrightarrow>
      chunk_size (fst y) = chunk_size c \<and> current_group (fst y) = current_group c"
    and "Option.bind (recv_step oc cdc drecv c)
      (\<lambda>(c', r). case r of None \<Rightarrow> rec oc cdc drecv c' | Some x \<Rightarrow> Some (c', x)) = Some y"
  then obtain c1 r where step: "recv_step oc cdc drecv c = Some (c1, r)"
      "(case r of None \<Rightarrow> rec oc cdc drecv c1 | Some x \<Rightarrow> Some (c1, x)) = Some y"
    by (cases "recv_step oc cdc drecv c") auto
  show "chunk_size (fst y) = chunk_size c \<and> current_group (fst y) = current_group c"
  proof (cases r)
    case None
    then have "rec oc cdc drecv c1 = Some y" using step(2) by simp
    from rec [OF this] recv_step_sending_side [OF step(1)] show ?thesis by simp
  next
    case (Some x)
    with step(2) recv_step_sending_side [OF step(1)] show ?thesis by auto
  qed
qed

end
