(* ===== verification/Races.thy ===== *)
theory Races
  imports Chunker "HOL-Library.Sublist"
begin

text \<open>
  Overlapping calls of \<open>Chunker::send\<close> on clones of one chunker (\<open>src/src/transform.rs\<close>). The
  call takes the lock of \<open>current_group\<close> twice: it reads the number and releases the lock, then
  locks again to write the number plus one, and keeps the lock while it sends. Two calls can read
  the same number in between.
\<close>

section \<open>The calls as steps\<close>

datatype send_pc = Start | GotGroup u64 | Holding u64 | Finished

record senders =
  shared_group :: u64
  guard_held :: bool
  calls :: "nat \<Rightarrow> send_pc \<times> bytes"
  on_wire_chunks :: "chunked_data list"

text \<open>The chunks leave one by one while the lock is held, which no other call can tell apart from
  leaving together.\<close>

inductive send_step :: "bool \<Rightarrow> nat \<Rightarrow> senders \<Rightarrow> senders \<Rightarrow> bool" for oc n where
  read_group: "calls s j = (Start, m) \<Longrightarrow> \<not> guard_held s \<Longrightarrow>
     send_step oc n s (s\<lparr>calls := (calls s)(j := (GotGroup (shared_group s), m))\<rparr>)"
| write_group: "calls s j = (GotGroup g, m) \<Longrightarrow> \<not> guard_held s \<Longrightarrow> add_u64 oc g 1 = (Ok g' :: (u64, unit) res) \<Longrightarrow>
     send_step oc n s (s\<lparr>shared_group := g', guard_held := True, calls := (calls s)(j := (Holding g, m))\<rparr>)"
| send_chunks: "calls s j = (Holding g, m) \<Longrightarrow>
     send_step oc n s (s\<lparr>guard_held := False, calls := (calls s)(j := (Finished, m)),
       on_wire_chunks := on_wire_chunks s @ make_chunks g (slice_chunks n m)\<rparr>)"

inductive_cases send_stepE: "send_step oc n s s'"

text \<open>At most one call holds the lock.\<close>

definition guarded :: "senders \<Rightarrow> bool" where
  "guarded s \<longleftrightarrow>
     (\<forall>j k g h m m'. calls s j = (Holding g, m) \<and> calls s k = (Holding h, m') \<longrightarrow> j = k)
     \<and> (guard_held s \<longleftrightarrow> (\<exists>j g m. calls s j = (Holding g, m)))"

lemma guarded_step: "send_step oc n s s' \<Longrightarrow> guarded s \<Longrightarrow> guarded s'"
  by (erule send_stepE) (auto simp: guarded_def split: if_splits; metis)+

lemma guarded_reachable: "(send_step oc n)\<^sup>*\<^sup>* s s' \<Longrightarrow> guarded s \<Longrightarrow> guarded s'"
  by (induction rule: rtranclp_induct) (auto dest: guarded_step)

section \<open>Two calls with one number\<close>

definition two_sends :: "u64 \<Rightarrow> bytes \<Rightarrow> bytes \<Rightarrow> senders" where
  "two_sends g a b =
     \<lparr>shared_group = g, guard_held = False, calls = (\<lambda>_. (Finished, []))(0 := (Start, a), 1 := (Start, b)),
      on_wire_chunks = []\<rparr>"

lemma same_number:
  assumes "g \<noteq> u64_max"
  shows "\<exists>s. (send_step oc n)\<^sup>*\<^sup>* (two_sends g a b) s
    \<and> on_wire_chunks s = make_chunks g (slice_chunks n a) @ make_chunks g (slice_chunks n b)"
proof -
  let ?s0 = "two_sends g a b"
  let ?s1 = "?s0\<lparr>calls := (calls ?s0)(0 := (GotGroup g, a))\<rparr>"
  let ?s2 = "?s1\<lparr>calls := (calls ?s1)(1 := (GotGroup g, b))\<rparr>"
  let ?s3 = "?s2\<lparr>shared_group := g + 1, guard_held := True, calls := (calls ?s2)(0 := (Holding g, a))\<rparr>"
  let ?s4 = "?s3\<lparr>guard_held := False, calls := (calls ?s3)(0 := (Finished, a)),
    on_wire_chunks := make_chunks g (slice_chunks n a)\<rparr>"
  let ?s5 = "?s4\<lparr>shared_group := g + 1, guard_held := True, calls := (calls ?s4)(1 := (Holding g, b))\<rparr>"
  let ?s6 = "?s5\<lparr>guard_held := False, calls := (calls ?s5)(1 := (Finished, b)),
    on_wire_chunks := make_chunks g (slice_chunks n a) @ make_chunks g (slice_chunks n b)\<rparr>"
  note next_g = add_u64_1_cases [of oc g]
  have "send_step oc n ?s0 ?s1" using send_step.read_group [of ?s0 0 a oc n] by (simp add: two_sends_def)
  moreover have "send_step oc n ?s1 ?s2"
    using send_step.read_group [of ?s1 1 b oc n] by (simp add: two_sends_def)
  moreover have "send_step oc n ?s2 ?s3"
    using send_step.write_group [of ?s2 0 g a oc "g + 1" n] assms by (simp add: two_sends_def next_g)
  moreover have "send_step oc n ?s3 ?s4"
    using send_step.send_chunks [of ?s3 0 g a oc n] by (simp add: two_sends_def)
  moreover have "send_step oc n ?s4 ?s5"
    using send_step.write_group [of ?s4 1 g b oc "g + 1" n] assms by (simp add: two_sends_def next_g)
  moreover have "send_step oc n ?s5 ?s6"
    using send_step.send_chunks [of ?s5 1 g b oc n] by (simp add: two_sends_def)
  ultimately have "(send_step oc n)\<^sup>*\<^sup>* ?s0 ?s6" by (meson rtranclp.rtrancl_refl rtranclp.rtrancl_into_rtrancl)
  then show ?thesis by force
qed

text \<open>C33 (safety). Two overlapping calls that send two chunks each: when the second chunk of one and the first of
  the other are lost, the receiver hands on a message that was never sent, made of a half of each.\<close>

theorem overlapping_sends_mix:
  assumes "slice_chunks n a = [a0, a1]" and "slice_chunks n b = [b0, b1]" and "g \<noteq> u64_max"
  shows "\<exists>s x y. (send_step oc n)\<^sup>*\<^sup>* (two_sends g a b) s \<and> subseq [x, y] (on_wire_chunks s)
    \<and> completed_chunks (fst (Chunker_add_chunk oc (fst (Chunker_add_chunk oc (Chunker_new d m) x)) y))
        = [a0 @ b1]"
proof -
  let ?x = "\<lparr>cd_group = g, cd_index = 0, cd_group_length = 2, cd_data = a0\<rparr>"
  let ?y = "\<lparr>cd_group = g, cd_index = 1, cd_group_length = 2, cd_data = b1\<rparr>"
  let ?c = "Chunker_new d m"
  let ?g1 = "\<lparr>cg_chunks = [Some ?x, None], cg_size = 1, cg_group_length = 2\<rparr>"
  let ?g2 = "\<lparr>cg_chunks = [Some ?x, Some ?y], cg_size = 2, cg_group_length = 2\<rparr>"
  obtain s where s: "(send_step oc n)\<^sup>*\<^sup>* (two_sends g a b) s"
      "on_wire_chunks s = make_chunks g (slice_chunks n a) @ make_chunks g (slice_chunks n b)"
    using same_number [OF assms(3)] by blast
  have "subseq [?x, ?y] (on_wire_chunks s)"
    unfolding s(2) assms(1,2) by (simp add: make_chunks_def)
  moreover have "replicate 2 None = [None, None :: chunked_data option]" by (simp add: numeral_2_eq_2)
  then have "group_for ?c ?x = \<lparr>cg_chunks = [None, None], cg_size = 0, cg_group_length = 2\<rparr>"
    by (simp add: group_for_def Chunker_new_def btm_get_def ChunkGroup_new_def)
  then have "ChunkGroup_add_chunk oc (group_for ?c ?x) ?x = (?g1, Ok ())"
    by (simp add: ChunkGroup_add_chunk_slot Let_def)
  then have one: "Chunker_add_chunk oc ?c ?x = (?c\<lparr>chunk_groups := [(g, ?g1)]\<rparr>, Ok ())"
    by (simp add: add_chunk_incomplete ChunkGroup_is_complete_def evict_old_group_def Chunker_new_def)
  have "ChunkGroup_add_chunk oc (group_for (?c\<lparr>chunk_groups := [(g, ?g1)]\<rparr>) ?y) ?y = (?g2, Ok ())"
    by (simp add: group_for_def btm_get_def ChunkGroup_add_chunk_slot Let_def)
  then have "completed_chunks (fst (Chunker_add_chunk oc (?c\<lparr>chunk_groups := [(g, ?g1)]\<rparr>) ?y)) = [a0 @ b1]"
    by (simp add: add_chunk_collected ChunkGroup_is_complete_def ChunkGroup_collect_def unwrap_option_def
        evict_old_group_def Chunker_new_def)
  ultimately show ?thesis using s(1) one by (intro exI [of _ s] exI [of _ ?x] exI [of _ ?y]) simp
qed

theorem overlapping_sends_mix_witness:
  "\<exists>s x y. (send_step True 1)\<^sup>*\<^sup>* (two_sends 0 [1, 2] [3, 4]) s \<and> subseq [x, y] (on_wire_chunks s)
    \<and> completed_chunks (fst (Chunker_add_chunk True (fst (Chunker_add_chunk True (Chunker_new () 1) x)) y))
        = [[1] @ [4]]"
  by (rule overlapping_sends_mix) (simp_all add: slice_chunks_step)

end
