(* ===== verification/Transport.thy ===== *)
theory Transport
  imports Collections Bincode "HOL-Library.List_Lexorder"
begin

text \<open>
  \<open>src/src/snow_types.rs\<close>: keys, the two sides of the Noise handshake, and
  \<open>LossyTransportState\<close>, which numbers the messages of a session and filters replays. The
  package \<open>snow\<close> is a parameter, the record \<open>snow\<close> of the calls the program makes. A call
  that fills a \<open>&mut [u8]\<close> is given the length of the buffer and returns the bytes it writes.
\<close>

section \<open>The package snow\<close>

text \<open>\<open>snow::Error\<close>: the program itself constructs \<open>Decrypt\<close>; the others are opaque.\<close>

datatype snow_error = Decrypt | SnowError string

record ('b, 'h, 's) snow =
  new_builder :: "string \<Rightarrow> snow_error + 'b"
  generate_keypair :: "'b \<Rightarrow> bytes \<Rightarrow> snow_error + bytes \<times> bytes"
  local_private_key :: "'b \<Rightarrow> bytes \<Rightarrow> snow_error + 'b"
  remote_public_key :: "'b \<Rightarrow> bytes \<Rightarrow> snow_error + 'b"
  build_initiator :: "'b \<Rightarrow> snow_error + 'h"
  build_responder :: "'b \<Rightarrow> snow_error + 'h"
  hs_write_message :: "'h \<Rightarrow> bytes \<Rightarrow> nat \<Rightarrow> 'h \<times> (snow_error + bytes)"
  hs_read_message :: "'h \<Rightarrow> bytes \<Rightarrow> nat \<Rightarrow> 'h \<times> (snow_error + bytes)"
  into_stateless_transport_mode :: "'h \<Rightarrow> snow_error + 's"
  st_write_message :: "'s \<Rightarrow> u64 \<Rightarrow> bytes \<Rightarrow> nat \<Rightarrow> snow_error + bytes"
  st_read_message :: "'s \<Rightarrow> u64 \<Rightarrow> bytes \<Rightarrow> nat \<Rightarrow> snow_error + bytes"

text \<open>\<open>anyhow::Error\<close>, by what was wrapped.\<close>

datatype anyhow_error =
    FromBincode bincode_error | FromSnow snow_error | FromSendError | Anyhow string

text \<open>The stack buffers \<open>[0u8; 65535]\<close> of the callers.\<close>

definition buffer :: bytes where
  "buffer = replicate 65535 0"

lemma length_buffer [simp]: "length buffer = 65535"
  by (simp add: buffer_def)

section \<open>LossyTransportState\<close>

record 's lossy_transport_state =
  stateless :: 's
  window_size :: nat
  next_nonce :: u64
  received_nonces :: "u64 btree_set"

datatype nonced = Nonced u64 bytes

definition LossyTransportState_new :: "'s \<Rightarrow> nat \<Rightarrow> 's lossy_transport_state" where
  "LossyTransportState_new st sz =
     \<lparr>stateless = st, window_size = sz, next_nonce = 0, received_nonces = []\<rparr>"

definition from_stateless :: "'s \<Rightarrow> 's lossy_transport_state" where
  "from_stateless st = LossyTransportState_new st 1"

text \<open>The state, the caller's buffer and the result of \<open>write_message\<close>.\<close>

definition write_message ::
    "bool \<Rightarrow> nonced codec \<Rightarrow> ('b, 'h, 's) snow \<Rightarrow> 's lossy_transport_state \<Rightarrow> bytes \<Rightarrow> bytes \<Rightarrow>
       's lossy_transport_state \<times> bytes \<times> (nat, anyhow_error) res" where
  "write_message oc ncd sn lt payload message =
     (let nonce = next_nonce lt
      in case add_u64 oc nonce 1 of
           Ok next \<Rightarrow>
             (let lt1 = lt\<lparr>next_nonce := next\<rparr>
              in case st_write_message sn (stateless lt) nonce payload (length message) of
                   Inl e \<Rightarrow> (lt1, message, Err (FromSnow e))
                 | Inr out \<Rightarrow>
                     (let message1 = overwrite out message
                      in case slice_to message1 (length out) of
                           Ok written \<Rightarrow>
                             (case question FromBincode (serialize ncd (Nonced nonce written)) of
                                Ok serialized \<Rightarrow>
                                  (lt1, overwrite serialized message1, Ok (length serialized))
                              | Err e \<Rightarrow> (lt1, message1, Err e)
                              | Panic p \<Rightarrow> (lt1, message1, Panic p))
                         | Err e \<Rightarrow> (lt1, message1, Err e)
                         | Panic p \<Rightarrow> (lt1, message1, Panic p)))
         | Err e \<Rightarrow> (lt, message, Err e)
         | Panic p \<Rightarrow> (lt, message, Panic p))"

text \<open>The loop \<open>while guard.len() > self.size\<close>.\<close>

function trim_nonces :: "nat \<Rightarrow> 'k btree_set \<Rightarrow> 'k btree_set" where
  "trim_nonces sz s = (if sz < length s then trim_nonces sz (bts_pop_first s) else s)"
  by pat_completeness auto
termination
  by (relation "measure (\<lambda>(sz, s). length s)") (auto simp: bts_pop_first_def)

declare trim_nonces.simps [simp del]

definition nonce_rejected :: "u64 btree_set \<Rightarrow> u64 \<Rightarrow> bool" where
  "nonce_rejected guard nonce \<longleftrightarrow>
     bts_contains nonce guard \<or> (case bts_first guard of Some f \<Rightarrow> nonce < f | None \<Rightarrow> False)"

text \<open>\<open>insert\<close> and the loop.\<close>

definition admit_nonce :: "nat \<Rightarrow> u64 \<Rightarrow> u64 btree_set \<Rightarrow> u64 btree_set" where
  "admit_nonce sz nonce guard = trim_nonces sz (bts_insert nonce guard)"

definition read_message ::
    "nonced codec \<Rightarrow> ('b, 'h, 's) snow \<Rightarrow> 's lossy_transport_state \<Rightarrow> bytes \<Rightarrow> bytes \<Rightarrow>
       's lossy_transport_state \<times> bytes \<times> (nat, anyhow_error) res" where
  "read_message ncd sn lt payload message =
     (case deserialize ncd payload of
        Inl e \<Rightarrow> (lt, message, Err (FromBincode e))
      | Inr (Nonced nonce body) \<Rightarrow>
          (if nonce_rejected (received_nonces lt) nonce
           then (lt, message, Err (FromSnow Decrypt))
           else
             let lt1 = lt\<lparr>received_nonces :=
                   admit_nonce (window_size lt) nonce (received_nonces lt)\<rparr>
             in case st_read_message sn (stateless lt) nonce body (length message) of
                  Inl e \<Rightarrow> (lt1, message, Err (FromSnow e))
                | Inr out \<Rightarrow> (lt1, overwrite out message, Ok (length out))))"

text \<open>What \<open>session.rs\<close> does around the two calls: a buffer of 65535 bytes, \<open>?\<close>, and
  \<open>[..len]\<close> of the buffer, which panics when the returned length is larger.\<close>

fun filled_slice :: "bytes \<Rightarrow> (nat, 'e) res \<Rightarrow> (bytes, 'e) res" where
  "filled_slice buf (Ok n) = slice_to buf n"
| "filled_slice buf (Err e) = Err e"
| "filled_slice buf (Panic p) = Panic p"

definition seal ::
    "bool \<Rightarrow> nonced codec \<Rightarrow> ('b, 'h, 's) snow \<Rightarrow> 's lossy_transport_state \<Rightarrow> bytes \<Rightarrow>
       's lossy_transport_state \<times> (bytes, anyhow_error) res" where
  "seal oc ncd sn lt payload =
     (case write_message oc ncd sn lt payload buffer of (lt1, buf, r) \<Rightarrow> (lt1, filled_slice buf r))"

definition unseal ::
    "nonced codec \<Rightarrow> ('b, 'h, 's) snow \<Rightarrow> 's lossy_transport_state \<Rightarrow> bytes \<Rightarrow>
       's lossy_transport_state \<times> (bytes, anyhow_error) res" where
  "unseal ncd sn lt payload =
     (case read_message ncd sn lt payload buffer of (lt1, buf, r) \<Rightarrow> (lt1, filled_slice buf r))"

section \<open>Keys and the handshake\<close>

datatype snow_public_key = SnowPublicKey bytes
datatype snow_private_key = SnowPrivateKey bytes
datatype snow_keypair = SnowKeypair snow_public_key snow_private_key

text \<open>\<open>#[derive(PartialOrd)]\<close> on a tuple struct around \<open>Vec<u8>\<close>: lexicographic.\<close>

instantiation snow_public_key :: linorder
begin

fun less_eq_snow_public_key :: "snow_public_key \<Rightarrow> snow_public_key \<Rightarrow> bool" where
  "SnowPublicKey a \<le> SnowPublicKey b \<longleftrightarrow> a \<le> b"

fun less_snow_public_key :: "snow_public_key \<Rightarrow> snow_public_key \<Rightarrow> bool" where
  "SnowPublicKey a < SnowPublicKey b \<longleftrightarrow> a < b"

instance
proof
  fix x y z :: snow_public_key
  show "x < y \<longleftrightarrow> x \<le> y \<and> \<not> y \<le> x" by (cases x; cases y) auto
  show "x \<le> x" by (cases x) simp
  show "x \<le> y \<Longrightarrow> y \<le> z \<Longrightarrow> x \<le> z" by (cases x; cases y; cases z) auto
  show "x \<le> y \<Longrightarrow> y \<le> x \<Longrightarrow> x = y" by (cases x; cases y) auto
  show "x \<le> y \<or> y \<le> x" by (cases x; cases y) auto
qed

end

definition NOISE_PARAMS :: string where
  "NOISE_PARAMS = ''Noise_KKhfs_25519+Kyber1024_XChaChaPoly_BLAKE2b''"

definition snow_builder :: "('b, 'h, 's) snow \<Rightarrow> ('b, 'e) res" where
  "snow_builder sn = unwrap_result (new_builder sn NOISE_PARAMS)"

definition SnowPublicKey_base64 :: "(bytes \<Rightarrow> string) \<Rightarrow> snow_public_key \<Rightarrow> string" where
  "SnowPublicKey_base64 encode pk = (case pk of SnowPublicKey k \<Rightarrow> encode k)"

text \<open>The randomness drawn by \<open>generate_keypair\<close> is the argument \<open>seed\<close>; the package returns
  the private and the public key.\<close>

definition SnowKeypair_new :: "('b, 'h, 's) snow \<Rightarrow> bytes \<Rightarrow> (snow_keypair, snow_error) res" where
  "SnowKeypair_new sn seed =
     (case snow_builder sn of
        Ok b \<Rightarrow>
          (case question id (generate_keypair sn b seed) of
             Ok (prv, pub) \<Rightarrow> Ok (SnowKeypair (SnowPublicKey pub) (SnowPrivateKey prv))
           | Err e \<Rightarrow> Err e
           | Panic p \<Rightarrow> Panic p)
      | Err e \<Rightarrow> Err e
      | Panic p \<Rightarrow> Panic p)"

definition SnowKeypair_default :: "('b, 'h, 's) snow \<Rightarrow> bytes \<Rightarrow> (snow_keypair, snow_error) res" where
  "SnowKeypair_default sn seed =
     (case SnowKeypair_new sn seed of Err e \<Rightarrow> Panic UnwrapErr | r \<Rightarrow> r)"

fun keypair_public :: "snow_keypair \<Rightarrow> snow_public_key" where
  "keypair_public (SnowKeypair pub prv) = pub"

fun keypair_private :: "snow_keypair \<Rightarrow> snow_private_key" where
  "keypair_private (SnowKeypair pub prv) = prv"

fun SnowKeypair_builder :: "('b, 'h, 's) snow \<Rightarrow> snow_keypair \<Rightarrow> ('b, 'e) res" where
  "SnowKeypair_builder sn (SnowKeypair pub (SnowPrivateKey k)) =
     (case snow_builder sn of
        Ok b \<Rightarrow> unwrap_result (local_private_key sn b k)
      | Err e \<Rightarrow> Err e
      | Panic p \<Rightarrow> Panic p)"

text \<open>\<open>keypair.builder().remote_public_key(..)?.build_..()?\<close>, common to both sides.\<close>

fun build_with ::
    "('b, 'h, 's) snow \<Rightarrow> ('b \<Rightarrow> snow_error + 'h) \<Rightarrow> snow_keypair \<Rightarrow> snow_public_key \<Rightarrow>
       ('h, snow_error) res" where
  "build_with sn build kp (SnowPublicKey rk) =
     (case SnowKeypair_builder sn kp of
        Ok b \<Rightarrow>
          (case question id (remote_public_key sn b rk) of
             Ok b1 \<Rightarrow> question id (build b1)
           | Err e \<Rightarrow> Err e
           | Panic p \<Rightarrow> Panic p)
      | Err e \<Rightarrow> Err e
      | Panic p \<Rightarrow> Panic p)"

datatype snow_initiation = SnowInitiation bytes
datatype snow_response = SnowResponse bytes
datatype 'h snow_initiator = SnowInitiator 'h snow_initiation
datatype 'h snow_responder = SnowResponder 'h

definition SnowInitiator_new ::
    "('b, 'h, 's) snow \<Rightarrow> snow_keypair \<Rightarrow> snow_public_key \<Rightarrow> ('h snow_initiator, snow_error) res" where
  "SnowInitiator_new sn kp rk =
     (case build_with sn (build_initiator sn) kp rk of
        Ok h \<Rightarrow>
          (case hs_write_message sn h [] (length buffer) of
             (h1, Inl e) \<Rightarrow> Err e
           | (h1, Inr out) \<Rightarrow>
               (case slice_to (overwrite out buffer) (length out) of
                  Ok msg \<Rightarrow> Ok (SnowInitiator h1 (SnowInitiation msg))
                | Err e \<Rightarrow> Err e
                | Panic p \<Rightarrow> Panic p))
      | Err e \<Rightarrow> Err e
      | Panic p \<Rightarrow> Panic p)"

fun initiation :: "'h snow_initiator \<Rightarrow> snow_initiation" where
  "initiation (SnowInitiator h i) = i"

datatype ('h, 's) receive_response_result =
    ReceiveOk "'s lossy_transport_state" | ReceiveErr "'h snow_initiator"

fun receive_response_unwrap ::
    "('h, 's) receive_response_result \<Rightarrow> ('s lossy_transport_state, 'e) res" where
  "receive_response_unwrap (ReceiveOk st) = Ok st"
| "receive_response_unwrap (ReceiveErr i) = Panic ExplicitPanic"

fun receive_response ::
    "('b, 'h, 's) snow \<Rightarrow> 'h snow_initiator \<Rightarrow> snow_response \<Rightarrow>
       (('h, 's) receive_response_result, snow_error) res" where
  "receive_response sn (SnowInitiator h i) (SnowResponse r) =
     (case hs_read_message sn h r (length buffer) of
        (h1, Inl e) \<Rightarrow> Ok (ReceiveErr (SnowInitiator h1 i))
      | (h1, Inr _) \<Rightarrow>
          (case question id (into_stateless_transport_mode sn h1) of
             Ok st \<Rightarrow> Ok (ReceiveOk (from_stateless st))
           | Err e \<Rightarrow> Err e
           | Panic p \<Rightarrow> Panic p))"

definition SnowResponder_new ::
    "('b, 'h, 's) snow \<Rightarrow> snow_keypair \<Rightarrow> snow_public_key \<Rightarrow> ('h snow_responder, snow_error) res" where
  "SnowResponder_new sn kp rk =
     (case build_with sn (build_responder sn) kp rk of
        Ok h \<Rightarrow> Ok (SnowResponder h)
      | Err e \<Rightarrow> Err e
      | Panic p \<Rightarrow> Panic p)"

fun responder_response ::
    "('b, 'h, 's) snow \<Rightarrow> 'h snow_responder \<Rightarrow> snow_initiation \<Rightarrow>
       ('s lossy_transport_state \<times> snow_response, snow_error) res" where
  "responder_response sn (SnowResponder h) (SnowInitiation i) =
     (case hs_read_message sn h i (length buffer) of
        (h1, Inl e) \<Rightarrow> Err e
      | (h1, Inr _) \<Rightarrow>
          (case hs_write_message sn h1 [] (length buffer) of
             (h2, Inl e) \<Rightarrow> Err e
           | (h2, Inr out) \<Rightarrow>
               (case slice_to (overwrite out buffer) (length out) of
                  Ok msg \<Rightarrow>
                    (case question id (into_stateless_transport_mode sn h2) of
                       Ok st \<Rightarrow> Ok (from_stateless st, SnowResponse msg)
                     | Err e \<Rightarrow> Err e
                     | Panic p \<Rightarrow> Panic p)
                | Err e \<Rightarrow> Err e
                | Panic p \<Rightarrow> Panic p)))"

end
