(* ===== verification/Net.thy ===== *)
theory Net
  imports Transport
begin

text \<open>
  What the session layer shares with the rest of the program: addresses, identifiers,
  \<open>ConnectionInfo\<close> (\<open>src/src/veq.rs\<close>), the packets of \<open>src/src/session.rs\<close>, unbounded
  channels, wakers, and the tasks that announce a handshake once per second. Tasks live in a table
  of the runtime under the number that their \<open>JoinHandle\<close> holds; \<open>abort\<close> removes the entry.
  A \<open>HashSet\<close> of addresses is a list, in the unspecified order in which it is iterated.
\<close>

section \<open>Addresses and identifiers\<close>

datatype ip_addr = Ipv4 u32 | Ipv6 u128

datatype socket_addr =
    SocketAddrV4 u32 u16            \<comment> \<open>address, port\<close>
  | SocketAddrV6 u128 u16 u32 u32   \<comment> \<open>address, port, flow info, scope\<close>

fun is_ipv4 :: "socket_addr \<Rightarrow> bool" where
  "is_ipv4 (SocketAddrV4 _ _) = True"
| "is_ipv4 (SocketAddrV6 _ _ _ _) = False"

abbreviation is_ipv6 :: "socket_addr \<Rightarrow> bool" where
  "is_ipv6 a \<equiv> \<not> is_ipv4 a"

fun addr_ip :: "socket_addr \<Rightarrow> ip_addr" where
  "addr_ip (SocketAddrV4 ip _) = Ipv4 ip"
| "addr_ip (SocketAddrV6 ip _ _ _) = Ipv6 ip"

fun addr_port :: "socket_addr \<Rightarrow> u16" where
  "addr_port (SocketAddrV4 _ port) = port"
| "addr_port (SocketAddrV6 _ port _ _) = port"

fun set_port :: "u16 \<Rightarrow> socket_addr \<Rightarrow> socket_addr" where
  "set_port port (SocketAddrV4 ip _) = SocketAddrV4 ip port"
| "set_port port (SocketAddrV6 ip _ fl sc) = SocketAddrV6 ip port fl sc"

text \<open>\<open>0.0.0.0\<close> and \<open>::\<close>\<close>

fun is_unspecified :: "ip_addr \<Rightarrow> bool" where
  "is_unspecified (Ipv4 ip) \<longleftrightarrow> ip = 0"
| "is_unspecified (Ipv6 ip) \<longleftrightarrow> ip = 0"

type_synonym uuid = u128
type_synonym session_id = uuid
type_synonym one_time_id = session_id

record connection_info =
  addresses :: "socket_addr list"
  public_key :: snow_public_key

section \<open>Messages\<close>

record session_packet =
  packet_id :: session_id
  packet_data :: bytes

definition SessionPacket_new :: "session_id \<Rightarrow> bytes \<Rightarrow> session_packet" where
  "SessionPacket_new i d = \<lparr>packet_id = i, packet_data = d\<rparr>"

lemma SessionPacket_sel [simp]:
  "packet_id (SessionPacket_new i d) = i" "packet_data (SessionPacket_new i d) = d"
  by (simp_all add: SessionPacket_new_def)

datatype raw_message =
    HandshakePoke
  | HandshakeInitiation snow_initiation
  | HandshakeResponse snow_response
  | Encrypted bytes

datatype message = Keepalive | Payload bytes

text \<open>The packages the program calls and the build it runs in.\<close>

record ('b, 'h, 's) env =
  overflow_checks :: bool
  snow_of :: "('b, 'h, 's) snow"
  nonced_codec :: "nonced codec"
  message_codec :: "message codec"
  raw_codec :: "raw_message codec"
  packet_codec :: "session_packet codec"

section \<open>Channels and the runtime\<close>

text \<open>\<open>tokio::sync::mpsc\<close> without a bound: sending fails when the receiver is gone.\<close>

type_synonym outgoing_item = "socket_addr \<times> session_packet \<times> u32"

record channel =
  chan_open :: bool
  chan_queue :: "outgoing_item list"

definition chan_send :: "channel \<Rightarrow> outgoing_item \<Rightarrow> channel \<times> bool" where
  "chan_send ch x =
     (if chan_open ch then (ch\<lparr>chan_queue := chan_queue ch @ [x]\<rparr>, True) else (ch, False))"

type_synonym waker = nat
type_synonym task_id = nat

text \<open>An announcement: a message for a session, sent to each of the addresses.\<close>

record announcement =
  ann_addresses :: "socket_addr list"
  ann_id :: session_id
  ann_message :: raw_message

record runtime =
  outgoing :: channel
  tasks :: "task_id \<Rightarrow> announcement option"
  next_task :: task_id
  woken :: "waker list"

definition spawn :: "announcement \<Rightarrow> runtime \<Rightarrow> runtime \<times> task_id" where
  "spawn t rt =
     (rt\<lparr>tasks := (tasks rt)(next_task rt \<mapsto> t), next_task := Suc (next_task rt)\<rparr>, next_task rt)"

definition abort_task :: "task_id \<Rightarrow> runtime \<Rightarrow> runtime" where
  "abort_task h rt = rt\<lparr>tasks := (tasks rt)(h := None)\<rparr>"

definition wake :: "waker list \<Rightarrow> runtime \<Rightarrow> runtime" where
  "wake ws rt = rt\<lparr>woken := woken rt @ ws\<rparr>"

text \<open>The body of \<open>for_each\<close> in the announcing tasks: a failed send is only logged.\<close>

fun announce_to :: "socket_addr list \<Rightarrow> session_packet \<Rightarrow> channel \<Rightarrow> channel" where
  "announce_to [] p ch = ch"
| "announce_to (a # as) p ch = announce_to as p (fst (chan_send ch (a, p, 64)))"

text \<open>
  One turn of the loop of task \<open>h\<close>. The message is serialised before the first turn; a failure
  there (\<open>expect\<close>) ends the task.
\<close>

definition announce_tick :: "('b, 'h, 's) env \<Rightarrow> task_id \<Rightarrow> runtime \<Rightarrow> runtime" where
  "announce_tick en h rt =
     (case tasks rt h of
        None \<Rightarrow> rt
      | Some t \<Rightarrow>
          (case serialize (raw_codec en) (ann_message t) of
             Inl _ \<Rightarrow> abort_task h rt
           | Inr bytes \<Rightarrow>
               rt\<lparr>outgoing := announce_to (ann_addresses t) (SessionPacket_new (ann_id t) bytes)
                                (outgoing rt)\<rparr>))"

lemma spawn_frame [frame_simps]:
  "outgoing (fst (spawn t rt)) = outgoing rt" "woken (fst (spawn t rt)) = woken rt"
  "tasks (fst (spawn t rt)) = (tasks rt)(next_task rt \<mapsto> t)" "snd (spawn t rt) = next_task rt"
  "next_task (fst (spawn t rt)) = Suc (next_task rt)"
  by (simp_all add: spawn_def)

lemma abort_task_frame [frame_simps]:
  "outgoing (abort_task h rt) = outgoing rt" "woken (abort_task h rt) = woken rt"
  "next_task (abort_task h rt) = next_task rt" "tasks (abort_task h rt) = (tasks rt)(h := None)"
  by (simp_all add: abort_task_def)

lemma wake_frame [frame_simps]:
  "outgoing (wake ws rt) = outgoing rt" "tasks (wake ws rt) = tasks rt"
  "next_task (wake ws rt) = next_task rt" "woken (wake ws rt) = woken rt @ ws"
  by (simp_all add: wake_def)

lemma announce_to_open:
  "chan_open ch \<Longrightarrow> announce_to as p ch = ch\<lparr>chan_queue := chan_queue ch @ map (\<lambda>a. (a, p, 64)) as\<rparr>"
  by (induction as arbitrary: ch) (simp_all add: chan_send_def)

lemma announce_to_closed: "\<not> chan_open ch \<Longrightarrow> announce_to as p ch = ch"
  by (induction as) (simp_all add: chan_send_def)

text \<open>Each turn sends the announcement once to each address; the task goes on.\<close>

lemma announce_tick_queue:
  assumes "tasks rt h = Some t" and "serialize (raw_codec en) (ann_message t) = Inr bytes"
    and "chan_open (outgoing rt)"
  shows "chan_queue (outgoing (announce_tick en h rt)) =
      chan_queue (outgoing rt) @ map (\<lambda>a. (a, SessionPacket_new (ann_id t) bytes, 64)) (ann_addresses t)"
    and "tasks (announce_tick en h rt) = tasks rt"
  using assms by (simp_all add: announce_tick_def announce_to_open)

end
