(* ===== verification/Session.thy ===== *)
theory Session
  imports Net Chunker
begin

text \<open>
  \<open>src/src/session.rs\<close>: the three stages of a handshake (\<open>PendingSessionPoker\<close>,
  \<open>PendingSessionResponder\<close>, \<open>PendingSessionInitiator\<close>), the established \<open>Session\<close> with its
  two background tasks, and the future \<open>Receiving\<close>. A definition takes and returns the struct it
  is called on, and the runtime or the outgoing channel where the method uses it. The record
  \<open>session\<close> holds the contents of the struct's shared cells (\<open>Arc\<close>), which its tasks and futures
  use as well. A mutex is never poisoned, since nothing panics while holding one.
\<close>

section \<open>PendingSessionPoker\<close>

record 'h poker =
  poker_handle :: task_id
  poker_remote :: "(socket_addr \<times> snow_initiation) option"
  poker_waker :: "waker option"
  poker_id :: session_id
  poker_responder :: "'h snow_responder"

definition PendingSessionPoker_new ::
    "session_id \<Rightarrow> connection_info \<Rightarrow> 'h snow_responder \<Rightarrow> runtime \<Rightarrow> runtime \<times> 'h poker" where
  "PendingSessionPoker_new sid info rsp rt =
     (case spawn \<lparr>ann_addresses = addresses info, ann_id = sid, ann_message = HandshakePoke\<rparr> rt of
        (rt1, h) \<Rightarrow>
          (rt1, \<lparr>poker_handle = h, poker_remote = None, poker_waker = None, poker_id = sid,
                poker_responder = rsp\<rparr>))"

definition poker_handle_incoming ::
    "('b, 'h, 's) env \<Rightarrow> socket_addr \<Rightarrow> session_packet \<Rightarrow> runtime \<Rightarrow> 'h poker \<Rightarrow>
       runtime \<times> 'h poker" where
  "poker_handle_incoming en src packet rt p =
     (case deserialize (raw_codec en) (packet_data packet) of
        Inr (HandshakeInitiation i) \<Rightarrow>
          (case poker_waker p of
             Some w \<Rightarrow> (wake [w] rt, p\<lparr>poker_remote := Some (src, i), poker_waker := None\<rparr>)
           | None \<Rightarrow> (rt, p\<lparr>poker_remote := Some (src, i)\<rparr>))
      | _ \<Rightarrow> (rt, p))"

definition poker_is_ready :: "'h poker \<Rightarrow> bool" where
  "poker_is_ready p \<longleftrightarrow> poker_remote p \<noteq> None"

section \<open>PendingSessionResponder\<close>

record 's responder =
  rsp_handle :: task_id
  rsp_remote_addr :: socket_addr
  rsp_waker :: "waker option"
  rsp_id :: session_id
  rsp_transport :: "'s lossy_transport_state"
  rsp_ready :: bool

definition PendingSessionResponder_new ::
    "session_id \<Rightarrow> socket_addr \<Rightarrow> 's lossy_transport_state \<Rightarrow> snow_response \<Rightarrow> runtime \<Rightarrow>
       runtime \<times> 's responder" where
  "PendingSessionResponder_new sid addr lt resp rt =
     (case spawn \<lparr>ann_addresses = [addr], ann_id = sid, ann_message = HandshakeResponse resp\<rparr> rt of
        (rt1, h) \<Rightarrow>
          (rt1, \<lparr>rsp_handle = h, rsp_remote_addr = addr, rsp_waker = None, rsp_id = sid,
                rsp_transport = lt, rsp_ready = False\<rparr>))"

text \<open>\<open>PendingSessionPoker::responder\<close> consumes the poker.\<close>

definition poker_into_responder ::
    "('b, 'h, 's) env \<Rightarrow> 'h poker \<Rightarrow> runtime \<Rightarrow> runtime \<times> ('s responder, anyhow_error) res" where
  "poker_into_responder en p rt =
     (case poker_remote p of
        Some (addr, i) \<Rightarrow>
          (let rt1 = abort_task (poker_handle p) rt
           in case responder_response (snow_of en) (poker_responder p) i of
                Ok (lt, resp) \<Rightarrow>
                  (case PendingSessionResponder_new (poker_id p) addr lt resp rt1 of
                     (rt2, r) \<Rightarrow> (rt2, Ok r))
              | Err e \<Rightarrow> (rt1, Err (FromSnow e))
              | Panic x \<Rightarrow> (rt1, Panic x))
      | None \<Rightarrow> (rt, Err (Anyhow ''working_remote_addr is None.'')))"

definition poker_abort :: "'h poker \<Rightarrow> runtime \<Rightarrow> runtime" where
  "poker_abort p rt = abort_task (poker_handle p) rt"

definition responder_handle_incoming ::
    "('b, 'h, 's) env \<Rightarrow> socket_addr \<Rightarrow> session_packet \<Rightarrow> runtime \<Rightarrow> 's responder \<Rightarrow>
       runtime \<times> 's responder \<times> (unit, anyhow_error) res" where
  "responder_handle_incoming en src packet rt r =
     (case deserialize (raw_codec en) (packet_data packet) of
        Inl e \<Rightarrow> (rt, r, Err (FromBincode e))
      | Inr (Encrypted encrypted) \<Rightarrow>
          (case unseal (nonced_codec en) (snow_of en) (rsp_transport r) encrypted of
             (lt, Ok decrypted) \<Rightarrow>
               (let r1 = r\<lparr>rsp_transport := lt\<rparr>
                in case deserialize (message_codec en) decrypted of
                     Inl e \<Rightarrow> (rt, r1, Err (FromBincode e))
                   | Inr Keepalive \<Rightarrow>
                       (let r2 = r1\<lparr>rsp_ready := True\<rparr>
                        in case rsp_waker r of
                             None \<Rightarrow> (rt, r2, Err (Anyhow ''No waker in guard''))
                           | Some w \<Rightarrow> (wake [w] rt, r2\<lparr>rsp_waker := None\<rparr>, Ok ()))
                   | Inr (Payload _) \<Rightarrow>
                       (rt, r1, Err (Anyhow ''Deserialized decrypted message not of type Keepalive.'')))
           | (lt, Err e) \<Rightarrow> (rt, r\<lparr>rsp_transport := lt\<rparr>, Err e)
           | (lt, Panic x) \<Rightarrow> (rt, r\<lparr>rsp_transport := lt\<rparr>, Panic x))
      | Inr _ \<Rightarrow> (rt, r, Err (Anyhow ''Deserialized message not of type Encrypted.'')))"

definition responder_is_ready :: "'s responder \<Rightarrow> bool" where
  "responder_is_ready r = rsp_ready r"

definition responder_abort :: "'s responder \<Rightarrow> runtime \<Rightarrow> runtime" where
  "responder_abort r rt = abort_task (rsp_handle r) rt"

section \<open>Session\<close>

text \<open>\<open>keepalive_serialized\<close> is captured by the keepalive task; the two flags at the end say
  whether the tasks still run.\<close>

record 's session =
  sess_id :: session_id
  remote_addr :: socket_addr
  messages :: "bytes list"
  wakers :: "(uuid, waker) btree_map"
  heartbeat :: bool
  dead :: bool
  transport :: "'s lossy_transport_state"
  keepalive_serialized :: bytes
  keepalive_runs :: bool
  heartbeat_runs :: bool

definition Session_new ::
    "('b, 'h, 's) env \<Rightarrow> session_id \<Rightarrow> socket_addr \<Rightarrow> 's lossy_transport_state \<Rightarrow>
       ('s session, anyhow_error) res" where
  "Session_new en sid addr lt =
     (case question FromBincode (serialize (message_codec en) Keepalive) of
        Ok ka \<Rightarrow>
          Ok \<lparr>sess_id = sid, remote_addr = addr, messages = [], wakers = [], heartbeat = True,
              dead = False, transport = lt, keepalive_serialized = ka, keepalive_runs = True,
              heartbeat_runs = True\<rparr>
      | Err e \<Rightarrow> Err e
      | Panic x \<Rightarrow> Panic x)"

text \<open>One turn of the keepalive task. Each \<open>continue\<close> skips the test of \<open>dead\<close>; a panic ends
  the task.\<close>

definition keepalive_tick ::
    "('b, 'h, 's) env \<Rightarrow> channel \<Rightarrow> 's session \<Rightarrow> 's session \<times> channel" where
  "keepalive_tick en ch s =
     (if \<not> keepalive_runs s then (s, ch)
      else case seal (overflow_checks en) (nonced_codec en) (snow_of en) (transport s)
                  (keepalive_serialized s) of
             (lt, Ok encrypted) \<Rightarrow>
               (let s1 = s\<lparr>transport := lt\<rparr>
                in case serialize (raw_codec en) (Encrypted encrypted) of
                     Inl _ \<Rightarrow> (s1, ch)
                   | Inr bytes \<Rightarrow>
                       (case chan_send ch (remote_addr s, SessionPacket_new (sess_id s) bytes, 64) of
                          (ch1, False) \<Rightarrow> (s1, ch1)
                        | (ch1, True) \<Rightarrow>
                            (if dead s then (s1\<lparr>keepalive_runs := False\<rparr>, ch1) else (s1, ch1))))
           | (lt, Err _) \<Rightarrow> (s\<lparr>transport := lt\<rparr>, ch)
           | (lt, Panic _) \<Rightarrow> (s\<lparr>transport := lt, keepalive_runs := False\<rparr>, ch))"

text \<open>One turn of the heartbeat task, with the wakers it wakes.\<close>

definition heartbeat_tick :: "'s session \<Rightarrow> 's session \<times> waker list" where
  "heartbeat_tick s =
     (if \<not> heartbeat_runs s then (s, [])
      else if \<not> heartbeat s
           then (s\<lparr>dead := True, heartbeat_runs := False\<rparr>, map snd (wakers s))
           else (s\<lparr>heartbeat := False\<rparr>, []))"

definition Session_handle_incoming ::
    "('b, 'h, 's) env \<Rightarrow> session_packet \<Rightarrow> 's session \<Rightarrow>
       's session \<times> waker list \<times> (unit, anyhow_error) res" where
  "Session_handle_incoming en packet s =
     (case deserialize (raw_codec en) (packet_data packet) of
        Inl e \<Rightarrow> (s, [], Err (FromBincode e))
      | Inr HandshakePoke \<Rightarrow> (s, [], Ok ())
      | Inr (HandshakeInitiation _) \<Rightarrow> (s, [], Ok ())
      | Inr (HandshakeResponse _) \<Rightarrow> (s, [], Ok ())
      | Inr (Encrypted encrypted) \<Rightarrow>
          (case unseal (nonced_codec en) (snow_of en) (transport s) encrypted of
             (lt, Ok decrypted) \<Rightarrow>
               (let s1 = s\<lparr>transport := lt\<rparr>
                in case deserialize (message_codec en) decrypted of
                     Inl e \<Rightarrow> (s1, [], Err (FromBincode e))
                   | Inr Keepalive \<Rightarrow> (s1\<lparr>heartbeat := True\<rparr>, [], Ok ())
                   | Inr (Payload d) \<Rightarrow>
                       (case btm_pop_first (wakers s) of
                          (first, ws) \<Rightarrow>
                            (s1\<lparr>messages := messages s @ [d], wakers := ws\<rparr>,
                             (case first of Some (_, w) \<Rightarrow> [w] | None \<Rightarrow> []), Ok ())))
           | (lt, Err e) \<Rightarrow> (s\<lparr>transport := lt\<rparr>, [], Err e)
           | (lt, Panic x) \<Rightarrow> (s\<lparr>transport := lt\<rparr>, [], Panic x)))"

definition Session_send ::
    "('b, 'h, 's) env \<Rightarrow> channel \<Rightarrow> 's session \<Rightarrow> bytes \<Rightarrow>
       's session \<times> channel \<times> (unit, anyhow_error) res" where
  "Session_send en ch s data =
     (if dead s then (s, ch, Err (Anyhow ''Can't send because am dead''))
      else case serialize (message_codec en) (Payload data) of
             Inl e \<Rightarrow> (s, ch, Err (FromBincode e))
           | Inr serialized_message \<Rightarrow>
               (case seal (overflow_checks en) (nonced_codec en) (snow_of en) (transport s)
                       serialized_message of
                  (lt, Ok encrypted) \<Rightarrow>
                    (let s1 = s\<lparr>transport := lt\<rparr>
                     in case serialize (raw_codec en) (Encrypted encrypted) of
                          Inl e \<Rightarrow> (s1, ch, Err (FromBincode e))
                        | Inr bytes \<Rightarrow>
                            (case chan_send ch
                                    (remote_addr s, SessionPacket_new (sess_id s) bytes, 64) of
                               (ch1, sent) \<Rightarrow> (s1, ch1, if sent then Ok () else Err FromSendError)))
                | (lt, Err e) \<Rightarrow> (s\<lparr>transport := lt\<rparr>, ch, Err e)
                | (lt, Panic x) \<Rightarrow> (s\<lparr>transport := lt\<rparr>, ch, Panic x)))"

definition Session_is_dead :: "'s session \<Rightarrow> bool" where
  "Session_is_dead s = dead s"

text \<open>\<open>close\<close>, also the body of \<open>drop\<close>.\<close>

definition Session_close :: "'s session \<Rightarrow> 's session" where
  "Session_close s = s\<lparr>dead := True\<rparr>"

section \<open>Receiving\<close>

text \<open>The future is the fresh identifier it draws; the other fields are the cells of its
  session.\<close>

datatype receiving = Receiving uuid

definition Session_recv :: "uuid \<Rightarrow> 's session \<Rightarrow> receiving option" where
  "Session_recv fresh s = (if Session_is_dead s then None else Some (Receiving fresh))"

datatype 'a poll = Ready 'a | Pending

fun Receiving_poll ::
    "receiving \<Rightarrow> waker \<Rightarrow> 's session \<Rightarrow> 's session \<times> (bytes, veq_error) res poll" where
  "Receiving_poll (Receiving i) w s =
     (if dead s then (s, Ready (Err Disconnected))
      else case messages s of
             data # rest \<Rightarrow>
               (s\<lparr>messages := rest, wakers := btm_remove i (wakers s)\<rparr>, Ready (Ok data))
           | [] \<Rightarrow> (s\<lparr>wakers := btm_insert i w (wakers s)\<rparr>, Pending))"

section \<open>Sessions from the handshake stages\<close>

definition responder_session ::
    "('b, 'h, 's) env \<Rightarrow> 's responder \<Rightarrow> runtime \<Rightarrow> runtime \<times> ('s session, anyhow_error) res" where
  "responder_session en r rt =
     (if rsp_ready r
      then (abort_task (rsp_handle r) rt,
            Session_new en (rsp_id r) (rsp_remote_addr r) (rsp_transport r))
      else (rt, Err (Anyhow ''Am not ready'')))"

record 'h initiator =
  ini_handle :: task_id
  ini_remote :: "(socket_addr \<times> snow_response) option"
  ini_waker :: "waker option"
  ini_id :: session_id
  ini_initiator :: "'h snow_initiator"

datatype ('a, 'e) session_result = SessionOk 'a | SessionErr 'e

definition PendingSessionInitiator_new ::
    "session_id \<Rightarrow> connection_info \<Rightarrow> 'h snow_initiator \<Rightarrow> runtime \<Rightarrow> runtime \<times> 'h initiator" where
  "PendingSessionInitiator_new sid info ini rt =
     (case spawn \<lparr>ann_addresses = addresses info, ann_id = sid,
                  ann_message = HandshakeInitiation (initiation ini)\<rparr> rt of
        (rt1, h) \<Rightarrow>
          (rt1, \<lparr>ini_handle = h, ini_remote = None, ini_waker = None, ini_id = sid,
                ini_initiator = ini\<rparr>))"

definition initiator_handle_incoming ::
    "('b, 'h, 's) env \<Rightarrow> socket_addr \<Rightarrow> session_packet \<Rightarrow> runtime \<Rightarrow> 'h initiator \<Rightarrow>
       runtime \<times> 'h initiator" where
  "initiator_handle_incoming en src packet rt p =
     (case deserialize (raw_codec en) (packet_data packet) of
        Inr (HandshakeResponse r) \<Rightarrow>
          (case ini_waker p of
             Some w \<Rightarrow> (wake [w] rt, p\<lparr>ini_remote := Some (src, r), ini_waker := None\<rparr>)
           | None \<Rightarrow> (rt, p\<lparr>ini_remote := Some (src, r)\<rparr>))
      | _ \<Rightarrow> (rt, p))"

definition initiator_is_ready :: "'h initiator \<Rightarrow> bool" where
  "initiator_is_ready p \<longleftrightarrow> ini_remote p \<noteq> None"

text \<open>\<open>PendingSessionInitiator::session\<close> consumes the initiator and may hand it back.\<close>

definition initiator_session ::
    "('b, 'h, 's) env \<Rightarrow> 'h initiator \<Rightarrow> runtime \<Rightarrow>
       runtime \<times> (('s session, 'h initiator) session_result, anyhow_error) res" where
  "initiator_session en p rt =
     (case ini_remote p of
        Some (addr, response) \<Rightarrow>
          (let rt1 = abort_task (ini_handle p) rt
           in case receive_response (snow_of en) (ini_initiator p) response of
                Ok (ReceiveOk lt) \<Rightarrow>
                  (case Session_new en (ini_id p) addr lt of
                     Ok s \<Rightarrow> (rt1, Ok (SessionOk s))
                   | Err e \<Rightarrow> (rt1, Err e)
                   | Panic x \<Rightarrow> (rt1, Panic x))
              | Ok (ReceiveErr ini) \<Rightarrow>
                  (rt1, Ok (SessionErr (p\<lparr>ini_remote := None, ini_initiator := ini\<rparr>)))
              | Err e \<Rightarrow> (rt1, Err (FromSnow e))
              | Panic x \<Rightarrow> (rt1, Panic x))
      | None \<Rightarrow> (rt, Ok (SessionErr p)))"

definition initiator_abort :: "'h initiator \<Rightarrow> runtime \<Rightarrow> runtime" where
  "initiator_abort p rt = abort_task (ini_handle p) rt"

end
