(* ===== verification/Replay.thy ===== *)
theory Replay
  imports Transport
begin

text \<open>
  What \<open>LossyTransportState\<close> (\<open>src/src/snow_types.rs\<close>) guarantees: which messages its replay
  filter lets through, that the nonces of the messages it writes never repeat, that what one side
  writes the other reads, with losses, and how a forged message blocks the filter.
\<close>

section \<open>Replay filters\<close>

text \<open>
  A filter rejects numbers and, when it lets one through, changes its state. An input is a number
  and whether the rest of the processing succeeds; \<open>passed\<close> are the numbers of the inputs that
  are let through and succeed.
\<close>

fun passed :: "('w \<Rightarrow> 'n \<Rightarrow> bool) \<Rightarrow> ('n \<Rightarrow> 'w \<Rightarrow> 'w) \<Rightarrow> 'w \<Rightarrow> ('n \<times> bool) list \<Rightarrow> 'n list" where
  "passed rejected admit w [] = []"
| "passed rejected admit w ((n, good) # xs) =
     (if rejected w n then passed rejected admit w xs
      else (if good then [n] else []) @ passed rejected admit (admit n w) xs)"

locale replay_filter =
  fixes rejected :: "'w \<Rightarrow> 'n \<Rightarrow> bool"
    and admit :: "'n \<Rightarrow> 'w \<Rightarrow> 'w"
    and invar :: "'w \<Rightarrow> bool"
  assumes invar_admit: "invar w \<Longrightarrow> \<not> rejected w n \<Longrightarrow> invar (admit n w)"
    and rejects_admitted: "invar w \<Longrightarrow> \<not> rejected w n \<Longrightarrow> rejected (admit n w) n"
    and still_rejects: "invar w \<Longrightarrow> \<not> rejected w n \<Longrightarrow> rejected w m \<Longrightarrow> rejected (admit n w) m"
begin

lemma passed_not_rejected:
  "invar w \<Longrightarrow> n \<in> set (passed rejected admit w xs) \<Longrightarrow> \<not> rejected w n"
proof (induction xs arbitrary: w)
  case (Cons x xs)
  obtain a good where x: "x = (a, good)" by (cases x)
  show ?case
  proof
    assume n: "rejected w n"
    with Cons.prems x have a: "\<not> rejected w a" using Cons.IH by (auto split: if_splits)
    with n Cons.prems x have "n \<in> set (passed rejected admit (admit a w) xs)"
      by (auto split: if_splits)
    with Cons.IH invar_admit still_rejects a n Cons.prems(1) show False by blast
  qed
qed simp

lemma passed_distinct: "invar w \<Longrightarrow> distinct (passed rejected admit w xs)"
proof (induction xs arbitrary: w)
  case (Cons x xs)
  obtain n good where x: "x = (n, good)" by (cases x)
  show ?case
  proof (cases "rejected w n")
    case False
    then have "n \<notin> set (passed rejected admit (admit n w) xs)"
      using passed_not_rejected rejects_admitted invar_admit Cons.prems by blast
    with False Cons invar_admit show ?thesis by (simp add: x)
  qed (simp add: x Cons)
qed simp

end

text \<open>A filter that also rejects everything below the last number let through.\<close>

locale ordered_filter = replay_filter rejected admit invar
  for rejected :: "'w \<Rightarrow> 'n::linorder \<Rightarrow> bool" and admit and invar +
  assumes rejects_below: "invar w \<Longrightarrow> \<not> rejected w n \<Longrightarrow> m \<le> n \<Longrightarrow> rejected (admit n w) m"
begin

lemma passed_increasing: "invar w \<Longrightarrow> sorted_wrt (<) (passed rejected admit w xs)"
proof (induction xs arbitrary: w)
  case (Cons x xs)
  obtain n good where x: "x = (n, good)" by (cases x)
  show ?case
  proof (cases "rejected w n")
    case False
    then have "\<forall>m \<in> set (passed rejected admit (admit n w) xs). n < m"
      using passed_not_rejected rejects_below invar_admit Cons.prems by (meson not_le)
    with False Cons invar_admit show ?thesis by (simp add: x)
  qed (simp add: x Cons)
qed simp

end

section \<open>The window of nonces\<close>

lemma trim_nonces_drop: "trim_nonces sz s = drop (length s - sz) s"
proof (induction sz s rule: trim_nonces.induct)
  case (1 sz s)
  show ?case
  proof (cases "sz < length s")
    case True
    then obtain a s' where s: "s = a # s'" by (cases s) auto
    with True 1 show ?thesis
      by (subst trim_nonces.simps) (simp add: bts_pop_first_def Suc_diff_le)
  qed (subst trim_nonces.simps, simp)
qed

lemma nonce_rejected_iff:
  "bts_invar w \<Longrightarrow> nonce_rejected w n \<longleftrightarrow> n \<in> set w \<or> (w \<noteq> [] \<and> n < hd w)"
  by (cases w) (auto simp: nonce_rejected_def bts_first_def)

lemma hd_bts_insert:
  "bts_invar w \<Longrightarrow> \<not> nonce_rejected w n \<Longrightarrow> hd (bts_insert n w) = (if w = [] then n else hd w)"
  by (cases w) (auto simp: nonce_rejected_iff)

lemma trim_rejects:
  assumes w: "bts_invar w" and "0 < sz" and m: "nonce_rejected w m"
  shows "nonce_rejected (trim_nonces sz w) m"
proof -
  let ?k = "length w - sz"
  have ne: "w \<noteq> []" using m by (auto simp: nonce_rejected_def bts_first_def)
  then have k: "?k < length w" using \<open>0 < sz\<close> by (cases w) auto
  have srt: "bts_invar (drop ?k w)" using w by (rule sorted_wrt_drop)
  have split: "w = take ?k w @ drop ?k w" by simp
  then have below: "\<forall>a \<in> set (take ?k w). a < hd (drop ?k w)"
    using w k by (metis drop_eq_Nil hd_in_set not_less sorted_wrt_append)
  have "m \<in> set (drop ?k w) \<or> m < hd (drop ?k w)"
  proof -
    consider "m \<in> set (take ?k w)" | "m \<in> set (drop ?k w)" | "m < hd w"
      using m w split by (metis UnE nonce_rejected_iff set_append)
    then show ?thesis
    proof cases
      case 3
      moreover have "hd w \<le> hd (drop ?k w)"
        using below ne by (cases "?k = 0") (auto simp: neq_Nil_conv take_Cons' less_imp_le)
      ultimately show ?thesis by (blast intro: less_le_trans)
    qed (use below in auto)
  qed
  then show ?thesis using k srt by (simp add: trim_nonces_drop nonce_rejected_iff)
qed

lemma insert_rejects:
  assumes "bts_invar w" and "\<not> nonce_rejected w n" and "m = n \<or> nonce_rejected w m"
  shows "nonce_rejected (bts_insert n w) m"
  using assms hd_bts_insert [OF assms(1,2)] by (auto simp: nonce_rejected_iff)

interpretation window: replay_filter nonce_rejected "admit_nonce (Suc k)" bts_invar for k
proof
  fix w n m
  assume w: "bts_invar w" and n: "\<not> nonce_rejected w n"
  show "bts_invar (admit_nonce (Suc k) n w)"
    using w by (simp add: admit_nonce_def trim_nonces_drop sorted_wrt_drop)
  show "nonce_rejected (admit_nonce (Suc k) n w) n"
    unfolding admit_nonce_def using w n by (intro trim_rejects insert_rejects) simp_all
  show "nonce_rejected (admit_nonce (Suc k) n w) m" if "nonce_rejected w m"
    unfolding admit_nonce_def using w n that by (intro trim_rejects insert_rejects) simp_all
qed

text \<open>With the size that \<open>from_stateless\<close> sets, the window is the last nonce let through.\<close>

lemma admit_nonce_1:
  assumes "length w \<le> Suc 0" and "\<not> nonce_rejected w n"
  shows "admit_nonce (Suc 0) n w = [n]"
  using assms
  by (cases w) (auto simp: admit_nonce_def trim_nonces_drop nonce_rejected_def bts_first_def)

interpretation last_nonce: ordered_filter nonce_rejected "admit_nonce (Suc 0)" "\<lambda>w. length w \<le> Suc 0"
proof
  fix w n m
  assume w: "length w \<le> Suc 0" and n: "\<not> nonce_rejected w n"
  show "length (admit_nonce (Suc 0) n w) \<le> Suc 0" and "nonce_rejected (admit_nonce (Suc 0) n w) n"
    unfolding admit_nonce_1 [OF w n] by (simp_all add: nonce_rejected_def)
  show "nonce_rejected (admit_nonce (Suc 0) n w) m" if "m \<le> n"
    unfolding admit_nonce_1 [OF w n] using that by (auto simp: nonce_rejected_def bts_first_def)
  show "nonce_rejected (admit_nonce (Suc 0) n w) m" if "nonce_rejected w m"
    unfolding admit_nonce_1 [OF w n] using w n that
    by (cases w) (auto simp: nonce_rejected_def bts_first_def)
qed

section \<open>Reading any sequence of messages\<close>

text \<open>The nonces of the messages that \<open>read_message\<close> accepts.\<close>

fun accepted ::
    "nonced codec \<Rightarrow> ('b, 'h, 's) snow \<Rightarrow> 's lossy_transport_state \<Rightarrow> bytes list \<Rightarrow> u64 list" where
  "accepted ncd sn lt [] = []"
| "accepted ncd sn lt (p # ps) =
     (case read_message ncd sn lt p buffer of
        (lt1, _, r) \<Rightarrow>
          (case deserialize ncd p of
             Inr (Nonced n _) \<Rightarrow> if is_Ok r then [n] else []
           | Inl _ \<Rightarrow> []) @ accepted ncd sn lt1 ps)"

fun read_all ::
    "nonced codec \<Rightarrow> ('b, 'h, 's) snow \<Rightarrow> 's lossy_transport_state \<Rightarrow> bytes list \<Rightarrow>
       's lossy_transport_state" where
  "read_all ncd sn lt [] = lt"
| "read_all ncd sn lt (p # ps) = read_all ncd sn (fst (read_message ncd sn lt p buffer)) ps"

text \<open>The inputs of the filter: messages that do not deserialise do not reach it.\<close>

definition filter_input ::
    "nonced codec \<Rightarrow> ('b, 'h, 's) snow \<Rightarrow> 's \<Rightarrow> bytes \<Rightarrow> (u64 \<times> bool) list" where
  "filter_input ncd sn st p =
     (case deserialize ncd p of
        Inl _ \<Rightarrow> []
      | Inr (Nonced n body) \<Rightarrow>
          [(n, case st_read_message sn st n body 65535 of Inl _ \<Rightarrow> False | Inr _ \<Rightarrow> True)])"

lemma read_message_frame [frame_simps]:
  "stateless (fst (read_message ncd sn lt p buf)) = stateless lt"
  "window_size (fst (read_message ncd sn lt p buf)) = window_size lt"
  "next_nonce (fst (read_message ncd sn lt p buf)) = next_nonce lt"
  by (auto simp: read_message_def Let_def split: sum.split nonced.split)

lemma accepted_passed:
  "accepted ncd sn lt ps =
     passed nonce_rejected (admit_nonce (window_size lt)) (received_nonces lt)
       (concat (map (filter_input ncd sn (stateless lt)) ps))"
proof (induction ps arbitrary: lt)
  case (Cons p ps)
  then show ?case
    by (auto simp: read_message_def filter_input_def [of _ _ _ p] Let_def
        split: sum.split nonced.split)
qed simp

section \<open>A concrete cipher and wire format\<close>

text \<open>
  \<open>Nonced\<close> in the documented layout, and a stand-in for \<open>snow\<close> whose ciphertext is the
  plaintext followed by sixteen bytes of the key and whose handshake messages are empty. They make the hypotheses on the two packages
  concrete.
\<close>

definition put_nonced :: "nonced \<Rightarrow> bytes" where
  "put_nonced x = (case x of Nonced n b \<Rightarrow> put_u64 n @ put_bytes b)"

definition take_nonced :: "nonced reader" where
  "take_nonced bs =
     (case take_u64 bs of
        None \<Rightarrow> None
      | Some (n, r) \<Rightarrow> (case take_bytes r of None \<Rightarrow> None | Some (b, r1) \<Rightarrow> Some (Nonced n b, r1)))"

definition nonced_layout :: "nonced codec" where
  "nonced_layout = layout_codec put_nonced take_nonced"

fun nonced_in_memory :: "nonced \<Rightarrow> bool" where
  "nonced_in_memory (Nonced n b) = in_memory b"

lemma nonced_layout_ok: "codec_ok nonced_in_memory nonced_layout"
  unfolding nonced_layout_def
proof (rule layout_codec_ok)
  fix x assume "nonced_in_memory x"
  then show "take_nonced (put_nonced x) = Some (x, [])"
    by (cases x) (simp add: put_nonced_def take_nonced_def)
qed

lemma nonced_layout_des [simp]:
  "in_memory b \<Longrightarrow> deserialize nonced_layout (put_u64 n @ put_bytes b) = Inr (Nonced n b)"
  by (simp add: nonced_layout_def layout_codec_def take_nonced_def)

definition tag_snow :: "(unit, unit, u8) snow" where
  "tag_snow =
     \<lparr>new_builder = (\<lambda>_. Inr ()), generate_keypair = (\<lambda>_ seed. Inr (seed, seed)),
      local_private_key = (\<lambda>_ _. Inr ()), remote_public_key = (\<lambda>_ _. Inr ()),
      build_initiator = (\<lambda>_. Inr ()), build_responder = (\<lambda>_. Inr ()),
      hs_write_message = (\<lambda>_ p cap. ((), if length p \<le> cap then Inr p else Inl (SnowError ''input''))),
      hs_read_message = (\<lambda>_ p _. ((), if p = [] then Inr [] else Inl Decrypt)),
      into_stateless_transport_mode = (\<lambda>_. Inr 7),
      st_write_message = (\<lambda>k n p cap.
         if n = u64_max \<or> cap < length p + 16 then Inl (SnowError ''input'')
         else Inr (p @ replicate 16 k)),
      st_read_message = (\<lambda>k n c cap.
         if n = u64_max \<or> length c < 16 \<or> cap < length c - 16
             \<or> drop (length c - 16) c \<noteq> replicate 16 k then Inl Decrypt
         else Inr (take (length c - 16) c))\<rparr>"

section \<open>Properties\<close>

text \<open>C4 (safety). Whatever sequence of datagrams a \<open>LossyTransportState\<close> with a window of at
  least one nonce reads, no nonce is accepted twice: a recorded message that is sent again is
  rejected, however many other messages came in between.\<close>

theorem replay_safe:
  assumes "0 < sz"
  shows "distinct (accepted ncd sn (LossyTransportState_new st sz) ps)"
proof -
  obtain k where "sz = Suc k" using assms by (cases sz) auto
  then show ?thesis
    by (simp add: accepted_passed LossyTransportState_new_def window.passed_distinct)
qed

theorem replay_safe_witness:
  "accepted nonced_layout tag_snow (LossyTransportState_new 7 4)
     [put_u64 3 @ put_bytes (replicate 16 7), put_u64 3 @ put_bytes (replicate 16 7)] = [3]
   \<and> distinct (accepted nonced_layout tag_snow (LossyTransportState_new 7 4)
     [put_u64 3 @ put_bytes (replicate 16 7), put_u64 3 @ put_bytes (replicate 16 7)])"
proof
  show "accepted nonced_layout tag_snow (LossyTransportState_new 7 4)
     [put_u64 3 @ put_bytes (replicate 16 7), put_u64 3 @ put_bytes (replicate 16 7)] = [3]"
    by (simp add: read_message_def LossyTransportState_new_def nonce_rejected_def admit_nonce_def
        trim_nonces_drop bts_first_def in_memory_def tag_snow_def Let_def)
qed (rule replay_safe, simp)

text \<open>C16 (safety). With the window of one nonce that \<open>from_stateless\<close> sets (the state of every
  session), the nonces of the accepted messages increase strictly: messages are read in the order
  in which the peer wrote them, and what arrives late is dropped.\<close>

theorem accepted_increasing:
  "sorted_wrt (<) (accepted ncd sn (from_stateless st) ps)"
  by (simp add: accepted_passed from_stateless_def LossyTransportState_new_def
      last_nonce.passed_increasing)

text \<open>A state in use: messages are written (\<open>Inl\<close>) and packets read (\<open>Inr\<close>), in any order.\<close>

fun transport_op ::
    "bool \<Rightarrow> nonced codec \<Rightarrow> ('b, 'h, 's) snow \<Rightarrow> bytes + bytes \<Rightarrow> 's lossy_transport_state \<Rightarrow>
       's lossy_transport_state" where
  "transport_op oc ncd sn (Inl payload) lt = fst (write_message oc ncd sn lt payload buffer)"
| "transport_op oc ncd sn (Inr packet) lt = fst (read_message ncd sn lt packet buffer)"

text \<open>The remembered nonces form a set of the right size, in the order of the \<open>BTreeSet\<close>.\<close>

definition transport_wf :: "'s lossy_transport_state \<Rightarrow> bool" where
  "transport_wf lt \<longleftrightarrow> bts_invar (received_nonces lt) \<and> length (received_nonces lt) \<le> window_size lt"

lemma admit_nonce_wf: "bts_invar w \<Longrightarrow> bts_invar (admit_nonce sz n w) \<and> length (admit_nonce sz n w) \<le> sz"
  by (simp add: admit_nonce_def trim_nonces_drop sorted_wrt_drop)

lemma transport_op_wf:
  "transport_wf lt \<Longrightarrow> transport_wf (transport_op oc ncd sn x lt)
     \<and> stateless (transport_op oc ncd sn x lt) = stateless lt
     \<and> window_size (transport_op oc ncd sn x lt) = window_size lt"
  by (cases x)
    (auto simp: transport_wf_def write_message_def read_message_def admit_nonce_wf Let_def
      split: res.split sum.split nonced.split)

text \<open>C29 (type). However a transport state is used, writing and reading in any order and whatever
  bytes arrive, the remembered nonces stay strictly increasing, so that the search for the smallest
  is right, there are never more of them than the window has room for, and the cipher and the size
  of the window are those it was made with.\<close>

theorem transport_well_formed:
  "transport_wf (fold (transport_op oc ncd sn) xs (LossyTransportState_new st sz))
   \<and> stateless (fold (transport_op oc ncd sn) xs (LossyTransportState_new st sz)) = st
   \<and> window_size (fold (transport_op oc ncd sn) xs (LossyTransportState_new st sz)) = sz"
proof -
  have "transport_wf lt \<Longrightarrow> transport_wf (fold (transport_op oc ncd sn) xs lt)
      \<and> stateless (fold (transport_op oc ncd sn) xs lt) = stateless lt
      \<and> window_size (fold (transport_op oc ncd sn) xs lt) = window_size lt" for lt
    by (induction xs arbitrary: lt) (simp_all add: transport_op_wf)
  from this [of "LossyTransportState_new st sz"] show ?thesis
    by (simp add: transport_wf_def LossyTransportState_new_def)
qed

lemma passed_append:
  "passed rejected admit w (xs @ ys) =
     passed rejected admit w xs @
       passed rejected admit (fold (\<lambda>(n, _) w. if rejected w n then w else admit n w) xs w) ys"
  by (induction xs arbitrary: w) auto

lemma last_nonce_fold:
  "length w \<le> Suc 0 \<Longrightarrow>
     length (fold (\<lambda>(n, _) w. if nonce_rejected w n then w else admit_nonce (Suc 0) n w) xs w) \<le> Suc 0"
  by (induction xs arbitrary: w) (auto simp: last_nonce.invar_admit)

lemma blocked_by_max:
  assumes "length w \<le> Suc 0" and "nonce_rejected w u64_max"
  shows "passed nonce_rejected (admit_nonce (Suc 0)) w xs = []"
proof -
  have "nonce_rejected w n" for n
    using assms u64_le_max [of n] u64_le_max [of "hd w"]
    by (cases w) (auto simp: nonce_rejected_def bts_first_def)
  then show ?thesis
    using last_nonce.passed_not_rejected [OF assms(1), of _ xs] by (metis hd_in_set)
qed

text \<open>C32 (safety). The nonce of a message is recorded before the message is authenticated. One
  forged datagram with the nonce \<open>u64::MAX\<close>, for which decryption always fails, makes the
  state reject every message after it, genuine or not.\<close>

theorem forged_nonce_blocks:
  assumes "deserialize ncd p = Inr (Nonced u64_max body)"
    and "st_read_message sn st u64_max body 65535 = Inl e"
  shows "accepted ncd sn (from_stateless st) (qs @ p # ps) = accepted ncd sn (from_stateless st) qs"
proof -
  let ?in = "\<lambda>ps. concat (map (filter_input ncd sn st) ps)"
  let ?w = "fold (\<lambda>(n, _) w. if nonce_rejected w n then w else admit_nonce (Suc 0) n w) (?in qs) []"
  have len: "length ?w \<le> Suc 0" by (rule last_nonce_fold) simp
  have p: "filter_input ncd sn st p = [(u64_max, False)]"
    using assms by (simp add: filter_input_def)
  have "passed nonce_rejected (admit_nonce (Suc 0)) ?w ((u64_max, False) # ?in ps) = []"
    using blocked_by_max len last_nonce.rejects_admitted [OF len] last_nonce.invar_admit [OF len]
    by simp
  then show ?thesis
    by (simp add: accepted_passed from_stateless_def LossyTransportState_new_def passed_append p)
qed

theorem forged_nonce_blocks_witness:
  "accepted nonced_layout tag_snow (from_stateless 7)
     ([put_u64 0 @ put_bytes (replicate 16 7)] @ (put_u64 u64_max @ put_bytes []) #
        [put_u64 1 @ put_bytes (replicate 16 7)])
   = accepted nonced_layout tag_snow (from_stateless 7) [put_u64 0 @ put_bytes (replicate 16 7)]"
  by (rule forged_nonce_blocks [where body = "[]" and e = Decrypt])
    (simp_all add: in_memory_def tag_snow_def)

end
