(* ===== verification/Delivery.thy ===== *)
theory Delivery
  imports Replay "HOL-Library.Sublist"
begin

text \<open>
  What one \<open>LossyTransportState\<close> writes and another reads (\<open>src/src/snow_types.rs\<close>, with the
  buffers of \<open>src/src/session.rs\<close>): nonces never repeat, every message that arrives in order is
  read back, however many others are lost, of messages in any order those that are newer than all
  before, and the sizes at which writing fails. The hypotheses
  on the cipher and on the serialisation of \<open>Nonced\<close> are the three named predicates below.
\<close>

section \<open>What is assumed of the packages\<close>

text \<open>
  Two transport states of one finished handshake. The package documents: a ciphertext is 16 bytes
  longer than its plaintext, messages have at most 65535 bytes, the nonce \<open>u64::MAX\<close> is
  reserved, and what one side encrypts under a nonce the other decrypts under it.
\<close>

definition noise_pair :: "('b, 'h, 's) snow \<Rightarrow> 's \<Rightarrow> 's \<Rightarrow> bool" where
  "noise_pair sn a b \<longleftrightarrow>
     (\<forall>n p cap. n \<noteq> u64_max \<and> length p + 16 \<le> cap \<and> length p + 16 \<le> 65535 \<longrightarrow>
        (\<exists>c. st_write_message sn a n p cap = Inr c \<and> length c = length p + 16 \<and>
           (\<forall>cap. length p \<le> cap \<longrightarrow> st_read_message sn b n c cap = Inr p)))"

text \<open>A serialised \<open>Nonced\<close> has the eight bytes of the number, the eight of the length and
  the bytes.\<close>

definition nonced_sizes :: "nonced codec \<Rightarrow> bool" where
  "nonced_sizes ncd \<longleftrightarrow>
     (\<forall>n b out. serialize ncd (Nonced n b) = Inr out \<longrightarrow> length out = length b + 16)"

definition nonced_wire :: "nonced codec \<Rightarrow> bool" where
  "nonced_wire ncd \<longleftrightarrow> codec_ok nonced_in_memory ncd \<and> nonced_sizes ncd"

lemma nonced_wireE:
  assumes "nonced_wire ncd" and "length b < 2 ^ 63"
  obtains out where "serialize ncd (Nonced n b) = Inr out"
    and "deserialize ncd out = Inr (Nonced n b)" and "length out = length b + 16"
proof -
  have "nonced_in_memory (Nonced n b)" using assms(2) by (simp add: in_memory_def)
  with assms(1) show ?thesis
    unfolding nonced_wire_def nonced_sizes_def by (metis codec_okE that)
qed

lemma noise_pairE:
  assumes "noise_pair sn a b" and "n \<noteq> u64_max" and "length p + 16 \<le> 65535"
  obtains c where "st_write_message sn a n p 65535 = Inr c" and "length c = length p + 16"
    and "st_read_message sn b n c 65535 = Inr p"
proof -
  have "length p \<le> 65535" using assms(3) by simp
  then show ?thesis
    using assms that unfolding noise_pair_def by (metis (no_types, lifting))
qed

lemma nonced_layout_wire: "nonced_wire nonced_layout"
  using nonced_layout_ok
  by (auto simp: nonced_wire_def nonced_sizes_def nonced_layout_def layout_codec_def put_nonced_def)

lemma tag_snow_pair: "noise_pair tag_snow k k"
  by (simp add: noise_pair_def tag_snow_def)

lemma tag_snow_from_stateless: "noise_pair tag_snow (stateless (from_stateless k)) k"
  by (simp add: tag_snow_pair from_stateless_def LossyTransportState_new_def)

section \<open>One message\<close>

text \<open>A packet that the state with cipher \<open>b\<close> reads as \<open>p\<close>, under the nonce \<open>n\<close>.\<close>

definition carries ::
    "nonced codec \<Rightarrow> ('b, 'h, 's) snow \<Rightarrow> 's \<Rightarrow> u64 \<Rightarrow> bytes \<Rightarrow> bytes \<Rightarrow> bool" where
  "carries ncd sn b n p pkt \<longleftrightarrow>
     (\<exists>c. deserialize ncd pkt = Inr (Nonced n c) \<and> st_read_message sn b n c 65535 = Inr p)"

lemma seal_Ok:
  assumes "nonced_wire ncd" and "noise_pair sn (stateless lt) b"
    and "next_nonce lt \<noteq> u64_max" and "length p \<le> 65503"
  obtains pkt where "seal oc ncd sn lt p = (lt\<lparr>next_nonce := next_nonce lt + 1\<rparr>, Ok pkt)"
    and "carries ncd sn b (next_nonce lt) p pkt" and "length pkt = length p + 32"
proof -
  obtain c where c: "st_write_message sn (stateless lt) (next_nonce lt) p 65535 = Inr c"
      "length c = length p + 16" "st_read_message sn b (next_nonce lt) c 65535 = Inr p"
    using noise_pairE [OF assms(2,3), of p] assms(4) by auto
  then have "length c < 2 ^ 63" using assms(4) by simp
  then obtain out where out: "serialize ncd (Nonced (next_nonce lt) c) = Inr out"
      "deserialize ncd out = Inr (Nonced (next_nonce lt) c)" "length out = length c + 16"
    using nonced_wireE [OF assms(1)] by metis
  have "length out \<le> 65535" "length c \<le> 65535" using out(3) c(2) assms(4) by simp_all
  then have "seal oc ncd sn lt p = (lt\<lparr>next_nonce := next_nonce lt + 1\<rparr>, Ok out)"
    using assms(3) c(1) out(1)
    by (simp add: seal_def write_message_def add_u64_1_cases slice_overwrite question_def Let_def)
  moreover have "carries ncd sn b (next_nonce lt) p out"
    using out(2) c(3) by (auto simp: carries_def)
  ultimately show ?thesis using that out(3) c(2) by simp
qed

lemma unseal_carries:
  assumes "carries ncd sn (stateless lt) n p pkt" and "\<not> nonce_rejected (received_nonces lt) n"
    and "length p \<le> 65535"
  shows "unseal ncd sn lt pkt =
    (lt\<lparr>received_nonces := admit_nonce (window_size lt) n (received_nonces lt)\<rparr>, Ok p)"
  using assms by (auto simp: carries_def unseal_def read_message_def slice_overwrite Let_def)

section \<open>Sequences of messages\<close>

fun seal_all ::
    "bool \<Rightarrow> nonced codec \<Rightarrow> ('b, 'h, 's) snow \<Rightarrow> 's lossy_transport_state \<Rightarrow> bytes list \<Rightarrow>
       (bytes, anyhow_error) res list" where
  "seal_all oc ncd sn lt [] = []"
| "seal_all oc ncd sn lt (p # ps) =
     snd (seal oc ncd sn lt p) # seal_all oc ncd sn (fst (seal oc ncd sn lt p)) ps"

fun unseal_all ::
    "nonced codec \<Rightarrow> ('b, 'h, 's) snow \<Rightarrow> 's lossy_transport_state \<Rightarrow> bytes list \<Rightarrow>
       (bytes, anyhow_error) res list" where
  "unseal_all ncd sn lt [] = []"
| "unseal_all ncd sn lt (p # ps) =
     snd (unseal ncd sn lt p) # unseal_all ncd sn (fst (unseal ncd sn lt p)) ps"

lemma seal_next_nonce:
  "next_nonce (fst (seal oc ncd sn lt p)) =
     (if oc \<and> next_nonce lt = u64_max then u64_max else next_nonce lt + 1)"
  by (auto simp: seal_def write_message_def add_u64_1_cases Let_def split: sum.split res.split)

text \<open>What one \<open>seal\<close> returns was made by the cipher under \<open>next_nonce\<close>.\<close>

definition made_with ::
    "nonced codec \<Rightarrow> ('b, 'h, 's) snow \<Rightarrow> 's \<Rightarrow> u64 \<Rightarrow> bytes \<Rightarrow> (bytes, anyhow_error) res \<Rightarrow> bool" where
  "made_with ncd sn k n p r = (case r of
       Ok pkt \<Rightarrow> (case st_write_message sn k n p 65535 of
           Inr c \<Rightarrow> serialize ncd (Nonced n c) = Inr pkt
         | Inl e \<Rightarrow> False)
     | Err e \<Rightarrow> (case st_write_message sn k n p 65535 of
           Inr c \<Rightarrow> question FromBincode (serialize ncd (Nonced n c)) = Err e
         | Inl e' \<Rightarrow> e = FromSnow e')
     | Panic x \<Rightarrow> True)"

lemma seal_stateless [simp]: "stateless (fst (seal oc ncd sn lt p)) = stateless lt"
  by (auto simp: seal_def write_message_def add_u64_1_cases Let_def split: sum.split res.split)

lemma seal_made_with: "made_with ncd sn (stateless lt) (next_nonce lt) p (snd (seal oc ncd sn lt p))"
  by (auto simp: made_with_def seal_def write_message_def add_u64_1_cases slice_overwrite
      question_def Let_def split: sum.split res.split)

lemma seal_all_made_with:
  assumes "unat (next_nonce lt) + length ps \<le> 2 ^ 64" and "j < length ps"
  shows "made_with ncd sn (stateless lt) (next_nonce lt + of_nat j) (ps ! j) (seal_all oc ncd sn lt ps ! j)"
  using assms
proof (induction ps arbitrary: lt j)
  case (Cons p ps)
  show ?case
  proof (cases j)
    case 0
    then show ?thesis using seal_made_with by simp
  next
    case (Suc i)
    then have "next_nonce lt \<noteq> u64_max" using Cons.prems by auto
    then show ?thesis
      using Cons.IH [of "fst (seal oc ncd sn lt p)" i] Cons.prems Suc
      by (simp add: seal_next_nonce unat_plus_1 add.assoc)
  qed
qed simp

lemma distinct_nonces_from:
  "unat (n :: u64) + k \<le> 2 ^ 64 \<Longrightarrow> distinct (map (\<lambda>j. n + of_nat j) [0..<k])"
  by (auto simp: distinct_map inj_on_def word_unat_eq_iff unat_word_ariths unat_of_nat)

section \<open>Links that lose packets\<close>

text \<open>
  Packets with their contents, numbered upwards from \<open>n\<close>, all numbers below \<open>u64::MAX\<close>;
  \<open>bear n m p\<close> says that packet \<open>p\<close> carries \<open>m\<close> under the number \<open>n\<close>.
\<close>

fun borne_from :: "(u64 \<Rightarrow> 'm \<Rightarrow> 'p \<Rightarrow> bool) \<Rightarrow> u64 \<Rightarrow> ('m \<times> 'p) list \<Rightarrow> bool" where
  "borne_from bear n [] = True"
| "borne_from bear n ((m, p) # xs) = (bear n m p \<and> n \<noteq> u64_max \<and> borne_from bear (n + 1) xs)"

text \<open>
  A reader of such packets: as long as it has seen only smaller numbers it takes a packet in, and
  its output gains what the packet carries.
\<close>

locale lossy_link =
  fixes bear :: "u64 \<Rightarrow> 'm \<Rightarrow> 'p \<Rightarrow> bool"
    and ready :: "u64 \<Rightarrow> 'r \<Rightarrow> bool"
    and readp :: "'p \<Rightarrow> 'r \<Rightarrow> 'r"
    and outp :: "'r \<Rightarrow> 'o"
    and gain :: "'m \<Rightarrow> 'o \<Rightarrow> 'o"
  assumes ready_mono: "ready n r \<Longrightarrow> n \<noteq> u64_max \<Longrightarrow> ready (n + 1) r"
    and ready_read: "ready n r \<Longrightarrow> n \<noteq> u64_max \<Longrightarrow> bear n m p \<Longrightarrow> ready (n + 1) (readp p r)"
    and out_read: "ready n r \<Longrightarrow> n \<noteq> u64_max \<Longrightarrow> bear n m p \<Longrightarrow> outp (readp p r) = gain m (outp r)"
begin

lemma delivery:
  assumes "subseq arrived xs" and "borne_from bear n xs" and "ready n r"
  shows "outp (fold readp (map snd arrived) r) = fold gain (map fst arrived) (outp r)"
  using assms
proof (induction arrived xs arbitrary: n r rule: list_emb.induct)
  case (list_emb_Cons xs ys y)
  then show ?case using ready_mono by (cases y) auto
next
  case (list_emb_Cons2 x y xs ys)
  obtain m p where y: "y = (m, p)" by (cases y)
  with list_emb_Cons2 have b: "bear n m p" "n \<noteq> u64_max" "borne_from bear (n + 1) ys" "x = (m, p)"
    by auto
  show ?case
    using list_emb_Cons2.IH [OF b(3) ready_read [OF list_emb_Cons2.prems(2) b(2,1)]]
      out_read [OF list_emb_Cons2.prems(2) b(2,1)] b(4)
    by simp
qed simp

lemma ready_after:
  assumes "subseq arrived xs" and "borne_from bear n xs" and "ready n r"
  shows "\<exists>k. ready k (fold readp (map snd arrived) r)"
  using assms
proof (induction arrived xs arbitrary: n r rule: list_emb.induct)
  case (list_emb_Cons xs ys y)
  then show ?case using ready_mono by (cases y) auto
next
  case (list_emb_Cons2 x y xs ys)
  then show ?case using ready_read by (cases y) auto
qed auto

end

text \<open>
  Packets that arrive in any order and any number of times, given by their positions. Those are
  taken in that are newer than all before them.
\<close>

fun newest :: "nat \<Rightarrow> nat list \<Rightarrow> nat list" where
  "newest k [] = []"
| "newest k (j # js) = (if k \<le> j then j # newest (Suc j) js else newest k js)"

lemma newest_ge: "j \<in> set (newest k js) \<Longrightarrow> k \<le> j"
  by (induction k js rule: newest.induct) (auto split: if_splits)

lemma newest_sorted: "sorted_wrt (<) (newest k js)"
proof (induction k js rule: newest.induct)
  case (2 k j js)
  then show ?case using newest_ge [of _ "Suc j" js] by (auto simp: Suc_le_eq)
qed simp

lemma newest_subset: "set (newest k js) \<subseteq> set js"
  by (induction k js rule: newest.induct) (auto split: if_splits)

lemma newest_id: "sorted_wrt (<) js \<Longrightarrow> \<forall>j \<in> set js. k \<le> j \<Longrightarrow> newest k js = js"
  by (induction js arbitrary: k) (simp_all add: Suc_le_eq)

lemma borne_from_nth:
  "borne_from bear n xs \<Longrightarrow> j < length xs \<Longrightarrow>
     bear (n + of_nat j) (fst (xs ! j)) (snd (xs ! j)) \<and> unat n + j < 2 ^ 64 - 1"
proof (induction xs arbitrary: n j)
  case (Cons x xs)
  obtain m p where x: "x = (m, p)" by (cases x)
  show ?case
  proof (cases j)
    case 0
    then have "n \<noteq> u64_max" using Cons.prems x by simp
    then have "Suc (unat n) < 2 ^ 64" using unat_plus_1 [of n] unsigned_less [of "n + 1", where 'a = nat] by simp
    then show ?thesis using Cons.prems x 0 by simp
  next
    case (Suc i)
    have n: "n \<noteq> u64_max" using Cons.prems x by simp
    show ?thesis
      using Cons.IH [of "n + 1" i] Cons.prems x Suc unat_plus_1 [OF n] by (simp add: algebra_simps)
  qed
qed simp

locale ordered_link = lossy_link +
  fixes tight :: "u64 \<Rightarrow> 'r \<Rightarrow> bool"
  assumes tight_ready: "tight n r \<Longrightarrow> ready n r"
    and tight_read: "ready n r \<Longrightarrow> n \<noteq> u64_max \<Longrightarrow> bear n m p \<Longrightarrow> tight (n + 1) (readp p r)"
    and late_ignored: "tight n r \<Longrightarrow> k < n \<Longrightarrow> bear k m p \<Longrightarrow> readp p r = r"
begin

lemma ready_later: "ready n r \<Longrightarrow> unat n + d < 2 ^ 64 \<Longrightarrow> ready (n + of_nat d) r"
proof (induction d)
  case (Suc d)
  have "unat (n + of_nat d) = unat n + d"
    using Suc.prems(2) by (simp add: unat_word_ariths unat_of_nat)
  then have "n + of_nat d \<noteq> u64_max" using Suc.prems(2) by auto
  then show ?case using ready_mono [of "n + of_nat d" r] Suc by (simp add: algebra_simps)
qed simp

text \<open>What the reader expects after the positions below \<open>e\<close> are out of date.\<close>

definition from_position :: "u64 \<Rightarrow> nat \<Rightarrow> 'r \<Rightarrow> bool" where
  "from_position n e r \<longleftrightarrow> ready (n + of_nat e) r \<and> (0 < e \<longrightarrow> tight (n + of_nat e) r)"

lemma delivery_any_order:
  assumes "borne_from bear n xs" and "\<forall>j \<in> set js. j < length xs"
    and "from_position n e r" and "unat n + e < 2 ^ 64" and "e \<le> length xs"
  shows "outp (fold readp (map (\<lambda>j. snd (xs ! j)) js) r) =
      fold gain (map (\<lambda>j. fst (xs ! j)) (newest e js)) (outp r)
    \<and> ready (n + of_nat (length xs)) (fold readp (map (\<lambda>j. snd (xs ! j)) js) r)"
  using assms(2-)
proof (induction js arbitrary: e r)
  case (Cons j js)
  have j: "bear (n + of_nat j) (fst (xs ! j)) (snd (xs ! j))" "unat n + j < 2 ^ 64 - 1"
    using borne_from_nth [OF assms(1)] Cons.prems(1) by simp_all
  have u: "unat (n + of_nat k) = unat n + k" if "unat n + k < 2 ^ 64" for k
    using that by (simp add: unat_word_ariths unat_of_nat)
  show ?case
  proof (cases "e \<le> j")
    case True
    have "ready (n + of_nat e + of_nat (j - e)) r"
      using ready_later [of "n + of_nat e" r "j - e"] Cons.prems(2,3) j(2) True u [of e] by (simp add: from_position_def)
    then have r: "ready (n + of_nat j) r" using True by (simp add: add.assoc flip: of_nat_add)
    have max: "n + of_nat j \<noteq> u64_max" using u [of j] j(2) by auto
    have "tight (n + of_nat j + 1) (readp (snd (xs ! j)) r)" by (rule tight_read [OF r max j(1)])
    then have "from_position n (Suc j) (readp (snd (xs ! j)) r)"
      by (simp add: from_position_def tight_ready algebra_simps)
    then show ?thesis
      using Cons.IH [of "Suc j" "readp (snd (xs ! j)) r"] Cons.prems(1) True j(2) out_read [OF r max j(1)] by simp
  next
    case False
    then have "tight (n + of_nat e) r" and "n + of_nat j < n + of_nat e"
      using Cons.prems(2,3) u [of j] u [of e] j(2) by (simp_all add: from_position_def word_less_nat_alt)
    then have "readp (snd (xs ! j)) r = r" using late_ignored j(1) by blast
    then show ?thesis using Cons.IH [of e r] Cons.prems False by simp
  qed
next
  case Nil
  have "unat n + length xs < 2 ^ 64"
    using borne_from_nth [OF assms(1), of "length xs - 1"] Nil.prems(3,4) by (cases xs) auto
  moreover have "unat (n + of_nat e) = unat n + e"
    using Nil.prems(3) by (simp add: unat_word_ariths unat_of_nat)
  ultimately have "ready (n + of_nat e + of_nat (length xs - e)) r"
    using Nil.prems(2,4) ready_later [of "n + of_nat e" r "length xs - e"] by (simp add: from_position_def)
  then show ?case using Nil.prems(4) by (simp add: add.assoc flip: of_nat_add)
qed

end

lemma seal_all_carried:
  assumes "nonced_wire ncd" and "noise_pair sn (stateless lt) b"
    and "unat (next_nonce lt) + length ps < 2 ^ 64" and "\<forall>p \<in> set ps. length p \<le> 65503"
  shows "\<exists>pkts. seal_all oc ncd sn lt ps = map Ok pkts \<and> length pkts = length ps
     \<and> borne_from (carries ncd sn b) (next_nonce lt) (zip ps pkts)"
  using assms
proof (induction ps arbitrary: lt)
  case (Cons p ps)
  have n: "next_nonce lt \<noteq> u64_max" using Cons.prems(3) by auto
  obtain pkt where pkt: "seal oc ncd sn lt p = (lt\<lparr>next_nonce := next_nonce lt + 1\<rparr>, Ok pkt)"
      "carries ncd sn b (next_nonce lt) p pkt"
    using seal_Ok [OF Cons.prems(1,2) n, of p oc] Cons.prems(4) by auto
  let ?lt = "lt\<lparr>next_nonce := next_nonce lt + 1\<rparr>"
  obtain pkts where "seal_all oc ncd sn ?lt ps = map Ok pkts" "length pkts = length ps"
      "borne_from (carries ncd sn b) (next_nonce lt + 1) (zip ps pkts)"
    using Cons.IH [of ?lt] Cons.prems n by (auto simp: unat_plus_1)
  then show ?case using pkt n by (intro exI [of _ "pkt # pkts"]) simp
qed simp

text \<open>No remembered nonce is at or above \<open>n\<close>.\<close>

lemma fresh_not_rejected: "\<forall>m \<in> set w. m < n \<Longrightarrow> \<not> nonce_rejected w n"
  by (cases w) (auto simp: nonce_rejected_def bts_first_def)

lemma fresh_admit:
  assumes "\<forall>m \<in> set w. m < n" and "n \<noteq> u64_max"
  shows "\<forall>m \<in> set (admit_nonce sz n w). m < n + 1"
proof
  fix m
  assume "m \<in> set (admit_nonce sz n w)"
  then have "m \<le> n"
    using assms(1) by (auto simp: admit_nonce_def trim_nonces_drop less_imp_le
        dest!: in_set_dropD)
  then show "m < n + 1" using unat_plus_1 [OF assms(2)] by (simp add: word_le_nat_alt word_less_nat_alt)
qed

lemma less_plus_1: "m < n \<Longrightarrow> n \<noteq> u64_max \<Longrightarrow> m < n + 1"
  using unat_plus_1 [of n] by (simp add: word_less_nat_alt)

text \<open>The transport state as a reader, with the results it has returned.\<close>

definition fresh_below :: "'s \<Rightarrow> u64 \<Rightarrow> 's lossy_transport_state \<Rightarrow> bool" where
  "fresh_below b n lt \<longleftrightarrow>
     stateless lt = b \<and> window_size lt = 1 \<and> length (received_nonces lt) \<le> 1
     \<and> (\<forall>m \<in> set (received_nonces lt). m < n)"

text \<open>After a packet was taken in, everything up to its number is rejected.\<close>

definition read_up_to :: "'s \<Rightarrow> u64 \<Rightarrow> 's lossy_transport_state \<Rightarrow> bool" where
  "read_up_to b n lt \<longleftrightarrow> fresh_below b n lt \<and> (\<forall>m. m < n \<longrightarrow> nonce_rejected (received_nonces lt) m)"

lemma read_up_to_fresh [dest]: "read_up_to b n lt \<Longrightarrow> fresh_below b n lt"
  by (simp add: read_up_to_def)

lemma fresh_below_Suc: "fresh_below b n lt \<Longrightarrow> n \<noteq> u64_max \<Longrightarrow> fresh_below b (n + 1) lt"
  by (auto simp: fresh_below_def less_plus_1)

lemma unseal_reads:
  assumes "fresh_below b n lt" and "n \<noteq> u64_max" and "carries ncd sn b n p pkt"
    and "length p \<le> 65535"
  obtains lt1 where "unseal ncd sn lt pkt = (lt1, Ok p)" and "read_up_to b (n + 1) lt1"
proof -
  have n: "\<not> nonce_rejected (received_nonces lt) n" and b: "stateless lt = b"
    using assms(1) fresh_not_rejected by (auto simp: fresh_below_def)
  have w: "admit_nonce (window_size lt) n (received_nonces lt) = [n]"
    using admit_nonce_1 [OF _ n] assms(1) by (simp add: fresh_below_def)
  have "unseal ncd sn lt pkt = (lt\<lparr>received_nonces := [n]\<rparr>, Ok p)"
    using unseal_carries [OF _ n assms(4)] assms(3) by (simp add: b w)
  moreover have "m < n + 1 \<longleftrightarrow> m \<le> n" for m
    using unat_plus_1 [OF assms(2)] by (simp add: word_less_nat_alt word_le_nat_alt less_Suc_eq_le)
  then have "read_up_to b (n + 1) (lt\<lparr>received_nonces := [n]\<rparr>)"
    using assms(1) by (auto simp: read_up_to_def fresh_below_def nonce_rejected_def bts_first_def)
  ultimately show ?thesis by (rule that)
qed

lemma unseal_fresh:
  assumes "fresh_below b n lt" and "n \<noteq> u64_max" and "carries ncd sn b n p pkt"
    and "length p \<le> 65535"
  obtains lt1 where "unseal ncd sn lt pkt = (lt1, Ok p)" and "fresh_below b (n + 1) lt1"
  by (rule unseal_reads [OF assms]) (rule that, auto)

lemma unseal_late:
  assumes "read_up_to b n lt" and "m < n" and "carries ncd sn b m p pkt"
  shows "unseal ncd sn lt pkt = (lt, Err (FromSnow Decrypt))"
  using assms by (auto simp: read_up_to_def carries_def unseal_def read_message_def)

definition unseal_next ::
    "nonced codec \<Rightarrow> ('b, 'h, 's) snow \<Rightarrow> bytes \<Rightarrow>
       's lossy_transport_state \<times> (bytes, anyhow_error) res list \<Rightarrow>
       's lossy_transport_state \<times> (bytes, anyhow_error) res list" where
  "unseal_next ncd sn pkt x = (case unseal ncd sn (fst x) pkt of (lt, r) \<Rightarrow> (lt, snd x @ [r]))"

lemma unseal_all_fold:
  "snd (fold (unseal_next ncd sn) pkts (lt, rs)) = rs @ unseal_all ncd sn lt pkts"
  by (induction pkts arbitrary: lt rs) (simp_all add: unseal_next_def split_beta)

definition carries_small ::
    "nonced codec \<Rightarrow> ('b, 'h, 's) snow \<Rightarrow> 's \<Rightarrow> u64 \<Rightarrow> bytes \<Rightarrow> bytes \<Rightarrow> bool" where
  "carries_small ncd sn b n p pkt \<longleftrightarrow> carries ncd sn b n p pkt \<and> length p \<le> 65535"

interpretation transport_link: lossy_link
  "carries_small ncd sn b" "\<lambda>n x. fresh_below b n (fst x)" "unseal_next ncd sn" snd
  "\<lambda>p rs. rs @ [Ok p]" for ncd sn b
proof
  fix n m p and x :: "'c lossy_transport_state \<times> (bytes, anyhow_error) res list"
  assume x: "fresh_below b n (fst x)" and n: "n \<noteq> u64_max"
  show "fresh_below b (n + 1) (fst x)" using x n by (rule fresh_below_Suc)
  assume m: "carries_small ncd sn b n m p"
  obtain lt where "unseal ncd sn (fst x) p = (lt, Ok m)" "fresh_below b (n + 1) lt"
    using m unfolding carries_small_def by (metis unseal_fresh [OF x n])
  then show "fresh_below b (n + 1) (fst (unseal_next ncd sn p x))"
    and "snd (unseal_next ncd sn p x) = snd x @ [Ok m]"
    by (simp_all add: unseal_next_def)
qed

lemma borne_from_small:
  "borne_from (carries ncd sn b) n xs \<Longrightarrow> \<forall>(p, _) \<in> set xs. length p \<le> 65535 \<Longrightarrow>
     borne_from (carries_small ncd sn b) n xs"
  by (induction xs arbitrary: n) (auto simp: carries_small_def)

lemma fold_append_Ok: "fold (\<lambda>p rs. rs @ [Ok p]) ps rs = rs @ map Ok ps"
  by (induction ps arbitrary: rs) auto

section \<open>Properties\<close>

text \<open>C8 (safety). No two messages are encrypted under one nonce: for any sequence of payloads that
  does not exhaust the 64-bit counter there are distinct nonces, one for each payload and the same
  whatever cipher and build profile, such that each packet returned is the serialisation of its
  nonce and of what the cipher, called with that nonce, made of the payload. When writing returns
  an error, it is the one of that call of the cipher or of the serialisation of what it made, and
  its nonce is used up.\<close>

theorem nonces_unique:
  assumes "unat (next_nonce lt) + length ps \<le> 2 ^ 64"
  shows "\<exists>ns. distinct ns \<and> length ns = length ps \<and>
    (\<forall>oc ncd sn j. j < length ps \<longrightarrow>
       made_with ncd sn (stateless lt) (ns ! j) (ps ! j) (seal_all oc ncd sn lt ps ! j))"
  by (rule exI [of _ "map (\<lambda>j. next_nonce lt + of_nat j) [0..<length ps]"])
    (simp add: distinct_nonces_from [OF assms] seal_all_made_with [OF assms])

theorem nonces_unique_witness:
  "\<exists>ns. distinct ns \<and> length ns = length [[1], [], [2, 3 :: u8]] \<and>
    (\<forall>oc ncd sn j. j < length [[1], [], [2, 3 :: u8]] \<longrightarrow>
       made_with ncd sn (stateless (from_stateless 7)) (ns ! j) ([[1], [], [2, 3]] ! j)
         (seal_all oc ncd sn (from_stateless 7) [[1], [], [2, 3]] ! j))"
  by (rule nonces_unique) (simp add: from_stateless_def LossyTransportState_new_def)

text \<open>Lossy in-order delivery. Two states of one handshake: all payloads of at
  most 65503 bytes are written, and whichever subsequence of the packets reaches the other side in
  order is read back as exactly the payloads written.\<close>

theorem lossy_delivery:
  assumes "nonced_wire ncd" and "noise_pair sn a b"
    and "length ps < 2 ^ 64" and "\<forall>p \<in> set ps. length p \<le> 65503"
  shows "\<exists>pkts. seal_all oc ncd sn (from_stateless a) ps = map Ok pkts \<and> length pkts = length ps \<and>
    (\<forall>arrived. subseq arrived (zip ps pkts) \<longrightarrow>
       unseal_all ncd sn (from_stateless b) (map snd arrived) = map (Ok \<circ> fst) arrived)"
proof -
  have new: "stateless (from_stateless x) = x" "next_nonce (from_stateless x) = 0"
      "received_nonces (from_stateless x) = []"
      "window_size (from_stateless x) = 1" for x :: 's
    by (simp_all add: from_stateless_def LossyTransportState_new_def)
  obtain pkts where pkts: "seal_all oc ncd sn (from_stateless a) ps = map Ok pkts"
      "length pkts = length ps" and "borne_from (carries ncd sn b) 0 (zip ps pkts)"
    using seal_all_carried [OF assms(1), of sn "from_stateless a" b ps oc] assms(2-4)
    by (auto simp: new)
  moreover have "\<forall>(p, _) \<in> set (zip ps pkts). length p \<le> 65535"
    using assms(4) by (auto dest!: set_zip_leftD)
  ultimately have "borne_from (carries_small ncd sn b) 0 (zip ps pkts)"
    by (intro borne_from_small)
  moreover have "fresh_below b 0 (from_stateless b)" by (simp add: fresh_below_def new)
  ultimately have "unseal_all ncd sn (from_stateless b) (map snd arrived) = map Ok (map fst arrived)"
    if "subseq arrived (zip ps pkts)" for arrived
    using transport_link.delivery [OF that, of ncd sn b 0 "(from_stateless b, [])"]
    by (simp add: unseal_all_fold fold_append_Ok)
  with pkts show ?thesis by auto
qed

theorem lossy_delivery_witness:
  "\<exists>pkts. seal_all True nonced_layout tag_snow (from_stateless 7) [[1, 2], [], [3]] = map Ok pkts \<and>
    length pkts = length [[1, 2], [], [3 :: u8]] \<and>
    (\<forall>arrived. subseq arrived (zip [[1, 2], [], [3]] pkts) \<longrightarrow>
       unseal_all nonced_layout tag_snow (from_stateless 7) (map snd arrived)
         = map (Ok \<circ> fst) arrived)"
  by (rule lossy_delivery [OF nonced_layout_wire tag_snow_pair]) simp_all

text \<open>The size limits of a message. Up to 65503 bytes writing succeeds and the packet
  is 32 bytes longer than the payload. For the next sixteen sizes the ciphertext fits the buffer
  but its serialisation does not: \<open>write_message\<close> drops the tail, returns a length larger than
  the buffer, and the caller's slice panics.\<close>

theorem seal_size_limit:
  assumes "nonced_wire ncd" and "noise_pair sn (stateless lt) b" and "next_nonce lt \<noteq> u64_max"
    and "length p \<le> 65519"
  shows "case snd (seal oc ncd sn lt p) of
      Ok pkt \<Rightarrow> length p \<le> 65503 \<and> length pkt = length p + 32
    | Err e \<Rightarrow> False
    | Panic x \<Rightarrow> 65503 < length p \<and> x = IndexOutOfBounds"
proof (cases "length p \<le> 65503")
  case True
  then obtain pkt where "snd (seal oc ncd sn lt p) = Ok pkt" "length pkt = length p + 32"
    by (metis seal_Ok [OF assms(1-3) True, of oc] snd_conv)
  with True show ?thesis by simp
next
  case False
  obtain c where c: "st_write_message sn (stateless lt) (next_nonce lt) p 65535 = Inr c"
      "length c = length p + 16"
    using noise_pairE [OF assms(2,3), of p] assms(4) by auto
  then have "length c < 2 ^ 63" using assms(4) by simp
  then obtain out where out: "serialize ncd (Nonced (next_nonce lt) c) = Inr out"
      "length out = length c + 16"
    using nonced_wireE [OF assms(1)] by metis
  have "\<not> length out \<le> 65535" "length c \<le> 65535" using out(2) c(2) assms(4) False by simp_all
  then show ?thesis
    using assms(3) c(1) out(1) False
    by (simp add: seal_def write_message_def add_u64_1_cases slice_overwrite question_def Let_def)
qed

theorem seal_size_limit_witness:
  "case snd (seal True nonced_layout tag_snow (from_stateless 7) (replicate 65510 1)) of
      Ok pkt \<Rightarrow> length (replicate 65510 (1 :: u8)) \<le> 65503
        \<and> length pkt = length (replicate 65510 (1 :: u8)) + 32
    | Err e \<Rightarrow> False
    | Panic x \<Rightarrow> 65503 < length (replicate 65510 (1 :: u8)) \<and> x = IndexOutOfBounds"
  by (rule seal_size_limit [OF nonced_layout_wire tag_snow_from_stateless])
    (simp_all add: from_stateless_def LossyTransportState_new_def)

end
