(* ===== verification/SessionLink.thy ===== *)
theory SessionLink
  imports Session Delivery
begin

text \<open>
  What an established \<open>Session\<close> (\<open>src/src/session.rs\<close>) guarantees: what one side sends, mixed
  with the packets of its keepalive task, the other side queues, in order and without the packets
  that were lost; when the heartbeat declares the peer dead; what a dead session does.
\<close>

section \<open>What is assumed of the serialisation\<close>

fun message_in_memory :: "message \<Rightarrow> bool" where
  "message_in_memory Keepalive = True"
| "message_in_memory (Payload d) = in_memory d"

fun raw_in_memory :: "raw_message \<Rightarrow> bool" where
  "raw_in_memory HandshakePoke = True"
| "raw_in_memory (HandshakeInitiation (SnowInitiation b)) = in_memory b"
| "raw_in_memory (HandshakeResponse (SnowResponse b)) = in_memory b"
| "raw_in_memory (Encrypted b) = in_memory b"

text \<open>A variant number has four bytes, the length of a vector eight.\<close>

fun message_size :: "message \<Rightarrow> nat" where
  "message_size Keepalive = 4"
| "message_size (Payload d) = length d + 12"

definition message_sizes :: "message codec \<Rightarrow> bool" where
  "message_sizes c \<longleftrightarrow> (\<forall>m out. serialize c m = Inr out \<longrightarrow> length out = message_size m)"

definition session_codecs :: "('b, 'h, 's) env \<Rightarrow> bool" where
  "session_codecs en \<longleftrightarrow>
     nonced_wire (nonced_codec en) \<and> codec_ok message_in_memory (message_codec en)
     \<and> message_sizes (message_codec en) \<and> codec_ok raw_in_memory (raw_codec en)"

lemma session_codecs_message:
  assumes "session_codecs en" and "message_size m \<le> 65503"
  obtains out where "serialize (message_codec en) m = Inr out"
    and "deserialize (message_codec en) out = Inr m" and "length out = message_size m"
proof -
  have "message_in_memory m" using assms(2) by (cases m) (simp_all add: in_memory_def)
  with assms(1) show ?thesis
    unfolding session_codecs_def message_sizes_def by (metis codec_okE that)
qed

lemma session_codecs_raw:
  assumes "session_codecs en" and "length b \<le> 65535"
  obtains out where "serialize (raw_codec en) (Encrypted b) = Inr out"
    and "deserialize (raw_codec en) out = Inr (Encrypted b)"
proof -
  have "raw_in_memory (Encrypted b)" using assms(2) by (simp add: in_memory_def)
  with assms(1) show ?thesis unfolding session_codecs_def by (metis codec_okE that)
qed

section \<open>Packets between two sessions\<close>

text \<open>The packet carries the message \<open>m\<close>, under the nonce \<open>n\<close>, to a session with cipher
  \<open>b\<close>.\<close>

definition bears :: "('b, 'h, 's) env \<Rightarrow> 's \<Rightarrow> u64 \<Rightarrow> message \<Rightarrow> session_packet \<Rightarrow> bool" where
  "bears en b n m pkt \<longleftrightarrow>
     (\<exists>enc plain. deserialize (raw_codec en) (packet_data pkt) = Inr (Encrypted enc)
        \<and> carries (nonced_codec en) (snow_of en) b n plain enc \<and> length plain \<le> 65535
        \<and> deserialize (message_codec en) plain = Inr m)"

text \<open>A session that can transmit.\<close>

definition can_transmit :: "('b, 'h, 's) env \<Rightarrow> 's session \<Rightarrow> bool" where
  "can_transmit en s \<longleftrightarrow>
     \<not> dead s \<and> keepalive_runs s
     \<and> serialize (message_codec en) Keepalive = Inr (keepalive_serialized s)"

text \<open>A call of \<open>send\<close>, or a turn of the keepalive task.\<close>

fun transmit ::
    "('b, 'h, 's) env \<Rightarrow> message \<Rightarrow> 's session \<times> channel \<Rightarrow> 's session \<times> channel" where
  "transmit en Keepalive (s, ch) = keepalive_tick en ch s"
| "transmit en (Payload d) (s, ch) = (case Session_send en ch s d of (s1, ch1, _) \<Rightarrow> (s1, ch1))"

lemma seal_message:
  assumes "session_codecs en" and "noise_pair (snow_of en) (stateless lt) b"
    and "next_nonce lt \<noteq> u64_max" and "message_size m \<le> 65503"
  obtains plain enc out where "serialize (message_codec en) m = Inr plain"
    and "seal (overflow_checks en) (nonced_codec en) (snow_of en) lt plain
      = (lt\<lparr>next_nonce := next_nonce lt + 1\<rparr>, Ok enc)"
    and "serialize (raw_codec en) (Encrypted enc) = Inr out"
    and "\<And>sid. bears en b (next_nonce lt) m (SessionPacket_new sid out)"
proof -
  obtain plain where plain: "serialize (message_codec en) m = Inr plain"
      "deserialize (message_codec en) plain = Inr m" "length plain = message_size m"
    using session_codecs_message [OF assms(1,4)] .
  have len: "length plain \<le> 65503" using plain(3) assms(4) by simp
  have wire: "nonced_wire (nonced_codec en)" using assms(1) by (simp add: session_codecs_def)
  obtain enc where enc: "seal (overflow_checks en) (nonced_codec en) (snow_of en) lt plain
        = (lt\<lparr>next_nonce := next_nonce lt + 1\<rparr>, Ok enc)"
      "carries (nonced_codec en) (snow_of en) b (next_nonce lt) plain enc"
      "length enc = length plain + 32"
    using seal_Ok [OF wire assms(2,3) len] .
  then have "length enc \<le> 65535" using len by simp
  then obtain out where out: "serialize (raw_codec en) (Encrypted enc) = Inr out"
      "deserialize (raw_codec en) out = Inr (Encrypted enc)"
    using session_codecs_raw [OF assms(1)] by metis
  have "bears en b (next_nonce lt) m (SessionPacket_new sid out)" for sid
    using plain(2) len enc(2) out(2) by (auto simp: bears_def SessionPacket_new_def)
  then show ?thesis using that plain(1) enc(1) out(1) by blast
qed

lemma transmit_Ok:
  assumes "session_codecs en" and "noise_pair (snow_of en) (stateless (transport s)) b"
    and "next_nonce (transport s) \<noteq> u64_max" and "message_size m \<le> 65503"
    and "can_transmit en s" and "chan_open ch"
  obtains pkt where "transmit en m (s, ch) =
      (s\<lparr>transport := (transport s)\<lparr>next_nonce := next_nonce (transport s) + 1\<rparr>\<rparr>,
       ch\<lparr>chan_queue := chan_queue ch @ [(remote_addr s, pkt, 64)]\<rparr>)"
    and "bears en b (next_nonce (transport s)) m pkt" and "packet_id pkt = sess_id s"
proof -
  obtain plain enc out where "serialize (message_codec en) m = Inr plain"
    and "seal (overflow_checks en) (nonced_codec en) (snow_of en) (transport s) plain
      = ((transport s)\<lparr>next_nonce := next_nonce (transport s) + 1\<rparr>, Ok enc)"
    and "serialize (raw_codec en) (Encrypted enc) = Inr out"
    and "\<And>sid. bears en b (next_nonce (transport s)) m (SessionPacket_new sid out)"
    using seal_message [OF assms(1-4)] by metis
  then show ?thesis
    using assms(5,6) that [of "SessionPacket_new (sess_id s) out"]
    by (cases m) (simp_all add: can_transmit_def keepalive_tick_def Session_send_def chan_send_def
        SessionPacket_new_def Let_def)
qed

section \<open>The receiving side\<close>

definition session_gain :: "message \<Rightarrow> bytes list \<times> bool \<Rightarrow> bytes list \<times> bool" where
  "session_gain m x =
     (case m of Keepalive \<Rightarrow> (fst x, True) | Payload d \<Rightarrow> (fst x @ [d], snd x))"

definition session_read :: "('b, 'h, 's) env \<Rightarrow> session_packet \<Rightarrow> 's session \<Rightarrow> 's session" where
  "session_read en pkt s = fst (Session_handle_incoming en pkt s)"

text \<open>What a session becomes that takes in \<open>m\<close>, with the wakers woken.\<close>

definition taken_in ::
    "message \<Rightarrow> 's lossy_transport_state \<Rightarrow> 's session \<Rightarrow> 's session \<times> waker list" where
  "taken_in m lt s =
     (case m of
        Keepalive \<Rightarrow> (s\<lparr>transport := lt, heartbeat := True\<rparr>, [])
      | Payload d \<Rightarrow>
          (s\<lparr>transport := lt, messages := messages s @ [d], wakers := tl (wakers s)\<rparr>,
           map snd (take 1 (wakers s))))"

lemma handle_incoming_bears:
  assumes "fresh_below b n (transport s)" and "n \<noteq> u64_max" and "bears en b n m pkt"
  obtains lt where "Session_handle_incoming en pkt s =
      (fst (taken_in m lt s), snd (taken_in m lt s), Ok ())" and "read_up_to b (n + 1) lt"
proof -
  obtain enc plain where p: "deserialize (raw_codec en) (packet_data pkt) = Inr (Encrypted enc)"
      "carries (nonced_codec en) (snow_of en) b n plain enc" "length plain \<le> 65535"
      "deserialize (message_codec en) plain = Inr m"
    using assms(3) by (auto simp: bears_def)
  obtain lt where lt: "unseal (nonced_codec en) (snow_of en) (transport s) enc = (lt, Ok plain)"
      "read_up_to b (n + 1) lt"
    using unseal_reads [OF assms(1,2) p(2,3)] .
  have "Session_handle_incoming en pkt s = (fst (taken_in m lt s), snd (taken_in m lt s), Ok ())"
    using p(1,4) lt(1)
    by (auto simp: Session_handle_incoming_def btm_pop_first_def taken_in_def
        split: list.split message.split)
  then show ?thesis using lt(2) by (rule that)
qed

lemma handle_incoming_late:
  assumes "read_up_to b n (transport s)" and "k < n" and "bears en b k m pkt"
  shows "Session_handle_incoming en pkt s = (s, [], Err (FromSnow Decrypt))"
proof -
  obtain enc plain where p: "deserialize (raw_codec en) (packet_data pkt) = Inr (Encrypted enc)"
      "carries (nonced_codec en) (snow_of en) b k plain enc"
    using assms(3) by (auto simp: bears_def)
  then show ?thesis
    using unseal_late [OF assms(1,2) p(2)] by (simp add: Session_handle_incoming_def)
qed

interpretation session_link: ordered_link
  "bears en b" "\<lambda>n s. fresh_below b n (transport s)" "session_read en"
  "\<lambda>s. (messages s, heartbeat s)" session_gain "\<lambda>n s. read_up_to b n (transport s)" for en b
proof
  fix n k m p and s :: "'c session"
  show "fresh_below b n (transport s)" if "read_up_to b n (transport s)"
    using that by auto
  show "session_read en p s = s" if "read_up_to b n (transport s)" "k < n" "bears en b k m p"
    using handle_incoming_late [OF that] by (simp add: session_read_def)
  assume s: "fresh_below b n (transport s)" and n: "n \<noteq> u64_max"
  show "fresh_below b (n + 1) (transport s)" using s n by (rule fresh_below_Suc)
  assume "bears en b n m p"
  then obtain lt where "session_read en p s = fst (taken_in m lt s)" "read_up_to b (n + 1) lt"
    by (metis handle_incoming_bears [OF s n] fst_conv session_read_def)
  then show "read_up_to b (n + 1) (transport (session_read en p s))"
    and "fresh_below b (n + 1) (transport (session_read en p s))"
    and "(messages (session_read en p s), heartbeat (session_read en p s))
      = session_gain m (messages s, heartbeat s)"
    by (auto simp: taken_in_def session_gain_def split: message.split)
qed

section \<open>A conversation\<close>

fun payloads :: "message list \<Rightarrow> bytes list" where
  "payloads [] = []"
| "payloads (Keepalive # ms) = payloads ms"
| "payloads (Payload d # ms) = d # payloads ms"

lemma fst_session_gain: "fst (fold session_gain ms x) = fst x @ payloads ms"
  by (induction ms arbitrary: x rule: payloads.induct) (simp_all add: session_gain_def)

lemma transmit_all:
  assumes "session_codecs en" and "noise_pair (snow_of en) (stateless (transport s)) b"
    and "unat (next_nonce (transport s)) + length ms < 2 ^ 64"
    and "\<forall>m \<in> set ms. message_size m \<le> 65503" and "can_transmit en s" and "chan_open ch"
  shows "\<exists>pkts. chan_queue (snd (fold (transmit en) ms (s, ch))) =
        chan_queue ch @ map (\<lambda>p. (remote_addr s, p, 64)) pkts
     \<and> length pkts = length ms \<and> (\<forall>p \<in> set pkts. packet_id p = sess_id s)
     \<and> borne_from (bears en b) (next_nonce (transport s)) (zip ms pkts)"
  using assms
proof (induction ms arbitrary: s ch)
  case (Cons m ms)
  have n: "next_nonce (transport s) \<noteq> u64_max" and m: "message_size m \<le> 65503"
    using Cons.prems(3,4) by auto
  let ?s = "s\<lparr>transport := (transport s)\<lparr>next_nonce := next_nonce (transport s) + 1\<rparr>\<rparr>"
  obtain pkt where pkt: "transmit en m (s, ch) =
        (?s, ch\<lparr>chan_queue := chan_queue ch @ [(remote_addr s, pkt, 64)]\<rparr>)"
      "bears en b (next_nonce (transport s)) m pkt" "packet_id pkt = sess_id s"
    by (rule transmit_Ok [OF Cons.prems(1,2) n m Cons.prems(5,6)])
  let ?ch = "ch\<lparr>chan_queue := chan_queue ch @ [(remote_addr s, pkt, 64)]\<rparr>"
  obtain pkts where "chan_queue (snd (fold (transmit en) ms (?s, ?ch))) =
        chan_queue ?ch @ map (\<lambda>p. (remote_addr s, p, 64)) pkts"
      "length pkts = length ms" "\<forall>p \<in> set pkts. packet_id p = sess_id s"
      "borne_from (bears en b) (next_nonce (transport s) + 1) (zip ms pkts)"
    using Cons.IH [of ?s ?ch] Cons.prems n by (auto simp: unat_plus_1 can_transmit_def)
  then show ?case using pkt n by (intro exI [of _ "pkt # pkts"]) simp
qed simp

lemma Session_new_Ok:
  "Session_new en sid addr lt = Ok s \<Longrightarrow>
     can_transmit en s \<and> transport s = lt \<and> remote_addr s = addr \<and> sess_id s = sid
     \<and> messages s = [] \<and> wakers s = [] \<and> heartbeat s \<and> \<not> dead s \<and> heartbeat_runs s"
  by (auto simp: Session_new_def question_def can_transmit_def split: sum.splits)

text \<open>What the first session sends next is new to the second, and the second can decrypt it.\<close>

definition linked :: "('b, 'h, 's) snow \<Rightarrow> 's session \<Rightarrow> 's session \<Rightarrow> bool" where
  "linked sn s t \<longleftrightarrow>
     noise_pair sn (stateless (transport s)) (stateless (transport t))
     \<and> fresh_below (stateless (transport t)) (next_nonce (transport s)) (transport t)"

section \<open>Concrete formats\<close>

text \<open>\<open>Message\<close> and \<open>RawMessage\<close> in the documented layout.\<close>

fun put_message :: "message \<Rightarrow> bytes" where
  "put_message Keepalive = put_u32 0"
| "put_message (Payload d) = put_u32 1 @ put_bytes d"

definition take_message :: "message reader" where
  "take_message bs =
     (case take_u32 bs of
        None \<Rightarrow> None
      | Some (v, r) \<Rightarrow>
          if v = 0 then Some (Keepalive, r)
          else if v = 1 then map_option (\<lambda>(d, r). (Payload d, r)) (take_bytes r)
          else None)"

fun put_raw :: "raw_message \<Rightarrow> bytes" where
  "put_raw HandshakePoke = put_u32 0"
| "put_raw (HandshakeInitiation (SnowInitiation b)) = put_u32 1 @ put_bytes b"
| "put_raw (HandshakeResponse (SnowResponse b)) = put_u32 2 @ put_bytes b"
| "put_raw (Encrypted b) = put_u32 3 @ put_bytes b"

definition take_raw :: "raw_message reader" where
  "take_raw bs =
     (case take_u32 bs of
        None \<Rightarrow> None
      | Some (v, r) \<Rightarrow>
          if v = 0 then Some (HandshakePoke, r)
          else map_option (\<lambda>(b, r).
             (if v = 1 then HandshakeInitiation (SnowInitiation b)
              else if v = 2 then HandshakeResponse (SnowResponse b) else Encrypted b, r))
             (if v \<le> 3 then take_bytes r else None))"

definition put_packet :: "session_packet \<Rightarrow> bytes" where
  "put_packet p = put_u128 (packet_id p) @ put_bytes (packet_data p)"

definition take_packet :: "session_packet reader" where
  "take_packet bs =
     (case take_u128 bs of
        None \<Rightarrow> None
      | Some (i, r) \<Rightarrow> map_option (\<lambda>(d, r). (SessionPacket_new i d, r)) (take_bytes r))"

definition layout_env :: "('b, 'h, 's) snow \<Rightarrow> ('b, 'h, 's) env" where
  "layout_env sn =
     \<lparr>overflow_checks = True, snow_of = sn, nonced_codec = nonced_layout,
      message_codec = layout_codec put_message take_message,
      raw_codec = layout_codec put_raw take_raw, packet_codec = layout_codec put_packet take_packet\<rparr>"

lemma length_put_message: "length (put_message m) = message_size m"
  by (cases m) simp_all

lemma put_take_message: "message_in_memory m \<Longrightarrow> take_message (put_message m) = Some (m, [])"
  by (cases m) (simp_all add: take_message_def)

lemma put_take_raw: "raw_in_memory m \<Longrightarrow> take_raw (put_raw m) = Some (m, [])"
  by (cases m rule: put_raw.cases) (simp_all add: take_raw_def)

lemma layout_env_codecs: "session_codecs (layout_env sn)"
  unfolding session_codecs_def layout_env_def
proof (simp add: nonced_layout_wire, intro conjI layout_codec_ok)
  show "message_sizes (layout_codec put_message take_message)"
    unfolding message_sizes_def layout_codec_def by (auto simp: length_put_message)
qed (simp_all add: put_take_message put_take_raw)

section \<open>Properties\<close>

text \<open>C14 (roundtrip). Two sessions that the handshake linked. Whatever sequence of application messages
  (of at most 65491 bytes) and keepalives the first transmits, each becomes one packet to the
  remote address. The packets may arrive in any order, some not at all, some several times (\<open>js\<close> are
  their positions): the second queues exactly the application messages of those that are newer
  than all before them, in order, after the messages it has.\<close>

theorem session_delivery:
  assumes "session_codecs en" and "linked (snow_of en) s1 s2" and "can_transmit en s1"
    and "unat (next_nonce (transport s1)) + length ms < 2 ^ 64"
    and "\<forall>m \<in> set ms. message_size m \<le> 65503" and "chan_open ch"
  shows "\<exists>pkts. chan_queue (snd (fold (transmit en) ms (s1, ch))) =
        chan_queue ch @ map (\<lambda>p. (remote_addr s1, p, 64)) pkts
     \<and> length pkts = length ms \<and> (\<forall>p \<in> set pkts. packet_id p = sess_id s1)
     \<and> (\<forall>js. (\<forall>j \<in> set js. j < length pkts) \<longrightarrow>
          messages (fold (session_read en) (map ((!) pkts) js) s2)
            = messages s2 @ payloads (map ((!) ms) (newest 0 js)))"
proof -
  let ?b = "stateless (transport s2)" and ?n = "next_nonce (transport s1)"
  obtain pkts where pkts: "chan_queue (snd (fold (transmit en) ms (s1, ch))) =
        chan_queue ch @ map (\<lambda>p. (remote_addr s1, p, 64)) pkts" "length pkts = length ms"
        "\<forall>p \<in> set pkts. packet_id p = sess_id s1"
    and borne: "borne_from (bears en ?b) ?n (zip ms pkts)"
    using transmit_all [OF assms(1) _ assms(4,5,3,6), of ?b] assms(2) by (auto simp: linked_def)
  have "messages (fold (session_read en) (map ((!) pkts) js) s2) = messages s2 @ payloads (map ((!) ms) (newest 0 js))"
    if js: "\<forall>j \<in> set js. j < length pkts" for js
  proof -
    have start: "session_link.from_position ?b ?n 0 s2"
      using assms(2) by (simp add: session_link.from_position_def linked_def)
    have pos: "map (\<lambda>j. snd (zip ms pkts ! j)) js = map ((!) pkts) js"
      "map (\<lambda>j. fst (zip ms pkts ! j)) (newest 0 js) = map ((!) ms) (newest 0 js)"
      using js newest_subset [of 0 js] pkts(2) by (auto simp: subset_iff)
    have "\<forall>j \<in> set js. j < length (zip ms pkts)" "unat ?n + 0 < 2 ^ 64" using js pkts(2) assms(4) by simp_all
    from session_link.delivery_any_order [OF borne this(1) start this(2) le0] show ?thesis
      unfolding pos by (metis fst_conv fst_session_gain)
  qed
  with pkts show ?thesis by blast
qed

definition demo_session :: "u8 session" where
  "demo_session =
     \<lparr>sess_id = 5, remote_addr = SocketAddrV4 1 2, messages = [], wakers = [], heartbeat = True,
      dead = False, transport = from_stateless 7, keepalive_serialized = put_u32 0,
      keepalive_runs = True, heartbeat_runs = True\<rparr>"

lemma demo_session_new:
  "Session_new (layout_env tag_snow) 5 (SocketAddrV4 1 2) (from_stateless 7) = Ok demo_session"
  by (simp add: Session_new_def demo_session_def layout_env_def layout_codec_def question_def)

lemma demo_linked: "linked (snow_of (layout_env tag_snow)) demo_session demo_session"
proof -
  have sn: "snow_of (layout_env tag_snow) = tag_snow" by (simp add: layout_env_def)
  show ?thesis
    unfolding sn
    by (simp add: linked_def tag_snow_pair fresh_below_def demo_session_def from_stateless_def
        LossyTransportState_new_def)
qed

text \<open>The third packet overtakes the others and the second comes twice.\<close>

theorem session_delivery_witness:
  "\<exists>pkts. chan_queue (snd (fold (transmit (layout_env tag_snow)) [Payload [1, 2], Payload [7], Payload [3], Keepalive]
          (demo_session, \<lparr>chan_open = True, chan_queue = []\<rparr>))) =
        map (\<lambda>p. (remote_addr demo_session, p, 64)) pkts
     \<and> messages (fold (session_read (layout_env tag_snow)) (map ((!) pkts) [1, 1, 0, 2, 1, 3]) demo_session)
         = [[7], [3]]"
proof -
  let ?ms = "[Payload [1, 2], Payload [7], Payload [3], Keepalive]" and ?ch = "\<lparr>chan_open = True, chan_queue = []\<rparr>"
  have "can_transmit (layout_env tag_snow) demo_session"
    using Session_new_Ok [OF demo_session_new] by blast
  moreover have "unat (next_nonce (transport demo_session)) + length ?ms < 2 ^ 64"
    "\<forall>m \<in> set ?ms. message_size m \<le> 65503" "chan_open ?ch" "messages demo_session = []"
    by (simp_all add: demo_session_def from_stateless_def LossyTransportState_new_def)
  ultimately obtain pkts where "chan_queue (snd (fold (transmit (layout_env tag_snow)) ?ms (demo_session, ?ch))) =
        chan_queue ?ch @ map (\<lambda>p. (remote_addr demo_session, p, 64)) pkts" and len: "length pkts = length ?ms"
    and "\<forall>js. (\<forall>j \<in> set js. j < length pkts) \<longrightarrow>
          messages (fold (session_read (layout_env tag_snow)) (map ((!) pkts) js) demo_session)
            = messages demo_session @ payloads (map ((!) ?ms) (newest 0 js))"
    using session_delivery [OF layout_env_codecs demo_linked, of ?ms ?ch] by blast
  from this(1) this(3) [THEN spec, of "[1, 1, 0, 2, 1, 3]"] show ?thesis
    using len \<open>messages demo_session = []\<close> by (intro exI [of _ pkts]) simp
qed

text \<open>The packet is accepted and is a keepalive.\<close>

definition keepalive_accepted :: "('b, 'h, 's) env \<Rightarrow> 's session \<Rightarrow> session_packet \<Rightarrow> bool" where
  "keepalive_accepted en s pkt \<longleftrightarrow>
     (case deserialize (raw_codec en) (packet_data pkt) of
        Inr (Encrypted enc) \<Rightarrow>
          (case unseal (nonced_codec en) (snow_of en) (transport s) enc of
             (_, Ok plain) \<Rightarrow>
               (case deserialize (message_codec en) plain of Inr Keepalive \<Rightarrow> True | _ \<Rightarrow> False)
           | _ \<Rightarrow> False)
      | _ \<Rightarrow> False)"

lemma session_read_frame [frame_simps]:
  "dead (session_read en pkt s) = dead s"
  "heartbeat_runs (session_read en pkt s) = heartbeat_runs s"
  "keepalive_runs (session_read en pkt s) = keepalive_runs s"
  "sess_id (session_read en pkt s) = sess_id s"
  "remote_addr (session_read en pkt s) = remote_addr s"
  "keepalive_serialized (session_read en pkt s) = keepalive_serialized s"
  by (auto simp: session_read_def Session_handle_incoming_def Let_def
      split: sum.split raw_message.split res.split message.split prod.split)

lemma session_read_heartbeat:
  "heartbeat (session_read en pkt s) \<longleftrightarrow> heartbeat s \<or> keepalive_accepted en s pkt"
  by (auto simp: session_read_def Session_handle_incoming_def keepalive_accepted_def Let_def
      split: sum.split raw_message.split res.split message.split prod.split)

text \<open>Some packet of the sequence is an accepted keepalive when its turn comes.\<close>

fun any_keepalive :: "('b, 'h, 's) env \<Rightarrow> 's session \<Rightarrow> session_packet list \<Rightarrow> bool" where
  "any_keepalive en s [] = False"
| "any_keepalive en s (p # ps) = (keepalive_accepted en s p \<or> any_keepalive en (session_read en p s) ps)"

lemma fold_read_heartbeat:
  "heartbeat (fold (session_read en) ps s) \<longleftrightarrow> heartbeat s \<or> any_keepalive en s ps"
  by (induction ps arbitrary: s) (auto simp: session_read_heartbeat)

lemma fold_read_frame [frame_simps]:
  "dead (fold (session_read en) ps s) = dead s"
  "heartbeat_runs (fold (session_read en) ps s) = heartbeat_runs s"
  by (induction ps arbitrary: s) (simp_all add: frame_simps)

text \<open>C21 (liveness). Between two turns of the heartbeat task of a live session that has heard from
  its peer, whatever packets arrive: the second turn declares the session dead, and then wakes
  every waiting receiver, exactly when none of the packets is an authentic keepalive of the peer.\<close>

theorem heartbeat_decides:
  assumes "\<not> dead s" and "heartbeat_runs s" and "heartbeat s"
    and "s1 = fold (session_read en) ps (fst (heartbeat_tick s))"
  shows "\<not> dead s1 \<and> heartbeat_tick s1 =
    (if any_keepalive en (fst (heartbeat_tick s)) ps then (s1\<lparr>heartbeat := False\<rparr>, [])
     else (s1\<lparr>dead := True, heartbeat_runs := False\<rparr>, map snd (wakers s1)))"
proof -
  have first: "heartbeat_tick s = (s\<lparr>heartbeat := False\<rparr>, [])"
    using assms by (simp add: heartbeat_tick_def)
  have "heartbeat s1 \<longleftrightarrow> any_keepalive en (s\<lparr>heartbeat := False\<rparr>) ps"
    and "heartbeat_runs s1" and "\<not> dead s1"
    using assms by (simp_all add: first fold_read_heartbeat frame_simps)
  then show ?thesis unfolding first by (simp add: heartbeat_tick_def [of s1])
qed

theorem heartbeat_decides_witness:
  "\<not> dead (demo_session\<lparr>heartbeat := False\<rparr>)
   \<and> heartbeat_tick (demo_session\<lparr>heartbeat := False\<rparr>) =
      (if any_keepalive (layout_env tag_snow) (fst (heartbeat_tick demo_session)) []
       then (demo_session\<lparr>heartbeat := False\<rparr>\<lparr>heartbeat := False\<rparr>, [])
       else (demo_session\<lparr>heartbeat := False\<rparr>\<lparr>dead := True, heartbeat_runs := False\<rparr>,
             map snd (wakers (demo_session\<lparr>heartbeat := False\<rparr>))))"
  by (rule heartbeat_decides) (simp_all add: demo_session_def heartbeat_tick_def)

end
