(* ===== verification/Wakeups.thy ===== *)
theory Wakeups
  imports SessionLink
begin

text \<open>
  Waiting for a message (\<open>Receiving::poll\<close>, \<open>Session::handle_incoming\<close> and the heartbeat task of
  \<open>src/src/session.rs\<close>) as a state machine. A state is a session, the set of the receivers that
  sleep and the set of those that a waker has woken and that have not polled since. A receiver
  leaves the first set only when its waker is called or when it polls. Every poll is one step, each
  receiver is polled by a task of its own and none is dropped while it waits: then no message lies
  in the queue while all receivers sleep, and none sleeps on a session whose heartbeat task has
  ended. The two halves of \<open>poll\<close> are not protected by one lock, though: with the halves as
  separate steps a wakeup is lost. (A receiver that is dropped leaves its waker in the map, where a
  message is spent on it.)
\<close>

section \<open>The state machine\<close>

abbreviation waiting :: "'s session \<Rightarrow> uuid set" where
  "waiting s \<equiv> fst ` set (wakers s)"

text \<open>The sleeping receivers that a list of wakers wakes; \<open>wk i\<close> is the waker of the task that polls
  receiver \<open>i\<close>.\<close>

definition roused :: "(uuid \<Rightarrow> waker) \<Rightarrow> waker list \<Rightarrow> uuid set \<Rightarrow> uuid set" where
  "roused wk ws A = {i \<in> A. wk i \<in> set ws}"

inductive rstep ::
    "('b, 'h, 's) env \<Rightarrow> (uuid \<Rightarrow> waker) \<Rightarrow> 's session \<times> uuid set \<times> uuid set \<Rightarrow>
       's session \<times> uuid set \<times> uuid set \<Rightarrow> bool"
  for en :: "('b, 'h, 's) env" and wk :: "uuid \<Rightarrow> waker" where
  arrive: "Session_handle_incoming en p s = (s', ws, r) \<Longrightarrow>
    rstep en wk (s, A, W) (s', A - roused wk ws A, W \<union> roused wk ws A)"
| poll: "Receiving_poll (Receiving i) (wk i) s = (s', out) \<Longrightarrow>
    rstep en wk (s, A, W) (s', case out of Pending \<Rightarrow> insert i A | Ready _ \<Rightarrow> A - {i}, W - {i})"
| beat: "heartbeat_tick s = (s', ws) \<Longrightarrow>
    rstep en wk (s, A, W) (s', A - roused wk ws A, W \<union> roused wk ws A)"
| keep: "keepalive_tick en ch s = (s', ch') \<Longrightarrow> rstep en wk (s, A, W) (s', A, W)"
| send: "Session_send en ch s d = (s', ch', r) \<Longrightarrow> rstep en wk (s, A, W) (s', A, W)"
| close: "rstep en wk (s, A, W) (Session_close s, A, W)"

section \<open>What the other operations leave alone\<close>

lemma keepalive_tick_frame [frame_simps]:
  "messages (fst (keepalive_tick en ch s)) = messages s"
  "wakers (fst (keepalive_tick en ch s)) = wakers s"
  "dead (fst (keepalive_tick en ch s)) = dead s"
  "heartbeat (fst (keepalive_tick en ch s)) = heartbeat s"
  "heartbeat_runs (fst (keepalive_tick en ch s)) = heartbeat_runs s"
  by (auto simp: keepalive_tick_def Let_def split: prod.split res.split sum.split bool.split)

lemma Session_send_frame [frame_simps]:
  "messages (fst (Session_send en ch s d)) = messages s"
  "wakers (fst (Session_send en ch s d)) = wakers s"
  "dead (fst (Session_send en ch s d)) = dead s"
  "heartbeat (fst (Session_send en ch s d)) = heartbeat s"
  "heartbeat_runs (fst (Session_send en ch s d)) = heartbeat_runs s"
  by (auto simp: Session_send_def Let_def split: prod.split res.split sum.split)

lemma heartbeat_tick_frame [frame_simps]:
  "messages (fst (heartbeat_tick s)) = messages s" "wakers (fst (heartbeat_tick s)) = wakers s"
  "dead (fst (heartbeat_tick s)) \<longleftrightarrow> dead s \<or> (heartbeat_runs s \<and> \<not> heartbeat s)"
  by (simp_all add: heartbeat_tick_def)

text \<open>A packet either leaves queue and wakers alone or adds a message and wakes the first.\<close>

lemma handle_incoming_queue:
  assumes "Session_handle_incoming en p s = (s', ws, r)"
  shows "dead s' = dead s" and "heartbeat_runs s' = heartbeat_runs s"
    and "(messages s' = messages s \<and> wakers s' = wakers s \<and> ws = [])
      \<or> (\<exists>d. messages s' = messages s @ [d] \<and> wakers s' = tl (wakers s)
           \<and> ws = map snd (take 1 (wakers s)))"
  using assms
  by (auto simp: Session_handle_incoming_def Let_def btm_pop_first_def
      split: sum.splits raw_message.splits res.splits message.splits prod.splits list.splits)

section \<open>The invariant\<close>

text \<open>Every receiver that sleeps has its waker in the map; while the session lives the map holds no
  others, and if any sleeps, each queued message has a woken receiver of its own. When the heartbeat
  task has ended the session is dead and nobody sleeps.\<close>

definition wake_inv :: "(uuid \<Rightarrow> waker) \<Rightarrow> 's session \<times> uuid set \<times> uuid set \<Rightarrow> bool" where
  "wake_inv wk x = (case x of (s, A, W) \<Rightarrow>
     finite W \<and> A \<inter> W = {} \<and> btm_invar (wakers s) \<and> (\<forall>(i, w) \<in> set (wakers s). w = wk i)
     \<and> A \<subseteq> waiting s
     \<and> (\<not> dead s \<longrightarrow> waiting s \<subseteq> A \<and> (A \<noteq> {} \<longrightarrow> length (messages s) \<le> card W))
     \<and> (\<not> heartbeat_runs s \<longrightarrow> dead s \<and> A = {}))"

lemma wake_inv_frame:
  assumes "wake_inv wk (s, A, W)" and "messages s' = messages s" and "wakers s' = wakers s"
    and "dead s \<longrightarrow> dead s'" and "heartbeat_runs s' = heartbeat_runs s"
  shows "wake_inv wk (s', A, W)"
  using assms by (auto simp: wake_inv_def)

lemma roused_head:
  assumes "inj wk"
  shows "roused wk [wk i] A = A \<inter> {i}" and "roused wk [] A = {}"
  using assms by (auto simp: roused_def dest: injD)

lemma wake_inv_arrive:
  assumes "inj wk" and "wake_inv wk (s, A, W)" and "Session_handle_incoming en p s = (s', ws, r)"
  shows "wake_inv wk (s', A - roused wk ws A, W \<union> roused wk ws A)"
proof -
  note q = handle_incoming_queue [OF assms(3)]
  show ?thesis
  proof (cases "wakers s")
    case Nil
    then have "A = {}" using assms(2) by (auto simp: wake_inv_def)
    then show ?thesis using q assms(2) Nil by (auto simp: wake_inv_def roused_def)
  next
    case (Cons e rest)
    obtain i where e: "e = (i, wk i)" using assms(2) Cons by (cases e) (auto simp: wake_inv_def)
    have i: "i \<notin> fst ` set rest" using assms(2) Cons e by (auto simp: wake_inv_def)
    from q(3) show ?thesis
    proof
      assume "messages s' = messages s \<and> wakers s' = wakers s \<and> ws = []"
      then show ?thesis
        using wake_inv_frame [OF assms(2), of s'] q(1,2) roused_head(2) [OF assms(1)] by simp
    next
      assume "\<exists>d. messages s' = messages s @ [d] \<and> wakers s' = tl (wakers s)
        \<and> ws = map snd (take 1 (wakers s))"
      then have s': "length (messages s') = Suc (length (messages s))" "wakers s' = rest" "ws = [wk i]"
        using Cons e by auto
      have "length (messages s) \<le> card W \<Longrightarrow> i \<in> A \<Longrightarrow> Suc (length (messages s)) \<le> card (insert i W)"
        using assms(2) by (subst card_insert_disjoint) (auto simp: wake_inv_def)
      then show ?thesis
        using assms(2) q(1,2) s' Cons e i unfolding s'(3) roused_head(1) [OF assms(1)]
        by (auto simp: wake_inv_def)
    qed
  qed
qed

lemma wake_inv_poll:
  assumes "wake_inv wk (s, A, W)" and "Receiving_poll (Receiving i) (wk i) s = (s', out)"
  shows "wake_inv wk (s', case out of Pending \<Rightarrow> insert i A | Ready _ \<Rightarrow> A - {i}, W - {i})"
proof (cases "dead s")
  case True
  then show ?thesis using assms by (auto simp: wake_inv_def)
next
  case False
  show ?thesis
  proof (cases "messages s")
    case Nil
    then have "s' = s\<lparr>wakers := btm_insert i (wk i) (wakers s)\<rparr>" "out = Pending"
      using assms(2) False by auto
    then show ?thesis
      using assms(1) Nil False btm_insert_keys [of i "wk i" "wakers s"]
        btm_insert_entries [of i "wk i" "wakers s"]
      by (auto simp: wake_inv_def btm_insert_invar)
  next
    case (Cons d rest)
    then have s': "s' = s\<lparr>messages := rest, wakers := btm_remove i (wakers s)\<rparr>" "out = Ready (Ok d)"
      using assms(2) False by auto
    have "length rest \<le> card (W - {i})" if "A \<noteq> {}"
      using assms(1) that Cons False card_Diff1_le [of W i] by (cases "i \<in> W") (auto simp: wake_inv_def)
    then show ?thesis
      using assms(1) False btm_remove_subset [of i "wakers s"] btm_remove_invar [of "wakers s" i]
        btm_remove_keys [of "wakers s" i]
      by (auto simp: wake_inv_def s')
  qed
qed

lemma wake_inv_beat:
  assumes "wake_inv wk (s, A, W)" and "heartbeat_tick s = (s', ws)"
  shows "wake_inv wk (s', A - roused wk ws A, W \<union> roused wk ws A)"
proof (cases "heartbeat_runs s \<and> \<not> heartbeat s")
  case True
  then have s': "s' = s\<lparr>dead := True, heartbeat_runs := False\<rparr>" "ws = map snd (wakers s)"
    using assms(2) by (auto simp: heartbeat_tick_def)
  have "wk i \<in> snd ` set (wakers s)" if "i \<in> A" for i
  proof -
    have "i \<in> waiting s" using assms(1) that by (auto simp: wake_inv_def)
    then obtain w where w: "(i, w) \<in> set (wakers s)" by auto
    then have "w = wk i" using assms(1) by (auto simp: wake_inv_def)
    then show ?thesis using w by force
  qed
  then have "roused wk ws A = A" by (auto simp: roused_def s')
  moreover have "finite A" using assms(1) finite_subset by (fastforce simp: wake_inv_def)
  ultimately show ?thesis using assms(1) by (auto simp: wake_inv_def s')
next
  case False
  then have "wakers s' = wakers s" "messages s' = messages s" "dead s' = dead s"
      "heartbeat_runs s' = heartbeat_runs s" "roused wk ws A = {}"
    using assms(2) by (auto simp: heartbeat_tick_def roused_def split: if_splits)
  then show ?thesis using wake_inv_frame [OF assms(1), of s'] by simp
qed

lemma wake_inv_step:
  assumes "rstep en wk x y" and "inj wk" and "wake_inv wk x"
  shows "wake_inv wk y"
  using assms
proof (induction rule: rstep.induct)
  case (arrive p s s' ws r A W)
  then show ?case using wake_inv_arrive by blast
next
  case (poll i s s' out A W)
  then show ?case using wake_inv_poll by blast
next
  case (beat s s' ws A W)
  then show ?case using wake_inv_beat by blast
next
  case (keep ch s s' ch' A W)
  then have "s' = fst (keepalive_tick en ch s)" by simp
  then show ?case using wake_inv_frame [OF keep.prems(2), of s'] by (simp add: frame_simps)
next
  case (send ch s d s' ch' r A W)
  then have "s' = fst (Session_send en ch s d)" by simp
  then show ?case using wake_inv_frame [OF send.prems(2), of s'] by (simp add: frame_simps)
next
  case (close s A W)
  then show ?case using wake_inv_frame [OF close.prems(2), of "Session_close s"] by (simp add: Session_close_def)
qed

lemma wake_inv_reachable:
  "(rstep en wk)\<^sup>*\<^sup>* x y \<Longrightarrow> inj wk \<Longrightarrow> wake_inv wk x \<Longrightarrow> wake_inv wk y"
  by (induction rule: rtranclp_induct) (auto intro: wake_inv_step)

section \<open>Properties\<close>

text \<open>C9 (invariant). Whatever packets arrive, receivers poll, timers fire, sends and closes happen
  on a session since its creation, in any order: while the session lives and some receiver sleeps,
  each queued message has a receiver of its own whose waker was called since it last polled; and
  once the heartbeat task has ended no receiver sleeps. Each receiver has a task, and so a waker,
  of its own, every poll is one step, and no receiver is dropped while it waits.\<close>

theorem no_lost_wakeup:
  assumes "Session_new en sid addr lt = Ok s0" and "inj wk"
    and "(rstep en wk)\<^sup>*\<^sup>* (s0, {}, {}) (s, A, W)"
  shows "(\<not> dead s \<and> A \<noteq> {} \<longrightarrow>
      A \<inter> W = {} \<and> length (messages s) \<le> card W)
    \<and> (\<not> heartbeat_runs s \<longrightarrow> A = {})"
proof -
  have "wake_inv wk (s0, {}, {})" using Session_new_Ok [OF assms(1)] by (simp add: wake_inv_def)
  then have "wake_inv wk (s, A, W)" using wake_inv_reachable [OF assms(3,2)] by simp
  then show ?thesis by (auto simp: wake_inv_def)
qed

text \<open>The two halves of \<open>poll\<close>: looking into the queue, and registering the waker.\<close>

definition poll_try ::
    "uuid \<Rightarrow> 's session \<Rightarrow> 's session \<times> (bytes, veq_error) res option" where
  "poll_try i s =
     (if dead s then (s, Some (Err Disconnected))
      else case messages s of
             data # rest \<Rightarrow> (s\<lparr>messages := rest, wakers := btm_remove i (wakers s)\<rparr>, Some (Ok data))
           | [] \<Rightarrow> (s, None))"

definition poll_register :: "uuid \<Rightarrow> waker \<Rightarrow> 's session \<Rightarrow> 's session" where
  "poll_register i w s = s\<lparr>wakers := btm_insert i w (wakers s)\<rparr>"

lemma poll_halves:
  "Receiving_poll (Receiving i) w s =
     (case poll_try i s of
        (s1, Some r) \<Rightarrow> (s1, Ready r)
      | (s1, None) \<Rightarrow> (poll_register i w s1, Pending))"
  by (simp add: poll_try_def poll_register_def split: list.split)

text \<open>C34 (safety). The halves of \<open>poll\<close> take no common lock. When a message arrives after the
  queue was found empty and before the waker is registered, it is queued, nobody is woken, and the
  only receiver sleeps with the message in the queue.\<close>

theorem lost_wakeup_race:
  assumes "\<not> dead s" and "messages s = []" and "wakers s = []"
    and "fresh_below b n (transport s)" and "n \<noteq> u64_max" and "bears en b n (Payload d) pkt"
  shows "\<exists>s2. poll_try i s = (s, None) \<and> Session_handle_incoming en pkt s = (s2, [], Ok ())
    \<and> messages (poll_register i w s2) = [d] \<and> wakers (poll_register i w s2) = [(i, w)]"
proof -
  obtain lt where "Session_handle_incoming en pkt s =
      (fst (taken_in (Payload d) lt s), snd (taken_in (Payload d) lt s), Ok ())"
    by (rule handle_incoming_bears [OF assms(4-6)])
  then show ?thesis using assms(1-3) by (simp add: poll_try_def poll_register_def taken_in_def)
qed

lemma demo_packet:
  "bears (layout_env tag_snow) 7 0 (Payload [1])
     (SessionPacket_new 5 (put_raw (Encrypted (put_nonced (Nonced 0 (put_message (Payload [1]) @ replicate 16 7))))))"
proof -
  let ?p = "put_message (Payload [1])"
  let ?e = "put_nonced (Nonced 0 (?p @ replicate 16 7))"
  have "deserialize (raw_codec (layout_env tag_snow)) (put_raw (Encrypted ?e)) = Inr (Encrypted ?e)"
    using put_take_raw [of "Encrypted ?e"]
    by (simp add: layout_env_def layout_codec_def in_memory_def put_nonced_def)
  moreover have "carries nonced_layout tag_snow 7 0 ?p ?e"
    by (simp add: carries_def put_nonced_def in_memory_def tag_snow_def)
  moreover have "deserialize (message_codec (layout_env tag_snow)) ?p = Inr (Payload [1])"
    using put_take_message [of "Payload [1]"] by (simp add: layout_env_def layout_codec_def in_memory_def)
  ultimately show ?thesis
    by (auto simp: bears_def SessionPacket_new_def layout_env_def length_put_message
        simp del: put_raw.simps put_message.simps)
qed

text \<open>Receivers 3 and 4 wait; a message arrives and wakes the first.\<close>

theorem no_lost_wakeup_witness:
  "\<exists>s. (rstep (layout_env tag_snow) unat)\<^sup>*\<^sup>* (demo_session, {}, {}) (s, {4}, {3})
    \<and> (\<not> dead s \<and> {4 :: uuid} \<noteq> {} \<longrightarrow>
         {4 :: uuid} \<inter> {3} = {} \<and> length (messages s) \<le> card {3 :: uuid})
    \<and> (\<not> heartbeat_runs s \<longrightarrow> {4 :: uuid} = {})
    \<and> \<not> dead s \<and> messages s = [[1]] \<and> wakers s = [(4, 4)]"
proof -
  let ?rstep = "rstep (layout_env tag_snow) unat"
  let ?s1 = "demo_session\<lparr>wakers := [(3, 3)]\<rparr>" and ?s2 = "demo_session\<lparr>wakers := [(3, 3), (4, 4)]\<rparr>"
  have "?rstep (demo_session, {}, {}) (?s1, {3}, {})"
    using rstep.poll [of 3 unat demo_session ?s1 Pending "layout_env tag_snow" "{}" "{}"]
    by (simp add: demo_session_def)
  moreover have "?rstep (?s1, {3}, {}) (?s2, {4, 3}, {})"
    using rstep.poll [of 4 unat ?s1 ?s2 Pending "layout_env tag_snow" "{3}" "{}"]
    by (simp add: demo_session_def)
  moreover have "fresh_below 7 0 (transport ?s2)"
    by (simp add: fresh_below_def demo_session_def from_stateless_def LossyTransportState_new_def)
  then obtain lt where "Session_handle_incoming (layout_env tag_snow)
      (SessionPacket_new 5 (put_raw (Encrypted (put_nonced (Nonced 0 (put_message (Payload [1]) @ replicate 16 7))))))
      ?s2 = (fst (taken_in (Payload [1]) lt ?s2), snd (taken_in (Payload [1]) lt ?s2), Ok ())"
    by (rule handle_incoming_bears [OF _ _ demo_packet]) simp
  then have "?rstep (?s2, {4, 3}, {}) (fst (taken_in (Payload [1]) lt ?s2),
      {4, 3} - roused unat [3] {4, 3}, {} \<union> roused unat [3] {4, 3})"
    by (intro rstep.arrive [where ws = "[3]"]) (simp add: taken_in_def)
  moreover have "roused unat [3] {4, 3 :: uuid} = {3}" by (auto simp: roused_def)
  ultimately have reach: "?rstep\<^sup>*\<^sup>* (demo_session, {}, {}) (fst (taken_in (Payload [1]) lt ?s2), {4}, {3})"
    by (auto simp: insert_Diff_if intro!: converse_rtranclp_into_rtranclp)
  have "inj (unat :: uuid \<Rightarrow> waker)" by (rule injI) (simp add: word_unat_eq_iff)
  from no_lost_wakeup [OF demo_session_new this reach] reach show ?thesis
    by (intro exI [of _ "fst (taken_in (Payload [1]) lt ?s2)"])
      (simp add: taken_in_def demo_session_def)
qed

theorem lost_wakeup_race_witness:
  "\<exists>s2. poll_try 3 demo_session = (demo_session, None)
    \<and> Session_handle_incoming (layout_env tag_snow)
        (SessionPacket_new 5 (put_raw (Encrypted (put_nonced (Nonced 0 (put_message (Payload [1]) @ replicate 16 7))))))
        demo_session = (s2, [], Ok ())
    \<and> messages (poll_register 3 9 s2) = [[1]] \<and> wakers (poll_register 3 9 s2) = [(3, 9)]"
  by (rule lost_wakeup_race [OF _ _ _ _ _ demo_packet])
    (simp_all add: demo_session_def fresh_below_def from_stateless_def LossyTransportState_new_def)

end
