(* ===== verification/Handler.thy ===== *)
theory Handler
  imports Session
begin

text \<open>
  \<open>src/src/handler.rs\<close>: the table of sessions, which dispatches incoming packets, moves a session
  through its stages and removes it. The state holds the four \<open>HashMap\<close>s, the cells of all
  sessions ever established (they outlive their entry: futures and tasks still refer to them), the
  cells behind each \<open>SessionReady\<close>, and the removals that were spawned and have not run. Each
  definition is one call that runs without interruption, and \<open>closer_tick\<close> lets a spawned removal run
  at any later point. The maps are locked one after the other in the code: \<open>HandlerLocks\<close> has the
  sections between the locks.
\<close>

section \<open>State\<close>

text \<open>What \<open>SessionReady\<close> shares with its entry: the number of unread \<open>()\<close> in the broadcast
  channel, whether the receiver exists, and the wakers.\<close>

record ready_cell =
  notices :: nat
  receiver_alive :: bool
  ready_wakers :: "waker list"

type_synonym 'p pending_entry = "'p \<times> one_time_id \<times> nat"

record ('h, 's) handler =
  rt :: runtime
  pokers :: "session_id \<Rightarrow> 'h poker pending_entry option"
  initiators :: "session_id \<Rightarrow> 'h initiator pending_entry option"
  responders :: "session_id \<Rightarrow> 's responder pending_entry option"
  established :: "session_id \<Rightarrow> (one_time_id \<times> nat) option"
  keypair :: snow_keypair
  sessions :: "nat \<Rightarrow> 's session option"
  next_session :: nat
  cells :: "nat \<Rightarrow> ready_cell"
  next_cell :: nat
  closing :: "(session_id \<times> one_time_id) list"

definition Handler_new :: "snow_keypair \<Rightarrow> ('h, 's) handler" where
  "Handler_new kp =
     \<lparr>rt = \<lparr>outgoing = \<lparr>chan_open = True, chan_queue = []\<rparr>, tasks = (\<lambda>_. None), next_task = 0,
           woken = []\<rparr>,
      pokers = (\<lambda>_. None), initiators = (\<lambda>_. None), responders = (\<lambda>_. None),
      established = (\<lambda>_. None), keypair = kp, sessions = (\<lambda>_. None), next_session = 0,
      cells = (\<lambda>_. \<lparr>notices = 0, receiver_alive = False, ready_wakers = []\<rparr>), next_cell = 0,
      closing = []\<rparr>"

text \<open>Dropping a \<open>Session\<close> closes it.\<close>

definition drop_session :: "nat \<Rightarrow> ('h, 's) handler \<Rightarrow> ('h, 's) handler" where
  "drop_session r st = st\<lparr>sessions := (sessions st)(r := map_option Session_close (sessions st r))\<rparr>"

text \<open>\<open>established_sessions.remove(&id)\<close>: the removed value is dropped.\<close>

definition remove_established :: "session_id \<Rightarrow> ('h, 's) handler \<Rightarrow> ('h, 's) handler" where
  "remove_established sid st =
     (case established st sid of
        None \<Rightarrow> st
      | Some (_, r) \<Rightarrow> drop_session r (st\<lparr>established := (established st)(sid := None)\<rparr>))"

section \<open>SessionReady\<close>

record session_ready =
  sr_id :: session_id
  sr_one_time_id :: one_time_id
  sr_cell :: nat
  added_waker :: bool
  completed :: bool

definition SessionReady_new :: "session_id \<Rightarrow> one_time_id \<Rightarrow> nat \<Rightarrow> session_ready" where
  "SessionReady_new sid otid c =
     \<lparr>sr_id = sid, sr_one_time_id = otid, sr_cell = c, added_waker = False, completed = False\<rparr>"

definition SessionReady_poll ::
    "waker \<Rightarrow> session_ready \<Rightarrow> ('h, 's) handler \<Rightarrow>
       session_ready \<times> ('h, 's) handler \<times> (session_id \<times> one_time_id) poll" where
  "SessionReady_poll w sr st =
     (let c = cells st (sr_cell sr)
      in if 0 < notices c
         then (sr\<lparr>completed := True\<rparr>,
               st\<lparr>cells := (cells st)(sr_cell sr := c\<lparr>notices := notices c - 1\<rparr>)\<rparr>,
               Ready (sr_id sr, sr_one_time_id sr))
         else if \<not> added_waker sr
         then (sr\<lparr>added_waker := True\<rparr>,
               st\<lparr>cells := (cells st)(sr_cell sr := c\<lparr>ready_wakers := ready_wakers c @ [w]\<rparr>)\<rparr>,
               Pending)
         else (sr, st, Pending))"

text \<open>\<open>close_session\<close> spawns the removal.\<close>

definition close_session :: "session_id \<Rightarrow> one_time_id \<Rightarrow> ('h, 's) handler \<Rightarrow> ('h, 's) handler" where
  "close_session sid otid st = st\<lparr>closing := closing st @ [(sid, otid)]\<rparr>"

definition SessionReady_drop :: "session_ready \<Rightarrow> ('h, 's) handler \<Rightarrow> ('h, 's) handler" where
  "SessionReady_drop sr st =
     (let st1 = st\<lparr>cells := (cells st)(sr_cell sr := (cells st (sr_cell sr))\<lparr>receiver_alive := False\<rparr>)\<rparr>
      in if completed sr then st1 else close_session (sr_id sr) (sr_one_time_id sr) st1)"

section \<open>Incoming packets\<close>

definition upgrade_session ::
    "session_id \<Rightarrow> one_time_id \<Rightarrow> 's session \<Rightarrow> nat \<Rightarrow> ('h, 's) handler \<Rightarrow>
       ('h, 's) handler \<times> (unit, unit) res" where
  "upgrade_session sid otid s c st =
     (let st0 = remove_established sid st;
          r = next_session st0;
          st1 = st0\<lparr>established := (established st0)(sid \<mapsto> (otid, r)),
                    sessions := (sessions st0)(r \<mapsto> s), next_session := Suc r\<rparr>;
          cell = cells st1 c
      in if receiver_alive cell
         then (st1\<lparr>cells := (cells st1)(c := cell\<lparr>notices := Suc (notices cell)\<rparr>),
                   rt := wake (ready_wakers cell) (rt st1)\<rparr>, Ok ())
         else (st1, Err ()))"

text \<open>The three stages; each gets the state without the entry it works on.\<close>

definition incoming_poker ::
    "('b, 'h, 's) env \<Rightarrow> socket_addr \<Rightarrow> session_packet \<Rightarrow> 'h poker pending_entry \<Rightarrow>
       ('h, 's) handler \<Rightarrow> ('h, 's) handler \<times> (unit, bincode_error) res" where
  "incoming_poker en src packet entry st =
     (case entry of (p, otid, c) \<Rightarrow>
        (case poker_handle_incoming en src packet (rt st) p of
           (rt1, p1) \<Rightarrow>
             (if poker_is_ready p1
              then (case poker_into_responder en p1 rt1 of
                      (rt2, Ok r) \<Rightarrow>
                        (st\<lparr>rt := rt2,
                            responders := (responders st)(packet_id packet \<mapsto> (r, otid, c))\<rparr>, Ok ())
                    | (rt2, Err e) \<Rightarrow> (st\<lparr>rt := rt2\<rparr>, Ok ())
                    | (rt2, Panic x) \<Rightarrow> (st\<lparr>rt := rt2\<rparr>, Panic x))
              else (st\<lparr>rt := rt1, pokers := (pokers st)(packet_id packet \<mapsto> (p1, otid, c))\<rparr>, Ok ()))))"

definition incoming_initiator ::
    "('b, 'h, 's) env \<Rightarrow> socket_addr \<Rightarrow> session_packet \<Rightarrow> 'h initiator pending_entry \<Rightarrow>
       ('h, 's) handler \<Rightarrow> ('h, 's) handler \<times> (unit, bincode_error) res" where
  "incoming_initiator en src packet entry st =
     (case entry of (p, otid, c) \<Rightarrow>
        (case initiator_handle_incoming en src packet (rt st) p of
           (rt1, p1) \<Rightarrow>
             (if initiator_is_ready p1
              then (case initiator_session en p1 rt1 of
                      (rt2, Ok (SessionOk s)) \<Rightarrow>
                        (fst (upgrade_session (packet_id packet) otid s c (st\<lparr>rt := rt2\<rparr>)), Ok ())
                    | (rt2, Ok (SessionErr p2)) \<Rightarrow>
                        (st\<lparr>rt := rt2,
                            initiators := (initiators st)(packet_id packet \<mapsto> (p2, otid, c))\<rparr>, Ok ())
                    | (rt2, Err e) \<Rightarrow> (st\<lparr>rt := rt2\<rparr>, Ok ())
                    | (rt2, Panic x) \<Rightarrow> (st\<lparr>rt := rt2\<rparr>, Panic x))
              else (st\<lparr>rt := rt1, initiators := (initiators st)(packet_id packet \<mapsto> (p1, otid, c))\<rparr>,
                    Ok ()))))"

definition incoming_responder ::
    "('b, 'h, 's) env \<Rightarrow> socket_addr \<Rightarrow> session_packet \<Rightarrow> 's responder pending_entry \<Rightarrow>
       ('h, 's) handler \<Rightarrow> ('h, 's) handler \<times> (unit, bincode_error) res" where
  "incoming_responder en src packet entry st =
     (case entry of (r, otid, c) \<Rightarrow>
        (case responder_handle_incoming en src packet (rt st) r of
           (rt1, r1, Panic x) \<Rightarrow> (st\<lparr>rt := rt1\<rparr>, Panic x)
         | (rt1, r1, _) \<Rightarrow>
             (if responder_is_ready r1
              then (case responder_session en r1 rt1 of
                      (rt2, Ok s) \<Rightarrow>
                        (fst (upgrade_session (packet_id packet) otid s c (st\<lparr>rt := rt2\<rparr>)), Ok ())
                    | (rt2, Err e) \<Rightarrow> (st\<lparr>rt := rt2\<rparr>, Ok ())
                    | (rt2, Panic x) \<Rightarrow> (st\<lparr>rt := rt2\<rparr>, Panic x))
              else (st\<lparr>rt := rt1, responders := (responders st)(packet_id packet \<mapsto> (r1, otid, c))\<rparr>,
                    Ok ()))))"

definition incoming_established ::
    "('b, 'h, 's) env \<Rightarrow> session_packet \<Rightarrow> ('h, 's) handler \<Rightarrow>
       ('h, 's) handler \<times> (unit, bincode_error) res" where
  "incoming_established en packet st =
     (case established st (packet_id packet) of
        None \<Rightarrow> (st, Ok ())
      | Some (_, r) \<Rightarrow>
          (case sessions st r of
             None \<Rightarrow> (st, Ok ())
           | Some s \<Rightarrow>
               (case Session_handle_incoming en packet s of
                  (s1, ws, res) \<Rightarrow>
                    (st\<lparr>sessions := (sessions st)(r \<mapsto> s1), rt := wake ws (rt st)\<rparr>,
                     (case res of Panic x \<Rightarrow> Panic x | _ \<Rightarrow> Ok ())))))"

definition Handler_handle_incoming ::
    "('b, 'h, 's) env \<Rightarrow> socket_addr \<Rightarrow> bytes \<Rightarrow> ('h, 's) handler \<Rightarrow>
       ('h, 's) handler \<times> (unit, bincode_error) res" where
  "Handler_handle_incoming en src data st =
     (case deserialize (packet_codec en) data of
        Inl e \<Rightarrow> (st, Err e)
      | Inr packet \<Rightarrow>
          (let sid = packet_id packet
           in case pokers st sid of
                Some entry \<Rightarrow>
                  incoming_poker en src packet entry (st\<lparr>pokers := (pokers st)(sid := None)\<rparr>)
              | None \<Rightarrow>
                  (case initiators st sid of
                     Some entry \<Rightarrow>
                       incoming_initiator en src packet entry
                         (st\<lparr>initiators := (initiators st)(sid := None)\<rparr>)
                   | None \<Rightarrow>
                       (case responders st sid of
                          Some entry \<Rightarrow>
                            incoming_responder en src packet entry
                              (st\<lparr>responders := (responders st)(sid := None)\<rparr>)
                        | None \<Rightarrow> incoming_established en packet st))))"

section \<open>The calls of the application\<close>

definition Handler_send ::
    "('b, 'h, 's) env \<Rightarrow> session_id \<Rightarrow> bytes \<Rightarrow> ('h, 's) handler \<Rightarrow>
       ('h, 's) handler \<times> (unit, anyhow_error) res" where
  "Handler_send en sid data st =
     (case Option.bind (established st sid) (\<lambda>(_, r). map_option (Pair r) (sessions st r)) of
        None \<Rightarrow> (st, Err (Anyhow ''SessionId is not in established sessions''))
      | Some (r, s) \<Rightarrow>
          (case Session_send en (outgoing (rt st)) s data of
             (s1, ch, res) \<Rightarrow>
               (st\<lparr>sessions := (sessions st)(r \<mapsto> s1), rt := (rt st)\<lparr>outgoing := ch\<rparr>\<rparr>, res)))"

text \<open>The future returned is a \<open>Receiving\<close> on the session with the number returned.\<close>

definition Handler_recv_from ::
    "session_id \<Rightarrow> uuid \<Rightarrow> ('h, 's) handler \<Rightarrow> ('h, 's) handler \<times> (nat \<times> receiving) option" where
  "Handler_recv_from sid fresh st =
     (case Option.bind (established st sid) (\<lambda>(_, r). map_option (Pair r) (sessions st r)) of
        None \<Rightarrow> (st, None)
      | Some (r, s) \<Rightarrow>
          (if Session_is_dead s then (remove_established sid st, None)
           else (st, map_option (Pair r) (Session_recv fresh s))))"

definition Handler_remote_addr :: "session_id \<Rightarrow> ('h, 's) handler \<Rightarrow> socket_addr option" where
  "Handler_remote_addr sid st =
     Option.bind (established st sid) (\<lambda>(_, r). map_option remote_addr (sessions st r))"

text \<open>\<open>remove_session\<close>, one block of the method each. Without a one-time id the entry goes
  whatever it is, with one only if it is the entry's.\<close>

definition id_matches :: "one_time_id option \<Rightarrow> one_time_id \<Rightarrow> bool" where
  "id_matches otid current = (case otid of None \<Rightarrow> True | Some i \<Rightarrow> i = current)"

definition remove_if_established ::
    "session_id \<Rightarrow> one_time_id option \<Rightarrow> ('h, 's) handler \<Rightarrow> ('h, 's) handler" where
  "remove_if_established sid otid st =
     (case established st sid of
        Some (current, _) \<Rightarrow> if id_matches otid current then remove_established sid st else st
      | None \<Rightarrow> st)"

definition remove_if_responder ::
    "session_id \<Rightarrow> one_time_id option \<Rightarrow> ('h, 's) handler \<Rightarrow> ('h, 's) handler" where
  "remove_if_responder sid otid st =
     (case responders st sid of
        Some (r, current, _) \<Rightarrow>
          if id_matches otid current
          then st\<lparr>responders := (responders st)(sid := None), rt := responder_abort r (rt st)\<rparr> else st
      | None \<Rightarrow> st)"

definition remove_if_poker ::
    "session_id \<Rightarrow> one_time_id option \<Rightarrow> ('h, 's) handler \<Rightarrow> ('h, 's) handler" where
  "remove_if_poker sid otid st =
     (case pokers st sid of
        Some (p, current, _) \<Rightarrow>
          if id_matches otid current
          then st\<lparr>pokers := (pokers st)(sid := None), rt := poker_abort p (rt st)\<rparr> else st
      | None \<Rightarrow> st)"

definition remove_if_initiator ::
    "session_id \<Rightarrow> one_time_id option \<Rightarrow> ('h, 's) handler \<Rightarrow> ('h, 's) handler" where
  "remove_if_initiator sid otid st =
     (case initiators st sid of
        Some (p, current, _) \<Rightarrow>
          if id_matches otid current
          then st\<lparr>initiators := (initiators st)(sid := None), rt := initiator_abort p (rt st)\<rparr> else st
      | None \<Rightarrow> st)"

definition remove_session ::
    "session_id \<Rightarrow> one_time_id option \<Rightarrow> ('h, 's) handler \<Rightarrow> ('h, 's) handler" where
  "remove_session sid otid st =
     remove_if_initiator sid otid (remove_if_poker sid otid (remove_if_responder sid otid
       (remove_if_established sid otid st)))"

text \<open>A removal spawned by \<open>close_session\<close> runs.\<close>

definition closer_tick :: "nat \<Rightarrow> ('h, 's) handler \<Rightarrow> ('h, 's) handler" where
  "closer_tick k st =
     (if k < length (closing st)
      then (case closing st ! k of (sid, otid) \<Rightarrow>
              remove_session sid (Some otid)
                (st\<lparr>closing := take k (closing st) @ drop (Suc k) (closing st)\<rparr>))
      else st)"

definition new_cell :: "('h, 's) handler \<Rightarrow> ('h, 's) handler" where
  "new_cell st =
     st\<lparr>cells := (cells st)(next_cell st := \<lparr>notices = 0, receiver_alive = True, ready_wakers = []\<rparr>),
        next_cell := Suc (next_cell st)\<rparr>"

definition Handler_initiate ::
    "('b, 'h, 's) env \<Rightarrow> uuid \<Rightarrow> session_id \<Rightarrow> connection_info \<Rightarrow> ('h, 's) handler \<Rightarrow>
       ('h, 's) handler \<times> (session_ready, snow_error) res" where
  "Handler_initiate en fresh sid info st =
     (let st1 = remove_session sid None st
      in case SnowInitiator_new (snow_of en) (keypair st1) (public_key info) of
           Ok ini \<Rightarrow>
             (case PendingSessionInitiator_new sid info ini (rt st1) of
                (rt2, pending) \<Rightarrow>
                  (let c = next_cell st1;
                       st2 = new_cell (st1\<lparr>rt := rt2\<rparr>)
                   in (st2\<lparr>initiators := (initiators st2)(sid \<mapsto> (pending, fresh, c))\<rparr>,
                       Ok (SessionReady_new sid fresh c))))
         | Err e \<Rightarrow> (st1, Err e)
         | Panic x \<Rightarrow> (st1, Panic x))"

definition Handler_respond ::
    "('b, 'h, 's) env \<Rightarrow> uuid \<Rightarrow> session_id \<Rightarrow> connection_info \<Rightarrow> ('h, 's) handler \<Rightarrow>
       ('h, 's) handler \<times> (session_ready, snow_error) res" where
  "Handler_respond en fresh sid info st =
     (let st1 = remove_session sid None st
      in case SnowResponder_new (snow_of en) (keypair st1) (public_key info) of
           Ok rsp \<Rightarrow>
             (case PendingSessionPoker_new sid info rsp (rt st1) of
                (rt2, poking) \<Rightarrow>
                  (let c = next_cell st1;
                       st2 = new_cell (st1\<lparr>rt := rt2\<rparr>)
                   in (st2\<lparr>pokers := (pokers st2)(sid \<mapsto> (poking, fresh, c))\<rparr>,
                       Ok (SessionReady_new sid fresh c))))
         | Err e \<Rightarrow> (st1, Err e)
         | Panic x \<Rightarrow> (st1, Panic x))"

section \<open>The background tasks\<close>

text \<open>A turn of the keepalive or the heartbeat task of session \<open>r\<close>, and a poll of one of its
  receivers, on the session's cells.\<close>

definition session_keepalive :: "('b, 'h, 's) env \<Rightarrow> nat \<Rightarrow> ('h, 's) handler \<Rightarrow> ('h, 's) handler" where
  "session_keepalive en r st =
     (case sessions st r of
        None \<Rightarrow> st
      | Some s \<Rightarrow>
          (case keepalive_tick en (outgoing (rt st)) s of
             (s1, ch) \<Rightarrow> st\<lparr>sessions := (sessions st)(r \<mapsto> s1), rt := (rt st)\<lparr>outgoing := ch\<rparr>\<rparr>))"

definition session_heartbeat :: "nat \<Rightarrow> ('h, 's) handler \<Rightarrow> ('h, 's) handler" where
  "session_heartbeat r st =
     (case sessions st r of
        None \<Rightarrow> st
      | Some s \<Rightarrow>
          (case heartbeat_tick s of
             (s1, ws) \<Rightarrow> st\<lparr>sessions := (sessions st)(r \<mapsto> s1), rt := wake ws (rt st)\<rparr>))"

definition session_poll ::
    "nat \<Rightarrow> receiving \<Rightarrow> waker \<Rightarrow> ('h, 's) handler \<Rightarrow>
       ('h, 's) handler \<times> (bytes, veq_error) res poll" where
  "session_poll r f w st =
     (case sessions st r of
        None \<Rightarrow> (st, Ready (Err Disconnected))
      | Some s \<Rightarrow>
          (case Receiving_poll f w s of
             (s1, out) \<Rightarrow> (st\<lparr>sessions := (sessions st)(r \<mapsto> s1)\<rparr>, out)))"

definition handler_announce :: "('b, 'h, 's) env \<Rightarrow> task_id \<Rightarrow> ('h, 's) handler \<Rightarrow> ('h, 's) handler" where
  "handler_announce en h st = st\<lparr>rt := announce_tick en h (rt st)\<rparr>"

end
