(* ===== verification/HandlerInv.thy ===== *)
theory HandlerInv
  imports Handler
begin

text \<open>
  The handler as a state machine over all its operations: in every reachable state an identifier
  is in at most one of the four maps, every announcing task that still runs belongs to the pending
  entry of its identifier, and sessions are not shared. Each operation moves one identifier along
  the stages of the protocol and leaves every other one alone.
\<close>

section \<open>The stages of an identifier\<close>

datatype stage = Poking | Initiating | Responding | Established

definition view :: "('h, 's) handler \<Rightarrow> session_id \<Rightarrow> (stage \<times> one_time_id) option" where
  "view st i =
     (case pokers st i of Some (_, n, _) \<Rightarrow> Some (Poking, n) | None \<Rightarrow>
      case initiators st i of Some (_, n, _) \<Rightarrow> Some (Initiating, n) | None \<Rightarrow>
      case responders st i of Some (_, n, _) \<Rightarrow> Some (Responding, n) | None \<Rightarrow>
      case established st i of Some (n, _) \<Rightarrow> Some (Established, n) | None \<Rightarrow> None)"

definition exclusive :: "('h, 's) handler \<Rightarrow> session_id \<Rightarrow> bool" where
  "exclusive st i \<longleftrightarrow>
     (pokers st i \<noteq> None \<longrightarrow> initiators st i = None \<and> responders st i = None \<and> established st i = None)
     \<and> (initiators st i \<noteq> None \<longrightarrow> responders st i = None \<and> established st i = None)
     \<and> (responders st i \<noteq> None \<longrightarrow> established st i = None)"

text \<open>The task of a pending entry.\<close>

definition task_of :: "('h, 's) handler \<Rightarrow> session_id \<Rightarrow> task_id option" where
  "task_of st i =
     (case pokers st i of Some (p, _) \<Rightarrow> Some (poker_handle p) | None \<Rightarrow>
      case initiators st i of Some (p, _) \<Rightarrow> Some (ini_handle p) | None \<Rightarrow>
      case responders st i of Some (r, _) \<Rightarrow> Some (rsp_handle r) | None \<Rightarrow> None)"

text \<open>The four maps agree on \<open>i\<close>.\<close>

definition same_at :: "session_id \<Rightarrow> ('h, 's) handler \<Rightarrow> ('h, 's) handler \<Rightarrow> bool" where
  "same_at i st st' \<longleftrightarrow>
     pokers st' i = pokers st i \<and> initiators st' i = initiators st i
     \<and> responders st' i = responders st i \<and> established st' i = established st i"

lemma same_at_refl [simp]: "same_at i st st"
  by (simp add: same_at_def)

lemma same_at_trans: "same_at i a b \<Longrightarrow> same_at i b c \<Longrightarrow> same_at i a c"
  by (simp add: same_at_def)

lemma same_at_view: "same_at i st st' \<Longrightarrow> view st' i = view st i"
  by (simp add: same_at_def view_def cong: option.case_cong)

lemma same_at_exclusive: "same_at i st st' \<Longrightarrow> exclusive st' i = exclusive st i"
  by (simp add: same_at_def exclusive_def)

lemma same_at_task_of: "same_at i st st' \<Longrightarrow> task_of st' i = task_of st i"
  by (simp add: same_at_def task_of_def cong: option.case_cong)

section \<open>Removal\<close>

lemma remove_established_maps [frame_simps]:
  "pokers (remove_established sid st) = pokers st"
  "initiators (remove_established sid st) = initiators st"
  "responders (remove_established sid st) = responders st"
  "established (remove_established sid st) = (established st)(sid := None)"
  "rt (remove_established sid st) = rt st" "cells (remove_established sid st) = cells st"
  "next_session (remove_established sid st) = next_session st"
  "keypair (remove_established sid st) = keypair st"
  "next_cell (remove_established sid st) = next_cell st"
  by (auto simp: remove_established_def drop_session_def split: option.split)

lemmas remove_block_defs =
  remove_if_established_def remove_if_responder_def remove_if_poker_def remove_if_initiator_def
  responder_abort_def poker_abort_def initiator_abort_def

text \<open>The entry that removal leaves.\<close>

definition kept :: "one_time_id option \<Rightarrow> ('e \<Rightarrow> one_time_id) \<Rightarrow> 'e option \<Rightarrow> 'e option" where
  "kept otid num e = (case e of None \<Rightarrow> None | Some x \<Rightarrow> if id_matches otid (num x) then None else Some x)"

lemma remove_established_block [frame_simps]:
  "established (remove_if_established sid otid st) =
     (established st)(sid := kept otid fst (established st sid))"
  "pokers (remove_if_established sid otid st) = pokers st"
  "initiators (remove_if_established sid otid st) = initiators st"
  "responders (remove_if_established sid otid st) = responders st"
  "rt (remove_if_established sid otid st) = rt st"
  "keypair (remove_if_established sid otid st) = keypair st"
  "cells (remove_if_established sid otid st) = cells st"
  "next_session (remove_if_established sid otid st) = next_session st"
  "next_cell (remove_if_established sid otid st) = next_cell st"
  by (auto simp: remove_if_established_def kept_def frame_simps fun_upd_idem split: option.split)

lemma remove_responder_block [frame_simps]:
  "responders (remove_if_responder sid otid st) =
     (responders st)(sid := kept otid (fst \<circ> snd) (responders st sid))"
  "pokers (remove_if_responder sid otid st) = pokers st"
  "initiators (remove_if_responder sid otid st) = initiators st"
  "established (remove_if_responder sid otid st) = established st"
  "keypair (remove_if_responder sid otid st) = keypair st"
  "cells (remove_if_responder sid otid st) = cells st"
  "sessions (remove_if_responder sid otid st) = sessions st"
  "next_session (remove_if_responder sid otid st) = next_session st"
  "next_cell (remove_if_responder sid otid st) = next_cell st"
  by (auto simp: remove_if_responder_def kept_def fun_upd_idem split: option.split)

lemma remove_poker_block [frame_simps]:
  "pokers (remove_if_poker sid otid st) =
     (pokers st)(sid := kept otid (fst \<circ> snd) (pokers st sid))"
  "responders (remove_if_poker sid otid st) = responders st"
  "initiators (remove_if_poker sid otid st) = initiators st"
  "established (remove_if_poker sid otid st) = established st"
  "keypair (remove_if_poker sid otid st) = keypair st"
  "cells (remove_if_poker sid otid st) = cells st"
  "sessions (remove_if_poker sid otid st) = sessions st"
  "next_session (remove_if_poker sid otid st) = next_session st"
  "next_cell (remove_if_poker sid otid st) = next_cell st"
  by (auto simp: remove_if_poker_def kept_def fun_upd_idem split: option.split)

lemma remove_initiator_block [frame_simps]:
  "initiators (remove_if_initiator sid otid st) =
     (initiators st)(sid := kept otid (fst \<circ> snd) (initiators st sid))"
  "responders (remove_if_initiator sid otid st) = responders st"
  "pokers (remove_if_initiator sid otid st) = pokers st"
  "established (remove_if_initiator sid otid st) = established st"
  "keypair (remove_if_initiator sid otid st) = keypair st"
  "cells (remove_if_initiator sid otid st) = cells st"
  "sessions (remove_if_initiator sid otid st) = sessions st"
  "next_session (remove_if_initiator sid otid st) = next_session st"
  "next_cell (remove_if_initiator sid otid st) = next_cell st"
  by (auto simp: remove_if_initiator_def kept_def fun_upd_idem split: option.split)

lemma remove_session_maps [frame_simps]:
  "pokers (remove_session sid otid st) = (pokers st)(sid := kept otid (fst \<circ> snd) (pokers st sid))"
  "initiators (remove_session sid otid st) =
     (initiators st)(sid := kept otid (fst \<circ> snd) (initiators st sid))"
  "responders (remove_session sid otid st) =
     (responders st)(sid := kept otid (fst \<circ> snd) (responders st sid))"
  "established (remove_session sid otid st) =
     (established st)(sid := kept otid fst (established st sid))"
  "keypair (remove_session sid otid st) = keypair st"
  "cells (remove_session sid otid st) = cells st"
  "next_session (remove_session sid otid st) = next_session st"
  "next_cell (remove_session sid otid st) = next_cell st"
  by (simp_all add: remove_session_def frame_simps)

lemma kept_None [simp]: "kept None num e = None"
  by (simp add: kept_def id_matches_def split: option.split)

lemma kept_none [simp]: "kept otid num None = None"
  by (simp add: kept_def)

lemma kept_cases: "kept otid num e = e \<or> kept otid num e = None"
  by (simp add: kept_def split: option.split)

lemma remove_session_other: "i \<noteq> sid \<Longrightarrow> same_at i st (remove_session sid otid st)"
  by (simp add: same_at_def frame_simps)

lemma remove_session_at:
  assumes "exclusive st sid"
  shows "view (remove_session sid otid st) sid = view st sid
         \<or> view (remove_session sid otid st) sid = None"
    and "exclusive (remove_session sid otid st) sid"
proof -
  show "exclusive (remove_session sid otid st) sid"
    using assms kept_cases unfolding exclusive_def frame_simps fun_upd_same by (metis kept_none)
  show "view (remove_session sid otid st) sid = view st sid
         \<or> view (remove_session sid otid st) sid = None"
    using assms by (auto simp: exclusive_def view_def frame_simps kept_def split: option.splits)
qed

text \<open>A removal with the one-time id of an earlier session changes nothing.\<close>

lemma remove_blocks_stale:
  "\<forall>r. established st sid \<noteq> Some (otid, r) \<Longrightarrow> remove_if_established sid (Some otid) st = st"
  "\<forall>p c. responders st sid \<noteq> Some (p, otid, c) \<Longrightarrow> remove_if_responder sid (Some otid) st = st"
  "\<forall>p c. pokers st sid \<noteq> Some (p, otid, c) \<Longrightarrow> remove_if_poker sid (Some otid) st = st"
  "\<forall>p c. initiators st sid \<noteq> Some (p, otid, c) \<Longrightarrow> remove_if_initiator sid (Some otid) st = st"
  by (auto simp: remove_block_defs id_matches_def split: option.split)

lemma view_iff:
  assumes "exclusive st i"
  shows "view st i = Some (Poking, n) \<longleftrightarrow> (\<exists>p c. pokers st i = Some (p, n, c))"
    and "view st i = Some (Initiating, n) \<longleftrightarrow> (\<exists>p c. initiators st i = Some (p, n, c))"
    and "view st i = Some (Responding, n) \<longleftrightarrow> (\<exists>p c. responders st i = Some (p, n, c))"
    and "view st i = Some (Established, n) \<longleftrightarrow> (\<exists>r. established st i = Some (n, r))"
  using assms
  by (cases "pokers st i"; cases "initiators st i"; cases "responders st i";
      cases "established st i"; simp add: view_def exclusive_def split_beta prod_eq_iff)+

lemma remove_session_stale:
  assumes "exclusive st sid" and "\<forall>x. view st sid \<noteq> Some (x, otid)"
  shows "remove_session sid (Some otid) st = st"
  using assms(2) view_iff [OF assms(1), of otid]
  by (simp add: remove_session_def remove_blocks_stale)

section \<open>Packets\<close>

lemma upgrade_session_maps [frame_simps]:
  "pokers (fst (upgrade_session sid n s c st)) = pokers st"
  "initiators (fst (upgrade_session sid n s c st)) = initiators st"
  "responders (fst (upgrade_session sid n s c st)) = responders st"
  "established (fst (upgrade_session sid n s c st)) = (established st)(sid \<mapsto> (n, next_session st))"
  "tasks (rt (fst (upgrade_session sid n s c st))) = tasks (rt st)"
  "next_task (rt (fst (upgrade_session sid n s c st))) = next_task (rt st)"
  by (auto simp: upgrade_session_def frame_simps Let_def)

lemmas incoming_defs =
  incoming_poker_def incoming_initiator_def incoming_responder_def incoming_established_def

lemma incoming_poker_other:
  "i \<noteq> packet_id packet \<Longrightarrow> same_at i st (fst (incoming_poker en src packet e st))"
  by (simp add: incoming_poker_def same_at_def split: prod.split res.split)

lemma incoming_initiator_other:
  "i \<noteq> packet_id packet \<Longrightarrow> same_at i st (fst (incoming_initiator en src packet e st))"
  by (simp add: incoming_initiator_def same_at_def upgrade_session_maps
      split: prod.split res.split session_result.split)

lemma incoming_responder_other:
  "i \<noteq> packet_id packet \<Longrightarrow> same_at i st (fst (incoming_responder en src packet e st))"
  by (simp add: incoming_responder_def same_at_def upgrade_session_maps split: prod.split res.split)

lemma incoming_established_maps: "same_at i st (fst (incoming_established en packet st))"
  by (simp add: incoming_established_def same_at_def split: prod.split option.split)

lemmas incoming_other = incoming_poker_other incoming_initiator_other incoming_responder_other
  incoming_established_maps

lemma handle_incoming_other:
  assumes "\<And>packet. deserialize (packet_codec en) data = Inr packet \<Longrightarrow> i \<noteq> packet_id packet"
  shows "same_at i st (fst (Handler_handle_incoming en src data st))"
proof (cases "deserialize (packet_codec en) data")
  case (Inr packet)
  then have i: "i \<noteq> packet_id packet" using assms by simp
  have "same_at i st (st\<lparr>pokers := (pokers st)(packet_id packet := None)\<rparr>)"
    and "same_at i st (st\<lparr>initiators := (initiators st)(packet_id packet := None)\<rparr>)"
    and "same_at i st (st\<lparr>responders := (responders st)(packet_id packet := None)\<rparr>)"
    using i by (simp_all add: same_at_def)
  note gone = this [THEN same_at_trans]
  show ?thesis
    by (simp add: Handler_handle_incoming_def Inr Let_def gone incoming_other i
        split: option.split)
qed (simp add: Handler_handle_incoming_def)

text \<open>The moves along the protocol that a packet for the identifier can cause.\<close>

inductive advances :: "(stage \<times> one_time_id) option \<Rightarrow> (stage \<times> one_time_id) option \<Rightarrow> bool" where
  stays: "advances v v"
| initiation_received: "advances (Some (Poking, n)) (Some (Responding, n))"
| response_received: "advances (Some (Initiating, n)) (Some (Established, n))"
| confirmed: "advances (Some (Responding, n)) (Some (Established, n))"
| failed: "x \<noteq> Established \<Longrightarrow> advances (Some (x, n)) None"

lemma incoming_poker_at:
  assumes "pokers st i = None" "initiators st i = None" "responders st i = None" "established st i = None"
    and "packet_id packet = i"
  shows "advances (Some (Poking, n)) (view (fst (incoming_poker en src packet (p, n, c) st)) i)
    \<and> exclusive (fst (incoming_poker en src packet (p, n, c) st)) i"
  using assms
  by (auto simp: incoming_poker_def view_def exclusive_def advances.simps
      split: prod.split res.split)

lemma incoming_initiator_at:
  assumes "pokers st i = None" "initiators st i = None" "responders st i = None" "established st i = None"
    and "packet_id packet = i"
  shows "advances (Some (Initiating, n)) (view (fst (incoming_initiator en src packet (p, n, c) st)) i)
    \<and> exclusive (fst (incoming_initiator en src packet (p, n, c) st)) i"
  using assms
  by (auto simp: incoming_initiator_def view_def exclusive_def advances.simps upgrade_session_maps
      split: prod.split res.split session_result.split)

lemma incoming_responder_at:
  assumes "pokers st i = None" "initiators st i = None" "responders st i = None" "established st i = None"
    and "packet_id packet = i"
  shows "advances (Some (Responding, n)) (view (fst (incoming_responder en src packet (p, n, c) st)) i)
    \<and> exclusive (fst (incoming_responder en src packet (p, n, c) st)) i"
  using assms
  by (auto simp: incoming_responder_def view_def exclusive_def advances.simps upgrade_session_maps
      split: prod.split res.split)

lemma handle_incoming_at:
  assumes "exclusive st i"
  shows "advances (view st i) (view (fst (Handler_handle_incoming en src data st)) i)
    \<and> exclusive (fst (Handler_handle_incoming en src data st)) i"
proof (cases "\<exists>packet. deserialize (packet_codec en) data = Inr packet \<and> packet_id packet = i")
  case False
  then have "same_at i st (fst (Handler_handle_incoming en src data st))"
    by (intro handle_incoming_other) auto
  with assms show ?thesis by (simp add: same_at_view same_at_exclusive advances.stays)
next
  case True
  then obtain packet where p: "deserialize (packet_codec en) data = Inr packet" "packet_id packet = i"
    by blast
  consider (poker) q n c where "pokers st i = Some (q, n, c)"
    | (initiator) q n c where "pokers st i = None" "initiators st i = Some (q, n, c)"
    | (responder) q n c where "pokers st i = None" "initiators st i = None"
        "responders st i = Some (q, n, c)"
    | (established) "pokers st i = None" "initiators st i = None" "responders st i = None"
    by (cases "pokers st i"; cases "initiators st i"; cases "responders st i") auto
  then show ?thesis
  proof cases
    case poker
    then show ?thesis using assms p unfolding exclusive_def [of st]
      by (simp add: Handler_handle_incoming_def view_def [of st] Let_def incoming_poker_at)
  next
    case initiator
    then show ?thesis using assms p unfolding exclusive_def [of st]
      by (simp add: Handler_handle_incoming_def view_def [of st] Let_def incoming_initiator_at)
  next
    case responder
    then show ?thesis using assms p unfolding exclusive_def [of st]
      by (simp add: Handler_handle_incoming_def view_def [of st] Let_def incoming_responder_at)
  next
    case established
    then have "fst (Handler_handle_incoming en src data st) = fst (incoming_established en packet st)"
      using p by (simp add: Handler_handle_incoming_def Let_def)
    with assms incoming_established_maps show ?thesis
      by (metis advances.stays same_at_exclusive same_at_view)
  qed
qed

end
