(* ===== verification/HandlerTasks.thy ===== *)
theory HandlerTasks
  imports HandlerInv
begin

text \<open>
  The announcing tasks of the handler: no operation leaves one running without its entry, and
  aborting one never hits the task of another identifier.
\<close>

section \<open>Which tasks may run\<close>

definition ids_ok :: "('h, 's) handler \<Rightarrow> session_id \<Rightarrow> bool" where
  "ids_ok st i \<longleftrightarrow>
     (\<forall>p x. pokers st i = Some (p, x) \<longrightarrow> poker_id p = i)
     \<and> (\<forall>p x. initiators st i = Some (p, x) \<longrightarrow> ini_id p = i)
     \<and> (\<forall>r x. responders st i = Some (r, x) \<longrightarrow> rsp_id r = i)"

definition tasks_ok :: "('h, 's) handler \<Rightarrow> bool" where
  "tasks_ok st \<longleftrightarrow>
     (\<forall>i h. task_of st i = Some h \<longrightarrow> h < next_task (rt st))
     \<and> (\<forall>i j h. task_of st i = Some h \<and> task_of st j = Some h \<longrightarrow> i = j)
     \<and> (\<forall>h t. tasks (rt st) h = Some t \<longrightarrow> task_of st (ann_id t) = Some h)"

text \<open>What an operation on the identifier \<open>i\<close> may do: no new task, and the entry keeps its task
  or is gone with it; or a fresh task in place of the old one.\<close>

definition task_kept :: "session_id \<Rightarrow> ('h, 's) handler \<Rightarrow> ('h, 's) handler \<Rightarrow> bool" where
  "task_kept i st st' \<longleftrightarrow>
     task_of st' i = task_of st i \<and> next_task (rt st') = next_task (rt st)
     \<and> tasks (rt st') \<subseteq>\<^sub>m tasks (rt st)"

definition task_gone :: "session_id \<Rightarrow> ('h, 's) handler \<Rightarrow> ('h, 's) handler \<Rightarrow> bool" where
  "task_gone i st st' \<longleftrightarrow>
     task_of st' i = None \<and> next_task (rt st') = next_task (rt st)
     \<and> tasks (rt st') \<subseteq>\<^sub>m tasks (rt st) \<and> (\<forall>h. task_of st i = Some h \<longrightarrow> tasks (rt st') h = None)"

definition task_fresh :: "session_id \<Rightarrow> ('h, 's) handler \<Rightarrow> ('h, 's) handler \<Rightarrow> bool" where
  "task_fresh i st st' \<longleftrightarrow>
     (\<exists>t ts. task_of st' i = Some (next_task (rt st)) \<and> ann_id t = i
         \<and> next_task (rt st') = Suc (next_task (rt st))
         \<and> tasks (rt st') = ts(next_task (rt st) \<mapsto> t) \<and> ts \<subseteq>\<^sub>m tasks (rt st)
         \<and> (\<forall>h. task_of st i = Some h \<longrightarrow> ts h = None))"

definition task_move :: "session_id \<Rightarrow> ('h, 's) handler \<Rightarrow> ('h, 's) handler \<Rightarrow> bool" where
  "task_move i st st' \<longleftrightarrow>
     (\<forall>j. j \<noteq> i \<longrightarrow> task_of st' j = task_of st j) \<and>
     (task_kept i st st' \<or> task_gone i st st' \<or> task_fresh i st st')"

lemma map_leD: "m \<subseteq>\<^sub>m m' \<Longrightarrow> m h = Some t \<Longrightarrow> m' h = Some t"
  unfolding map_le_def by (metis domI)

lemma task_move_ok:
  assumes "task_move i st st'" and ok: "tasks_ok st"
  shows "tasks_ok st'"
proof -
  have other: "task_of st' j = task_of st j" if "j \<noteq> i" for j
    using assms(1) that by (simp add: task_move_def)
  have below: "h < next_task (rt st)" if "task_of st j = Some h" for j h
    using ok that by (auto simp: tasks_ok_def)
  have inj: "j = k" if "task_of st j = Some h" "task_of st k = Some h" for j k h
    using ok that by (auto simp: tasks_ok_def)
  have owner: "task_of st (ann_id t) = Some h" if "tasks (rt st) h = Some t" for h t
    using ok that by (auto simp: tasks_ok_def)
  consider "task_kept i st st'" | "task_gone i st st'" | "task_fresh i st st'"
    using assms(1) unfolding task_move_def by auto
  then show ?thesis
  proof cases
    case 1
    then have keep: "task_of st' = task_of st" "next_task (rt st') = next_task (rt st)"
        "tasks (rt st') \<subseteq>\<^sub>m tasks (rt st)"
      using other unfolding task_kept_def by (auto intro!: ext) metis
    then show ?thesis using ok map_leD [OF keep(3)] by (simp add: tasks_ok_def)
  next
    case 2
    then have gone: "task_of st' i = None" "next_task (rt st') = next_task (rt st)"
        "tasks (rt st') \<subseteq>\<^sub>m tasks (rt st)" "\<And>h. task_of st i = Some h \<Longrightarrow> tasks (rt st') h = None"
      by (auto simp: task_gone_def)
    have sub: "task_of st j = Some h \<and> j \<noteq> i" if "task_of st' j = Some h" for j h
      using that gone(1) other by (cases "j = i") auto
    moreover have "task_of st' (ann_id t) = Some h" if "tasks (rt st') h = Some t" for h t
      using owner [OF map_leD [OF gone(3) that]] gone(4) other that by fastforce
    ultimately show ?thesis using below inj gone(2) unfolding tasks_ok_def by metis
  next
    case 3
    then obtain t ts where fresh: "task_of st' i = Some (next_task (rt st))" "ann_id t = i"
        "next_task (rt st') = Suc (next_task (rt st))" "tasks (rt st') = ts(next_task (rt st) \<mapsto> t)"
        "ts \<subseteq>\<^sub>m tasks (rt st)" "\<And>h. task_of st i = Some h \<Longrightarrow> ts h = None"
      by (auto simp: task_fresh_def)
    have "task_of st' (ann_id t') = Some h" if "tasks (rt st') h = Some t'" for h t'
    proof (cases "h = next_task (rt st)")
      case False
      then have "ts h = Some t'" using that fresh(4) by simp
      then show ?thesis using owner [OF map_leD [OF fresh(5)]] fresh(6) other by fastforce
    qed (use that fresh in auto)
    moreover have "h < next_task (rt st')" if "task_of st' j = Some h" for j h
      using that fresh(1,3) other below by (cases "j = i") (auto simp: less_Suc_eq)
    moreover have "j = k" if "task_of st' j = Some h" "task_of st' k = Some h" for j k h
      using that fresh(1) other below inj by (metis less_irrefl option.inject)
    ultimately show ?thesis unfolding tasks_ok_def by blast
  qed
qed

section \<open>Each operation\<close>

lemma map_le_upd_None [simp]: "m(h := None) \<subseteq>\<^sub>m m"
  by (simp add: map_le_def)

lemma task_move_same:
  assumes "\<And>j. same_at j st st'" and "next_task (rt st') = next_task (rt st)"
    and "tasks (rt st') \<subseteq>\<^sub>m tasks (rt st)"
  shows "task_move i st st'"
  using assms by (simp add: task_move_def task_kept_def same_at_task_of)

lemma task_of_poker: "pokers st i = Some (p, x) \<Longrightarrow> task_of st i = Some (poker_handle p)"
  and task_of_initiator: "exclusive st i \<Longrightarrow> initiators st i = Some (q, x) \<Longrightarrow>
    task_of st i = Some (ini_handle q)"
  and task_of_responder: "exclusive st i \<Longrightarrow> responders st i = Some (r, x) \<Longrightarrow>
    task_of st i = Some (rsp_handle r)"
  by (cases "pokers st i"; cases "initiators st i"; auto simp: task_of_def exclusive_def)+

lemma exclusive_initiator: "exclusive st i \<Longrightarrow> initiators st i = Some e \<Longrightarrow>
    pokers st i = None \<and> responders st i = None \<and> established st i = None"
  and exclusive_responder: "exclusive st i \<Longrightarrow> responders st i = Some f \<Longrightarrow>
    pokers st i = None \<and> initiators st i = None \<and> established st i = None"
  by (cases "pokers st i"; cases "initiators st i"; auto simp: exclusive_def)+

lemma remove_blocks_rt:
  "rt (remove_if_responder sid otid st) = (case responders st sid of
     Some (r, n, _) \<Rightarrow> if id_matches otid n then abort_task (rsp_handle r) (rt st) else rt st
   | None \<Rightarrow> rt st)"
  "rt (remove_if_poker sid otid st) = (case pokers st sid of
     Some (p, n, _) \<Rightarrow> if id_matches otid n then abort_task (poker_handle p) (rt st) else rt st
   | None \<Rightarrow> rt st)"
  "rt (remove_if_initiator sid otid st) = (case initiators st sid of
     Some (p, n, _) \<Rightarrow> if id_matches otid n then abort_task (ini_handle p) (rt st) else rt st
   | None \<Rightarrow> rt st)"
  by (simp_all add: remove_block_defs split: option.split)

lemma remove_session_rt:
  assumes "exclusive st i"
  shows "(task_of (remove_session i otid st) i = task_of st i \<and> rt (remove_session i otid st) = rt st)
    \<or> (\<exists>h. task_of st i = Some h \<and> task_of (remove_session i otid st) i = None
          \<and> rt (remove_session i otid st) = abort_task h (rt st))"
  using assms
  by (cases "pokers st i"; cases "initiators st i"; cases "responders st i")
    (auto simp: exclusive_def task_of_def remove_session_def remove_blocks_rt frame_simps kept_def)

lemma remove_session_task_move:
  assumes "exclusive st i"
  shows "task_move i st (remove_session i otid st)"
  using remove_session_rt [OF assms, of otid] remove_session_other [THEN same_at_task_of]
  unfolding task_move_def task_kept_def task_gone_def by (auto simp: frame_simps)

lemma remove_session_gone:
  assumes "exclusive st i"
  shows "task_gone i st (remove_session i None st)"
proof -
  have "task_of (remove_session i None st) i = None"
    by (simp add: task_of_def frame_simps)
  then show ?thesis
    using remove_session_rt [OF assms, of None] by (auto simp: task_gone_def frame_simps)
qed

lemma ids_ok_same: "same_at i st st' \<Longrightarrow> ids_ok st' i = ids_ok st i"
  by (simp add: same_at_def ids_ok_def)

lemma initiate_other: "j \<noteq> i \<Longrightarrow> same_at j st (fst (Handler_initiate en n i info st))"
  by (simp add: Handler_initiate_def PendingSessionInitiator_new_def spawn_def new_cell_def
      same_at_def frame_simps Let_def split: res.split)

lemma respond_other: "j \<noteq> i \<Longrightarrow> same_at j st (fst (Handler_respond en n i info st))"
  by (simp add: Handler_respond_def PendingSessionPoker_new_def spawn_def new_cell_def
      same_at_def frame_simps Let_def split: res.split)

lemma initiate_at:
  "exclusive (fst (Handler_initiate en n i info st)) i \<and> ids_ok (fst (Handler_initiate en n i info st)) i
   \<and> view (fst (Handler_initiate en n i info st)) i \<in> {Some (Initiating, n), None}"
  by (simp add: Handler_initiate_def PendingSessionInitiator_new_def spawn_def new_cell_def
      exclusive_def ids_ok_def view_def frame_simps Let_def split: res.split)

lemma respond_at:
  "exclusive (fst (Handler_respond en n i info st)) i \<and> ids_ok (fst (Handler_respond en n i info st)) i
   \<and> view (fst (Handler_respond en n i info st)) i \<in> {Some (Poking, n), None}"
  by (simp add: Handler_respond_def PendingSessionPoker_new_def spawn_def new_cell_def
      exclusive_def ids_ok_def view_def frame_simps Let_def split: res.split)

lemma initiate_task_move:
  assumes "exclusive st i"
  shows "task_move i st (fst (Handler_initiate en n i info st))"
proof -
  let ?st = "remove_session i None st"
  have gone: "task_gone i st ?st" using assms by (rule remove_session_gone)
  have "task_gone i st (fst (Handler_initiate en n i info st))
      \<or> task_fresh i st (fst (Handler_initiate en n i info st))"
  proof (cases "SnowInitiator_new (snow_of en) (keypair ?st) (public_key info)")
    case (Ok ini)
    let ?t = "\<lparr>ann_addresses = addresses info, ann_id = i, ann_message = HandshakeInitiation (initiation ini)\<rparr>"
    have "task_fresh i st (fst (Handler_initiate en n i info st))"
      unfolding task_fresh_def using gone Ok
      by (intro exI [of _ ?t] exI [of _ "tasks (rt ?st)"])
        (simp add: task_gone_def Handler_initiate_def PendingSessionInitiator_new_def spawn_def
          new_cell_def task_of_def frame_simps Let_def)
    then show ?thesis by simp
  qed (use gone in \<open>simp_all add: Handler_initiate_def\<close>)
  then show ?thesis using initiate_other [THEN same_at_task_of] by (auto simp: task_move_def)
qed

lemma respond_task_move:
  assumes "exclusive st i"
  shows "task_move i st (fst (Handler_respond en n i info st))"
proof -
  let ?st = "remove_session i None st"
  have gone: "task_gone i st ?st" using assms by (rule remove_session_gone)
  have "task_gone i st (fst (Handler_respond en n i info st))
      \<or> task_fresh i st (fst (Handler_respond en n i info st))"
  proof (cases "SnowResponder_new (snow_of en) (keypair ?st) (public_key info)")
    case (Ok rsp)
    let ?t = "\<lparr>ann_addresses = addresses info, ann_id = i, ann_message = HandshakePoke\<rparr>"
    have "task_fresh i st (fst (Handler_respond en n i info st))"
      unfolding task_fresh_def using gone Ok
      by (intro exI [of _ ?t] exI [of _ "tasks (rt ?st)"])
        (simp add: task_gone_def Handler_respond_def PendingSessionPoker_new_def spawn_def
          new_cell_def task_of_def frame_simps Let_def)
    then show ?thesis by simp
  qed (use gone in \<open>simp_all add: Handler_respond_def\<close>)
  then show ?thesis using respond_other [THEN same_at_task_of] by (auto simp: task_move_def)
qed

section \<open>Packets\<close>

lemma poker_incoming_frame [frame_simps]:
  "poker_handle (snd (poker_handle_incoming en src pkt r p)) = poker_handle p"
  "poker_id (snd (poker_handle_incoming en src pkt r p)) = poker_id p"
  "tasks (fst (poker_handle_incoming en src pkt r p)) = tasks r"
  "next_task (fst (poker_handle_incoming en src pkt r p)) = next_task r"
  by (auto simp: poker_handle_incoming_def frame_simps
      split: sum.split raw_message.split option.split)

lemma initiator_incoming_frame [frame_simps]:
  "ini_handle (snd (initiator_handle_incoming en src pkt r p)) = ini_handle p"
  "ini_id (snd (initiator_handle_incoming en src pkt r p)) = ini_id p"
  "tasks (fst (initiator_handle_incoming en src pkt r p)) = tasks r"
  "next_task (fst (initiator_handle_incoming en src pkt r p)) = next_task r"
  by (auto simp: initiator_handle_incoming_def frame_simps
      split: sum.split raw_message.split option.split)

lemma responder_incoming_frame [frame_simps]:
  "rsp_handle (fst (snd (responder_handle_incoming en src pkt r p))) = rsp_handle p"
  "rsp_id (fst (snd (responder_handle_incoming en src pkt r p))) = rsp_id p"
  "rsp_remote_addr (fst (snd (responder_handle_incoming en src pkt r p))) = rsp_remote_addr p"
  "tasks (fst (responder_handle_incoming en src pkt r p)) = tasks r"
  "next_task (fst (responder_handle_incoming en src pkt r p)) = next_task r"
  by (auto simp: responder_handle_incoming_def frame_simps Let_def
      split: sum.split raw_message.split option.split prod.split res.split message.split)

text \<open>The transitions between the stages, on the runtime.\<close>

lemma into_responder_Ok:
  assumes "poker_into_responder en p r = (r1, Ok q)"
  shows "rsp_handle q = next_task r \<and> rsp_id q = poker_id p \<and> next_task r1 = Suc (next_task r)
    \<and> (\<exists>t. ann_id t = poker_id p
         \<and> tasks r1 = ((tasks r)(poker_handle p := None))(next_task r \<mapsto> t))"
  using assms
  by (auto simp: poker_into_responder_def PendingSessionResponder_new_def spawn_def abort_task_def
      Let_def split: option.splits res.splits prod.splits)
    (rule exI, rule conjI [rotated], rule refl, simp)

lemma into_responder_fails:
  assumes "poker_into_responder en p r = (r1, x)" and "\<not> is_Ok x" and "poker_is_ready p"
  shows "r1 = abort_task (poker_handle p) r"
  using assms
  by (auto simp: poker_into_responder_def PendingSessionResponder_new_def spawn_def
      poker_is_ready_def Let_def split: option.splits res.splits prod.splits)

lemma initiator_session_rt:
  assumes "initiator_session en p r = (r1, x)" and "initiator_is_ready p"
  shows "r1 = abort_task (ini_handle p) r"
    and "x = Ok (SessionErr q) \<Longrightarrow> ini_handle q = ini_handle p \<and> ini_id q = ini_id p"
  using assms
  by (auto simp: initiator_session_def initiator_is_ready_def Let_def
      split: option.splits res.splits receive_response_result.splits prod.splits)

lemma responder_session_rt:
  assumes "responder_session en p r = (r1, x)" and "responder_is_ready p"
  shows "r1 = abort_task (rsp_handle p) r"
  using assms by (simp add: responder_session_def responder_is_ready_def)

text \<open>The state with the entry taken out is \<open>st0\<close>.\<close>

lemma incoming_poker_move:
  assumes "st0 = st\<lparr>pokers := (pokers st)(i := None)\<rparr>" and "packet_id pkt = i"
    and "exclusive st i" and "ids_ok st i" and "pokers st i = Some (p, n, c)"
  shows "(task_kept i st (fst (incoming_poker en src pkt (p, n, c) st0))
      \<or> task_gone i st (fst (incoming_poker en src pkt (p, n, c) st0))
      \<or> task_fresh i st (fst (incoming_poker en src pkt (p, n, c) st0)))
     \<and> ids_ok (fst (incoming_poker en src pkt (p, n, c) st0)) i"
proof -
  obtain r1 p1 where r1: "poker_handle_incoming en src pkt (rt st) p = (r1, p1)" by force
  then have f: "poker_handle p1 = poker_handle p" "poker_id p1 = i" "tasks r1 = tasks (rt st)"
      "next_task r1 = next_task (rt st)"
    using poker_incoming_frame [of en src pkt "rt st" p] assms(4,5) by (auto simp: ids_ok_def)
  obtain r2 x where r2: "poker_into_responder en p1 r1 = (r2, x)" by force
  have none: "initiators st i = None" "responders st i = None"
    and task: "task_of st i = Some (poker_handle p)"
    using assms(3,5) by (auto simp: exclusive_def task_of_def)
  consider "\<not> poker_is_ready p1" | q where "poker_is_ready p1" "x = Ok q"
    | "poker_is_ready p1" "\<not> is_Ok x"
    by (cases x) auto
  then show ?thesis
  proof cases
    case 1
    then show ?thesis using f task assms none
      by (simp add: incoming_poker_def r1 task_kept_def task_of_def ids_ok_def)
  next
    case (2 q)
    then obtain t where t: "ann_id t = i"
        "tasks r2 = ((tasks (rt st))(poker_handle p := None))(next_task (rt st) \<mapsto> t)"
        "rsp_handle q = next_task (rt st)" "rsp_id q = i" "next_task r2 = Suc (next_task (rt st))"
      using into_responder_Ok [of en p1 r1 r2 q] r2 f by auto
    then have "task_fresh i st (fst (incoming_poker en src pkt (p, n, c) st0))"
      unfolding task_fresh_def using 2 task assms none
      by (intro exI [of _ t] exI [of _ "(tasks (rt st))(poker_handle p := None)"])
        (simp add: incoming_poker_def r1 r2 task_of_def)
    then show ?thesis using 2 t assms none by (simp add: incoming_poker_def r1 r2 ids_ok_def)
  next
    case 3
    then have "r2 = abort_task (poker_handle p) r1" using into_responder_fails [OF r2] f by simp
    then show ?thesis using 3 f task assms none
      by (cases x) (simp_all add: incoming_poker_def r1 r2 task_gone_def task_of_def ids_ok_def frame_simps)
  qed
qed

lemma incoming_initiator_move:
  assumes "st0 = st\<lparr>initiators := (initiators st)(i := None)\<rparr>" and "packet_id pkt = i"
    and "exclusive st i" and "ids_ok st i" and "initiators st i = Some (p, n, c)"
  shows "(task_kept i st (fst (incoming_initiator en src pkt (p, n, c) st0))
      \<or> task_gone i st (fst (incoming_initiator en src pkt (p, n, c) st0)))
     \<and> ids_ok (fst (incoming_initiator en src pkt (p, n, c) st0)) i"
proof -
  obtain r1 p1 where r1: "initiator_handle_incoming en src pkt (rt st) p = (r1, p1)" by force
  then have f: "ini_handle p1 = ini_handle p" "ini_id p1 = i" "tasks r1 = tasks (rt st)"
      "next_task r1 = next_task (rt st)"
    using initiator_incoming_frame [of en src pkt "rt st" p] assms(4,5) by (auto simp: ids_ok_def)
  obtain r2 x where r2: "initiator_session en p1 r1 = (r2, x)" by force
  have none: "pokers st i = None" "responders st i = None"
    and task: "task_of st i = Some (ini_handle p)"
    using exclusive_initiator [OF assms(3,5)] task_of_initiator [OF assms(3,5)] by simp_all
  show ?thesis
  proof (cases "initiator_is_ready p1")
    case False
    then show ?thesis using f task assms none
      by (simp add: incoming_initiator_def r1 task_kept_def task_of_def ids_ok_def)
  next
    case True
    note r2' = initiator_session_rt [OF r2 True]
    show ?thesis
    proof (cases x)
      case (Ok y)
      show ?thesis
      proof (cases y)
        case (SessionErr q)
        then show ?thesis using True Ok r2'(1) r2'(2) [of q] f task assms(1,2,4) none
          by (simp add: incoming_initiator_def r1 r2 task_kept_def task_of_def ids_ok_def
              abort_task_frame)
      next
        case (SessionOk s)
        then show ?thesis using True Ok r2'(1) f task assms(1,2,4) none
          by (simp add: incoming_initiator_def r1 r2 task_gone_def task_of_def ids_ok_def
              abort_task_frame upgrade_session_maps)
      qed
    qed (use True r2'(1) f task assms(1,2,4) none in
        \<open>simp_all add: incoming_initiator_def r1 r2 task_gone_def task_of_def ids_ok_def
           abort_task_frame\<close>)
  qed
qed

lemma incoming_responder_move:
  assumes "st0 = st\<lparr>responders := (responders st)(i := None)\<rparr>" and "packet_id pkt = i"
    and "exclusive st i" and "ids_ok st i" and "responders st i = Some (p, n, c)"
    and "\<not> is_Panic (snd (incoming_responder en src pkt (p, n, c) st0))"
  shows "(task_kept i st (fst (incoming_responder en src pkt (p, n, c) st0))
      \<or> task_gone i st (fst (incoming_responder en src pkt (p, n, c) st0)))
     \<and> ids_ok (fst (incoming_responder en src pkt (p, n, c) st0)) i"
proof -
  obtain r1 p1 y where r1: "responder_handle_incoming en src pkt (rt st) p = (r1, p1, y)"
    by (metis surj_pair)
  then have f: "rsp_handle p1 = rsp_handle p" "rsp_id p1 = i" "tasks r1 = tasks (rt st)"
      "next_task r1 = next_task (rt st)"
    using responder_incoming_frame [of en src pkt "rt st" p] assms(4,5) by (auto simp: ids_ok_def)
  obtain r2 x where r2: "responder_session en p1 r1 = (r2, x)" by force
  have none: "pokers st i = None" "initiators st i = None"
    and task: "task_of st i = Some (rsp_handle p)"
    using exclusive_responder [OF assms(3,5)] task_of_responder [OF assms(3,5)] by simp_all
  show ?thesis
  proof (cases "responder_is_ready p1")
    case False
    then show ?thesis using f task assms none
      by (cases y) (simp_all add: incoming_responder_def r1 task_kept_def task_of_def ids_ok_def)
  next
    case True
    note r2' = responder_session_rt [OF r2 True]
    show ?thesis
      using True r2' f task assms(1,2,4,6) none
      by (cases y; cases x) (simp_all add: incoming_responder_def r1 r2 task_gone_def task_of_def
          ids_ok_def abort_task_frame upgrade_session_maps)
  qed
qed

end
