(* ===== verification/HandlerSessions.thy ===== *)
theory HandlerSessions
  imports HandlerTasks
begin

text \<open>
  The sessions behind the established entries: every entry has a session of its own with its
  identifier, the identity and the remote address of a session never change, and a dead session
  stays dead.
\<close>

section \<open>What no operation changes\<close>

definition sess_le :: "'s session \<Rightarrow> 's session \<Rightarrow> bool" where
  "sess_le s s' \<longleftrightarrow>
     sess_id s' = sess_id s \<and> remote_addr s' = remote_addr s \<and> (dead s \<longrightarrow> dead s')"

lemma sess_le_refl [simp]: "sess_le s s"
  by (simp add: sess_le_def)

lemma sess_le_trans: "sess_le a b \<Longrightarrow> sess_le b c \<Longrightarrow> sess_le a c"
  by (simp add: sess_le_def)

lemma sess_le_ops:
  "sess_le s (fst (Session_handle_incoming en pkt s))"
  "sess_le s (fst (Session_send en ch s d))"
  "sess_le s (fst (keepalive_tick en ch s))"
  "sess_le s (fst (heartbeat_tick s))"
  "sess_le s (fst (Receiving_poll f w s))"
  "sess_le s (Session_close s)"
proof -
  show "sess_le s (fst (Session_handle_incoming en pkt s))"
    by (simp add: sess_le_def Session_handle_incoming_def Let_def
        split: sum.split raw_message.split res.split message.split prod.split)
  show "sess_le s (fst (Session_send en ch s d))"
    by (simp add: sess_le_def Session_send_def Let_def split: sum.split res.split prod.split)
  show "sess_le s (fst (keepalive_tick en ch s))"
    by (simp add: sess_le_def keepalive_tick_def Let_def
        split: sum.split res.split prod.split bool.split)
  show "sess_le s (fst (Receiving_poll f w s))"
    by (cases f) (simp add: sess_le_def split: list.split)
qed (simp_all add: sess_le_def heartbeat_tick_def Session_close_def)

definition sessions_kept :: "('h, 's) handler \<Rightarrow> ('h, 's) handler \<Rightarrow> bool" where
  "sessions_kept st st' \<longleftrightarrow>
     (\<forall>r s. sessions st r = Some s \<longrightarrow> (\<exists>s'. sessions st' r = Some s' \<and> sess_le s s'))"

lemma sessions_kept_refl [simp]: "sessions st' = sessions st \<Longrightarrow> sessions_kept st st'"
  by (simp add: sessions_kept_def)

lemma sessions_kept_upd:
  assumes "sessions st r = Some s" and "sess_le s s'" and "sessions st' = (sessions st)(r \<mapsto> s')"
  shows "sessions_kept st st'"
  using assms by (auto simp: sessions_kept_def)

lemma sessions_kept_trans: "sessions_kept a b \<Longrightarrow> sessions_kept b c \<Longrightarrow> sessions_kept a c"
  unfolding sessions_kept_def using sess_le_trans by metis

definition sessions_ok :: "('h, 's) handler \<Rightarrow> bool" where
  "sessions_ok st \<longleftrightarrow>
     (\<forall>r. sessions st r \<noteq> None \<longrightarrow> r < next_session st)
     \<and> (\<forall>i n r. established st i = Some (n, r) \<longrightarrow> (\<exists>s. sessions st r = Some s \<and> sess_id s = i))"

text \<open>What an operation on the identifier \<open>i\<close> may do to the sessions.\<close>

definition sess_move :: "session_id \<Rightarrow> ('h, 's) handler \<Rightarrow> ('h, 's) handler \<Rightarrow> bool" where
  "sess_move i st st' \<longleftrightarrow>
     sessions_kept st st' \<and> (\<forall>j. j \<noteq> i \<longrightarrow> established st' j = established st j) \<and>
     ((next_session st' = next_session st \<and> dom (sessions st') \<subseteq> dom (sessions st)
        \<and> established st' i \<in> {established st i, None})
      \<or> (\<exists>n s. next_session st' = Suc (next_session st) \<and> sess_id s = i
            \<and> dom (sessions st') \<subseteq> insert (next_session st) (dom (sessions st))
            \<and> sessions st' (next_session st) = Some s
            \<and> established st' i = Some (n, next_session st)))"

lemma sess_move_ok:
  assumes "sess_move i st st'" and "sessions_ok st"
  shows "sessions_ok st'"
proof -
  have kept: "\<exists>s'. sessions st' r = Some s' \<and> sess_id s' = sess_id s" if "sessions st r = Some s" for r s
    using assms(1) that by (force simp: sess_move_def sessions_kept_def sess_le_def)
  have old: "\<exists>s. sessions st' r = Some s \<and> sess_id s = j" if "established st j = Some (n, r)" for j n r
    using assms(2) that kept unfolding sessions_ok_def by metis
  have other: "established st' j = established st j" if "j \<noteq> i" for j
    using assms(1) that by (simp add: sess_move_def)
  consider "next_session st' = next_session st" "dom (sessions st') \<subseteq> dom (sessions st)"
      "established st' i \<in> {established st i, None}"
    | n s where "next_session st' = Suc (next_session st)" "sess_id s = i"
      "dom (sessions st') \<subseteq> insert (next_session st) (dom (sessions st))"
      "sessions st' (next_session st) = Some s" "established st' i = Some (n, next_session st)"
    using assms(1) unfolding sess_move_def by auto
  then show ?thesis
  proof cases
    case 1
    have "established st j = Some (n, r)" if "established st' j = Some (n, r)" for j n r
      using that 1(3) other by (cases "j = i") auto
    moreover have "r < next_session st'" if "sessions st' r \<noteq> None" for r
      using that 1 assms(2) by (auto simp: sessions_ok_def)
    ultimately show ?thesis using old unfolding sessions_ok_def by blast
  next
    case (2 n s)
    have "\<exists>s. sessions st' r = Some s \<and> sess_id s = j" if "established st' j = Some (m, r)" for j m r
      using that 2 other old by (cases "j = i") auto
    moreover have "r < next_session st'" if "sessions st' r \<noteq> None" for r
      using that 2(1,3) assms(2) by (fastforce simp: sessions_ok_def less_Suc_eq)
    ultimately show ?thesis unfolding sessions_ok_def by blast
  qed
qed

section \<open>Each operation\<close>

lemma sess_move_same:
  assumes "sessions st' = sessions st" "established st' = established st" "next_session st' = next_session st"
  shows "sess_move i st st'"
  using assms by (simp add: sess_move_def)

lemma sess_move_upd:
  assumes "sessions st r = Some s" and "sess_le s s'" and "sessions st' = (sessions st)(r \<mapsto> s')"
    and "established st' = established st" and "next_session st' = next_session st"
  shows "sess_move i st st'"
  using assms sessions_kept_upd [OF assms(1-3)] by (auto simp: sess_move_def)

lemma remove_established_move: "sess_move i st (remove_established i st)"
  by (auto simp: sess_move_def sessions_kept_def remove_established_def drop_session_def
      sess_le_ops split: option.split)

lemma remove_session_sessions:
  "sessions (remove_session i otid st) = sessions (remove_if_established i otid st)"
  by (simp add: remove_session_def frame_simps)

lemma remove_session_sess_move: "sess_move i st (remove_session i otid st)"
proof -
  have "sess_move i st (remove_if_established i otid st)"
    using remove_established_move [of i st]
    by (auto simp: remove_if_established_def sess_move_same split: option.split)
  then show ?thesis
    by (simp add: sess_move_def sessions_kept_def remove_session_sessions frame_simps)
qed

lemma sess_move_later:
  assumes "sess_move i st st1" and "sessions st' = sessions st1" "established st' = established st1"
    "next_session st' = next_session st1"
  shows "sess_move i st st'"
  using assms by (simp add: sess_move_def sessions_kept_def)

lemma initiate_sess_move: "sess_move i st (fst (Handler_initiate en n i info st))"
  by (rule sess_move_later [OF remove_session_sess_move [of i st None]])
    (simp_all add: Handler_initiate_def PendingSessionInitiator_new_def spawn_def new_cell_def Let_def
      split: res.split)

lemma respond_sess_move: "sess_move i st (fst (Handler_respond en n i info st))"
  by (rule sess_move_later [OF remove_session_sess_move [of i st None]])
    (simp_all add: Handler_respond_def PendingSessionPoker_new_def spawn_def new_cell_def Let_def
      split: res.split)

lemma upgrade_session_move:
  assumes "sess_id s = i" and "sessions_ok st"
  shows "sess_move i st (fst (upgrade_session i n s c st))"
proof -
  have fresh: "sessions (remove_established i st) (next_session st) = None"
    using assms(2)
    by (auto simp: remove_established_def drop_session_def sessions_ok_def split: option.split)
  have k: "sessions_kept st (remove_established i st)"
      "dom (sessions (remove_established i st)) \<subseteq> dom (sessions st)"
    using remove_established_move [of i st] by (auto simp: sess_move_def frame_simps)
  have up: "sessions (fst (upgrade_session i n s c st)) =
      (sessions (remove_established i st))(next_session st \<mapsto> s)"
    "next_session (fst (upgrade_session i n s c st)) = Suc (next_session st)"
    by (simp_all add: upgrade_session_def frame_simps Let_def)
  have "sessions_kept (remove_established i st) (fst (upgrade_session i n s c st))"
    using fresh by (auto simp: sessions_kept_def up)
  then have "sessions_kept st (fst (upgrade_session i n s c st))"
    by (rule sessions_kept_trans [OF k(1)])
  then show ?thesis
    using k(2) assms(1) by (auto simp: sess_move_def up upgrade_session_maps)
qed

section \<open>Packets\<close>

lemma Session_new_id: "Session_new en i addr lt = Ok s \<Longrightarrow> sess_id s = i"
  by (auto simp: Session_new_def split: res.splits)

lemma initiator_session_id:
  "initiator_session en p r = (r1, Ok (SessionOk s)) \<Longrightarrow> sess_id s = ini_id p"
  by (auto simp: initiator_session_def Session_new_id Let_def
      split: option.splits res.splits receive_response_result.splits)

lemma responder_session_id: "responder_session en p r = (r1, Ok s) \<Longrightarrow> sess_id s = rsp_id p"
  by (auto simp: responder_session_def Session_new_id split: if_splits)

lemma sessions_ok_rt: "sessions_ok (st\<lparr>rt := x\<rparr>) = sessions_ok st"
  by (simp add: sessions_ok_def)

lemma sess_move_rt: "sess_move i (st\<lparr>rt := x\<rparr>) st' = sess_move i st st'"
  by (simp add: sess_move_def sessions_kept_def)

lemma incoming_poker_sess: "sess_move i st (fst (incoming_poker en src pkt e st))"
  by (rule sess_move_same) (simp_all add: incoming_poker_def split: prod.split res.split)

lemma incoming_initiator_sess:
  assumes "sessions_ok st" and "ini_id p = packet_id pkt"
  shows "sess_move (packet_id pkt) st (fst (incoming_initiator en src pkt (p, n, c) st))"
proof -
  obtain r1 p1 where r1: "initiator_handle_incoming en src pkt (rt st) p = (r1, p1)" by force
  then have p1: "ini_id p1 = packet_id pkt"
    using initiator_incoming_frame(2) [of en src pkt "rt st" p] assms(2) by simp
  obtain r2 x where r2: "initiator_session en p1 r1 = (r2, x)" by force
  show ?thesis
  proof (cases "initiator_is_ready p1 \<and> (\<exists>s. x = Ok (SessionOk s))")
    case True
    then obtain s where s: "x = Ok (SessionOk s)" by blast
    then have "sess_id s = packet_id pkt" using initiator_session_id r2 p1 by metis
    then have "sess_move (packet_id pkt) (st\<lparr>rt := r2\<rparr>)
        (fst (upgrade_session (packet_id pkt) n s c (st\<lparr>rt := r2\<rparr>)))"
      using assms(1) by (intro upgrade_session_move) (simp_all add: sessions_ok_rt)
    then show ?thesis using True s by (simp add: incoming_initiator_def r1 r2 sess_move_rt)
  next
    case False
    then show ?thesis
      by (intro sess_move_same) (auto simp: incoming_initiator_def r1 r2
          split: res.split session_result.split)
  qed
qed

lemma incoming_responder_sess:
  assumes "sessions_ok st" and "rsp_id p = packet_id pkt"
  shows "sess_move (packet_id pkt) st (fst (incoming_responder en src pkt (p, n, c) st))"
proof -
  obtain r1 p1 y where r1: "responder_handle_incoming en src pkt (rt st) p = (r1, p1, y)"
    by (metis surj_pair)
  then have p1: "rsp_id p1 = packet_id pkt"
    using responder_incoming_frame(2) [of en src pkt "rt st" p] assms(2) by simp
  obtain r2 x where r2: "responder_session en p1 r1 = (r2, x)" by force
  show ?thesis
  proof (cases "responder_is_ready p1 \<and> \<not> is_Panic y \<and> is_Ok x")
    case True
    then obtain s where s: "x = Ok s" by (cases x) auto
    then have "sess_id s = packet_id pkt" using responder_session_id r2 p1 by metis
    then have "sess_move (packet_id pkt) (st\<lparr>rt := r2\<rparr>)
        (fst (upgrade_session (packet_id pkt) n s c (st\<lparr>rt := r2\<rparr>)))"
      using assms(1) by (intro upgrade_session_move) (simp_all add: sessions_ok_rt)
    then show ?thesis using True s
      by (cases y) (simp_all add: incoming_responder_def r1 r2 sess_move_rt)
  next
    case False
    then show ?thesis
      by (intro sess_move_same)
        (cases y; cases x; auto simp: incoming_responder_def r1 r2)+
  qed
qed

lemma incoming_established_sess: "sess_move i st (fst (incoming_established en pkt st))"
proof -
  have "sess_move i st (st\<lparr>sessions := (sessions st)(r \<mapsto> s1), rt := x\<rparr>)"
    if "sessions st r = Some s" "Session_handle_incoming en pkt s = (s1, ws, res)" for r s s1 ws res x
    using that sess_le_ops(1) [of s en pkt] by (intro sess_move_upd) simp_all
  then show ?thesis
    by (simp add: incoming_established_def sess_move_same split: option.split prod.split)
qed

end
