(* ===== verification/HandlerSteps.thy ===== *)
theory HandlerSteps
  imports HandlerSessions
begin

text \<open>
  All operations of the handler (\<open>src/src/handler.rs\<close>) and of the tasks it spawns as one step
  relation, the invariant of its reachable states, and the properties that follow: the protocol
  that each identifier goes through, the separation of identifiers, and what happens to stale
  removals and to packets that are malformed or forged.
\<close>

section \<open>Operations on one identifier\<close>

definition handler_inv :: "('h, 's) handler \<Rightarrow> bool" where
  "handler_inv st \<longleftrightarrow> (\<forall>i. exclusive st i \<and> ids_ok st i) \<and> tasks_ok st \<and> sessions_ok st"

definition op_on :: "session_id \<Rightarrow> ('h, 's) handler \<Rightarrow> ('h, 's) handler \<Rightarrow> bool" where
  "op_on i st st' \<longleftrightarrow>
     (\<forall>j. j \<noteq> i \<longrightarrow> same_at j st st') \<and> exclusive st' i \<and> ids_ok st' i
     \<and> task_move i st st' \<and> sess_move i st st'"

lemma op_on_inv: "op_on i st st' \<Longrightarrow> handler_inv st \<Longrightarrow> handler_inv st'"
  unfolding op_on_def handler_inv_def
  by (metis ids_ok_same same_at_exclusive sess_move_ok task_move_ok)

lemma op_on_same:
  assumes "handler_inv st" and "pokers st' = pokers st" "initiators st' = initiators st"
    "responders st' = responders st" "established st' = established st"
    and "next_task (rt st') = next_task (rt st)" "tasks (rt st') \<subseteq>\<^sub>m tasks (rt st)"
    and "sess_move i st st'"
  shows "op_on i st st'"
proof -
  have "same_at j st st'" for j using assms(2-5) by (simp add: same_at_def)
  then show ?thesis
    using assms(1,6-8) task_move_same [of st st' i] same_at_exclusive ids_ok_same
    unfolding op_on_def handler_inv_def by blast
qed

lemma remove_session_op:
  assumes "handler_inv st"
  shows "op_on i st (remove_session i otid st)"
proof -
  have ex: "exclusive st i" "ids_ok st i" using assms by (simp_all add: handler_inv_def)
  have "ids_ok (remove_session i otid st) i"
    using ex(2) unfolding ids_ok_def frame_simps fun_upd_same by (metis kept_cases option.distinct(1))
  then show ?thesis
    by (simp add: op_on_def ex remove_session_at(2) remove_session_other remove_session_task_move
        remove_session_sess_move)
qed

lemma initiate_op: "handler_inv st \<Longrightarrow> op_on i st (fst (Handler_initiate en n i info st))"
  and respond_op: "handler_inv st \<Longrightarrow> op_on i st (fst (Handler_respond en n i info st))"
  by (simp_all add: op_on_def handler_inv_def initiate_other initiate_at initiate_task_move
      initiate_sess_move respond_other respond_at respond_task_move respond_sess_move)

lemma sess_move_pending:
  "sess_move i (st\<lparr>pokers := x\<rparr>) st' = sess_move i st st'"
  "sess_move i (st\<lparr>initiators := y\<rparr>) st' = sess_move i st st'"
  "sess_move i (st\<lparr>responders := z\<rparr>) st' = sess_move i st st'"
  by (simp_all add: sess_move_def sessions_kept_def)

lemma sessions_ok_pending:
  "sessions_ok (st\<lparr>pokers := x\<rparr>) = sessions_ok st"
  "sessions_ok (st\<lparr>initiators := y\<rparr>) = sessions_ok st"
  "sessions_ok (st\<lparr>responders := z\<rparr>) = sessions_ok st"
  by (simp_all add: sessions_ok_def)

lemma incoming_established_op:
  assumes "handler_inv st"
  shows "op_on i st (fst (incoming_established en pkt st))"
  using incoming_established_sess [of i st en pkt]
  by (intro op_on_same [OF assms])
    (auto simp: incoming_established_def frame_simps split: option.split prod.split)

text \<open>The four ways a packet can go.\<close>

lemma incoming_dispatch:
  assumes "deserialize (packet_codec en) data = Inr pkt"
  obtains (poking) p n c where "pokers st (packet_id pkt) = Some (p, n, c)"
      "Handler_handle_incoming en src data st =
         incoming_poker en src pkt (p, n, c) (st\<lparr>pokers := (pokers st)(packet_id pkt := None)\<rparr>)"
  | (initiating) p n c where "initiators st (packet_id pkt) = Some (p, n, c)"
      "Handler_handle_incoming en src data st =
         incoming_initiator en src pkt (p, n, c) (st\<lparr>initiators := (initiators st)(packet_id pkt := None)\<rparr>)"
  | (responding) p n c where "responders st (packet_id pkt) = Some (p, n, c)"
      "Handler_handle_incoming en src data st =
         incoming_responder en src pkt (p, n, c) (st\<lparr>responders := (responders st)(packet_id pkt := None)\<rparr>)"
  | (settled) "Handler_handle_incoming en src data st = incoming_established en pkt st"
  using assms
  by (cases "pokers st (packet_id pkt)"; cases "initiators st (packet_id pkt)"; cases "responders st (packet_id pkt)")
    (auto simp: Handler_handle_incoming_def Let_def)

text \<open>The work on an entry that was taken out is an operation on its identifier.\<close>

lemma same_at_taken:
  assumes "j \<noteq> i"
  shows "same_at j st (st\<lparr>pokers := (pokers st)(i := x)\<rparr>)"
    and "same_at j st (st\<lparr>initiators := (initiators st)(i := y)\<rparr>)"
    and "same_at j st (st\<lparr>responders := (responders st)(i := z)\<rparr>)"
  using assms by (simp_all add: same_at_def)

lemma incoming_poker_op:
  assumes inv: "handler_inv st" and e: "pokers st (packet_id pkt) = Some e"
  shows "op_on (packet_id pkt) st
    (fst (incoming_poker en src pkt e (st\<lparr>pokers := (pokers st)(packet_id pkt := None)\<rparr>)))"
proof -
  let ?i = "packet_id pkt" and ?st = "st\<lparr>pokers := (pokers st)(packet_id pkt := None)\<rparr>"
  obtain p n c where split: "e = (p, n, c)" by (cases e)
  have ex: "exclusive st ?i" and ids: "ids_ok st ?i" using inv by (simp_all add: handler_inv_def)
  have other: "same_at j st (fst (incoming_poker en src pkt e ?st))" if "j \<noteq> ?i" for j
    using same_at_trans [OF same_at_taken(1) incoming_poker_other] that by blast
  have "exclusive (fst (incoming_poker en src pkt e ?st)) ?i"
    using incoming_poker_at [of ?st ?i pkt n en src p c] ex e by (simp add: split exclusive_def [of st])
  moreover have "sess_move ?i st (fst (incoming_poker en src pkt e ?st))"
    using incoming_poker_sess [of ?i ?st] by (simp add: sess_move_pending)
  ultimately show ?thesis
    using incoming_poker_move [OF refl refl ex ids, of p n c en src] e other same_at_task_of
    unfolding op_on_def task_move_def split by blast
qed

lemma incoming_initiator_op:
  assumes inv: "handler_inv st" and e: "initiators st (packet_id pkt) = Some e"
  shows "op_on (packet_id pkt) st
    (fst (incoming_initiator en src pkt e (st\<lparr>initiators := (initiators st)(packet_id pkt := None)\<rparr>)))"
proof -
  let ?i = "packet_id pkt" and ?st = "st\<lparr>initiators := (initiators st)(packet_id pkt := None)\<rparr>"
  obtain p n c where split: "e = (p, n, c)" by (cases e)
  have ex: "exclusive st ?i" and ids: "ids_ok st ?i" and ses: "sessions_ok st"
    using inv by (simp_all add: handler_inv_def)
  have other: "same_at j st (fst (incoming_initiator en src pkt e ?st))" if "j \<noteq> ?i" for j
    using same_at_trans [OF same_at_taken(2) incoming_initiator_other] that by blast
  have "exclusive (fst (incoming_initiator en src pkt e ?st)) ?i"
    using incoming_initiator_at [of ?st ?i pkt n en src p c] exclusive_initiator [OF ex e] by (simp add: split)
  moreover have "ini_id p = ?i" using ids e by (simp add: split ids_ok_def)
  then have "sess_move ?i st (fst (incoming_initiator en src pkt e ?st))"
    using incoming_initiator_sess [of ?st p pkt en src n c] ses
    by (simp add: split sess_move_pending sessions_ok_pending)
  ultimately show ?thesis
    using incoming_initiator_move [OF refl refl ex ids, of p n c en src] e other same_at_task_of
    unfolding op_on_def task_move_def split by blast
qed

lemma incoming_responder_op:
  assumes inv: "handler_inv st" and e: "responders st (packet_id pkt) = Some e"
    and ok: "\<not> is_Panic (snd (incoming_responder en src pkt e (st\<lparr>responders := (responders st)(packet_id pkt := None)\<rparr>)))"
  shows "op_on (packet_id pkt) st
    (fst (incoming_responder en src pkt e (st\<lparr>responders := (responders st)(packet_id pkt := None)\<rparr>)))"
proof -
  let ?i = "packet_id pkt" and ?st = "st\<lparr>responders := (responders st)(packet_id pkt := None)\<rparr>"
  obtain p n c where split: "e = (p, n, c)" by (cases e)
  have ex: "exclusive st ?i" and ids: "ids_ok st ?i" and ses: "sessions_ok st"
    using inv by (simp_all add: handler_inv_def)
  have other: "same_at j st (fst (incoming_responder en src pkt e ?st))" if "j \<noteq> ?i" for j
    using same_at_trans [OF same_at_taken(3) incoming_responder_other] that by blast
  have "exclusive (fst (incoming_responder en src pkt e ?st)) ?i"
    using incoming_responder_at [of ?st ?i pkt n en src p c] exclusive_responder [OF ex e] by (simp add: split)
  moreover have "rsp_id p = ?i" using ids e by (simp add: split ids_ok_def)
  then have "sess_move ?i st (fst (incoming_responder en src pkt e ?st))"
    using incoming_responder_sess [of ?st p pkt en src n c] ses
    by (simp add: split sess_move_pending sessions_ok_pending)
  ultimately show ?thesis
    using incoming_responder_move [OF refl refl ex ids, of p n c en src] e ok other same_at_task_of
    unfolding op_on_def task_move_def split by blast
qed

lemma handle_incoming_op:
  assumes inv: "handler_inv st" and pkt: "deserialize (packet_codec en) data = Inr pkt"
    and ok: "\<not> is_Panic (snd (Handler_handle_incoming en src data st))"
  shows "op_on (packet_id pkt) st (fst (Handler_handle_incoming en src data st))"
  using pkt
proof (cases rule: incoming_dispatch [where st = st and src = src])
  case (poking p n c)
  then show ?thesis using incoming_poker_op [OF inv] by simp
next
  case (initiating p n c)
  then show ?thesis using incoming_initiator_op [OF inv] by simp
next
  case (responding p n c)
  then show ?thesis using incoming_responder_op [OF inv] ok by simp
next
  case settled
  then show ?thesis using incoming_established_op [OF inv] by simp
qed

section \<open>The step relation\<close>

text \<open>The removals and drops of \<open>SessionReady\<close> and \<open>BidirectionalSession\<close>, the tasks, the polls,
  and the task of \<open>veq.rs\<close> that takes packets out of the channel are all steps. A panic while a
  packet is handled ends the receiving task, so no step follows it.\<close>

inductive hstep :: "('b, 'h, 's) env \<Rightarrow> ('h, 's) handler \<Rightarrow> ('h, 's) handler \<Rightarrow> bool"
  for en :: "('b, 'h, 's) env" where
  incoming: "\<not> is_Panic (snd (Handler_handle_incoming en src data st)) \<Longrightarrow>
    hstep en st (fst (Handler_handle_incoming en src data st))"
| initiate: "hstep en st (fst (Handler_initiate en n i info st))"
| respond: "hstep en st (fst (Handler_respond en n i info st))"
| send: "hstep en st (fst (Handler_send en i d st))"
| recv_from: "hstep en st (fst (Handler_recv_from i u st))"
| close: "hstep en st (close_session i n st)"
| closer: "hstep en st (closer_tick k st)"
| ready_poll: "hstep en st (fst (snd (SessionReady_poll w sr st)))"
| ready_drop: "hstep en st (SessionReady_drop sr st)"
| keepalive: "hstep en st (session_keepalive en r st)"
| heartbeat: "hstep en st (session_heartbeat r st)"
| poll: "hstep en st (fst (session_poll r f w st))"
| announce: "hstep en st (handler_announce en h st)"
| drain: "hstep en st (st\<lparr>rt := (rt st)\<lparr>outgoing :=
    (outgoing (rt st))\<lparr>chan_queue := tl (chan_queue (outgoing (rt st)))\<rparr>\<rparr>\<rparr>)"

text \<open>The protocol of an identifier: what packets can do, removal at any time, a new attempt at
  any time.\<close>

inductive proto :: "(stage \<times> one_time_id) option \<Rightarrow> (stage \<times> one_time_id) option \<Rightarrow> bool" where
  packet: "advances v w \<Longrightarrow> proto v w"
| removed: "proto v None"
| initiated: "proto v (Some (Initiating, n))"
| responded: "proto v (Some (Poking, n))"

lemma proto_same: "same_at i st st' \<Longrightarrow> proto (view st i) (view st' i)"
  by (simp add: same_at_view proto.packet advances.stays)

lemma closing_frame:
  "exclusive (st\<lparr>closing := x\<rparr>) i = exclusive st i" "ids_ok (st\<lparr>closing := x\<rparr>) i = ids_ok st i"
  "task_of (st\<lparr>closing := x\<rparr>) i = task_of st i" "view (st\<lparr>closing := x\<rparr>) i = view st i"
  "sessions_ok (st\<lparr>closing := x\<rparr>) = sessions_ok st"
  by (simp_all add: exclusive_def ids_ok_def task_of_def view_def sessions_ok_def
      cong: option.case_cong)

lemma inv_closing: "handler_inv (st\<lparr>closing := x\<rparr>) = handler_inv st"
  by (simp add: handler_inv_def tasks_ok_def closing_frame)

lemma op_on_closing: "op_on i (st\<lparr>closing := x\<rparr>) st' = op_on i st st'"
  by (simp add: op_on_def same_at_def task_move_def task_kept_def task_gone_def task_fresh_def
      sess_move_def sessions_kept_def closing_frame)

lemma remove_session_proto:
  "exclusive st i \<Longrightarrow> proto (view st i) (view (remove_session i otid st) i)"
  using remove_session_at(1) [of st i otid] by (metis advances.stays proto.packet proto.removed)

lemma sess_move_session:
  assumes "sessions st r = Some s" and "sess_le s s'"
  shows "sess_move i st (st\<lparr>sessions := (sessions st)(r \<mapsto> s'), rt := x\<rparr>)"
    and "sess_move i st (st\<lparr>sessions := (sessions st)(r \<mapsto> s')\<rparr>)"
  by (rule sess_move_upd [OF assms]; simp)+

lemma lookup_session:
  assumes "Option.bind (established st j) (\<lambda>(_, r). map_option (Pair r) (sessions st r)) = Some (r, s)"
  shows "sessions st r = Some s"
  using assms by (auto simp: bind_eq_Some_conv)

lemma session_ops_sess:
  "sess_move i st (fst (Handler_send en j d st))"
  "sess_move i st (session_keepalive en r st)"
  "sess_move i st (session_heartbeat r st)"
  "sess_move i st (fst (session_poll r f w st))"
proof -
  have le: "sess_le s s1" if "Session_send en ch s d = (s1, ch1, x)" for s ch s1 ch1 x
    using sess_le_ops(2) [of s en ch d] that by simp
  show "sess_move i st (fst (Handler_send en j d st))"
    by (auto simp: Handler_send_def sess_move_same split: option.split prod.split
        intro!: sess_move_session(1) dest: le lookup_session)
  have le: "sess_le s s1" if "keepalive_tick en ch s = (s1, ch1)" for s ch s1 ch1
    using sess_le_ops(3) [of s en ch] that by simp
  show "sess_move i st (session_keepalive en r st)"
    by (auto simp: session_keepalive_def sess_move_same split: option.split prod.split
        intro!: sess_move_session(1) dest: le)
  have le: "sess_le s s1" if "heartbeat_tick s = (s1, ws)" for s s1 ws
    using sess_le_ops(4) [of s] that by simp
  show "sess_move i st (session_heartbeat r st)"
    by (auto simp: session_heartbeat_def sess_move_same split: option.split prod.split
        intro!: sess_move_session(1) dest: le)
  have le: "sess_le s s1" if "Receiving_poll f w s = (s1, x)" for s s1 x
    using sess_le_ops(5) [of s f w] that by simp
  show "sess_move i st (fst (session_poll r f w st))"
    by (auto simp: session_poll_def sess_move_same split: option.split prod.split
        intro!: sess_move_session(2) dest: le)
qed

lemma session_ops_maps:
  "same_at j st (fst (Handler_send en i d st))"
  "same_at j st (session_keepalive en r st)"
  "same_at j st (session_heartbeat r st)"
  "same_at j st (fst (session_poll r f w st))"
  "tasks (rt (fst (Handler_send en i d st))) = tasks (rt st)"
  "tasks (rt (session_keepalive en r st)) = tasks (rt st)"
  "tasks (rt (session_heartbeat r st)) = tasks (rt st)"
  "tasks (rt (fst (session_poll r f w st))) = tasks (rt st)"
  "next_task (rt (fst (Handler_send en i d st))) = next_task (rt st)"
  "next_task (rt (session_keepalive en r st)) = next_task (rt st)"
  "next_task (rt (session_heartbeat r st)) = next_task (rt st)"
  "next_task (rt (fst (session_poll r f w st))) = next_task (rt st)"
  by (simp_all add: Handler_send_def session_keepalive_def session_heartbeat_def session_poll_def
      same_at_def frame_simps split: option.split prod.split)

lemma op_on_id:
  assumes "handler_inv st"
  shows "op_on i st st"
  using assms by (intro op_on_same) (simp_all add: sess_move_same)

lemma session_ops_op:
  assumes "handler_inv st"
  shows "op_on i st (fst (Handler_send en j d st))"
    and "op_on i st (session_keepalive en r st)"
    and "op_on i st (session_heartbeat r st)"
    and "op_on i st (fst (session_poll r f w st))"
proof -
  have step: "op_on i st st'" if "\<And>j. same_at j st st'" "sess_move i st st'"
      "tasks (rt st') = tasks (rt st)" "next_task (rt st') = next_task (rt st)" for st'
    using that assms by (intro op_on_same) (simp_all add: same_at_def fun_eq_iff map_le_def)
  show "op_on i st (fst (Handler_send en j d st))" "op_on i st (session_keepalive en r st)"
    "op_on i st (session_heartbeat r st)" "op_on i st (fst (session_poll r f w st))"
    by (rule step; simp add: session_ops_maps session_ops_sess)+
qed

lemma recv_from_op:
  assumes "handler_inv st"
  shows "op_on i st (fst (Handler_recv_from i u st))
    \<and> view (fst (Handler_recv_from i u st)) i \<in> {view st i, None}"
proof -
  have ex: "exclusive st i" using assms by (simp add: handler_inv_def)
  have "op_on i st (remove_established i st) \<and> view (remove_established i st) i \<in> {view st i, None}"
    if "established st i \<noteq> None"
  proof -
    have "pokers st i = None" "initiators st i = None" "responders st i = None"
      using ex that unfolding exclusive_def by metis+
    moreover have "same_at j st (remove_established i st)" if "j \<noteq> i" for j
      using that by (simp add: same_at_def frame_simps)
    moreover have "task_of (remove_established i st) = task_of st"
      by (rule ext) (simp add: task_of_def frame_simps cong: option.case_cong)
    ultimately show ?thesis
      using assms remove_established_move [of i st]
      by (simp add: op_on_def handler_inv_def exclusive_def ids_ok_def task_move_def task_kept_def
          view_def frame_simps)
  qed
  then show ?thesis
    using op_on_id [OF assms]
    by (auto simp: Handler_recv_from_def bind_eq_Some_conv split: option.split)
qed

lemma quiet_steps_op:
  assumes "handler_inv st"
  shows "op_on i st (close_session j n st)" and "op_on i st (fst (snd (SessionReady_poll w sr st)))"
    and "op_on i st (SessionReady_drop sr st)" and "op_on i st (handler_announce en h st)"
    and "op_on i st (st\<lparr>rt := (rt st)\<lparr>outgoing := ch\<rparr>\<rparr>)"
  using assms
  by (intro op_on_same; simp add: close_session_def SessionReady_poll_def SessionReady_drop_def
      handler_announce_def announce_tick_def Let_def sess_move_same frame_simps
      split: option.split sum.split)+

lemma quiet_steps_view:
  "view (close_session j n st) i = view st i" "view (fst (snd (SessionReady_poll w sr st))) i = view st i"
  "view (SessionReady_drop sr st) i = view st i" "view (handler_announce en h st) i = view st i"
  "view (st\<lparr>rt := r\<rparr>) i = view st i"
  by (rule same_at_view; simp add: same_at_def close_session_def SessionReady_poll_def
      SessionReady_drop_def handler_announce_def Let_def)+

lemma closer_tick_op:
  assumes "handler_inv st"
  shows "\<exists>i. op_on i st (closer_tick k st) \<and> proto (view st i) (view (closer_tick k st) i)"
proof (cases "k < length (closing st)")
  case True
  obtain i n where k: "closing st ! k = (i, n)" by force
  let ?st = "st\<lparr>closing := take k (closing st) @ drop (Suc k) (closing st)\<rparr>"
  have tick: "closer_tick k st = remove_session i (Some n) ?st"
    using True k by (simp add: closer_tick_def)
  have inv: "handler_inv ?st" using assms by (simp add: inv_closing)
  then have "op_on i st (closer_tick k st)"
    using remove_session_op [OF inv] by (simp add: tick op_on_closing)
  moreover have "proto (view st i) (view (closer_tick k st) i)"
    using remove_session_proto [of ?st i "Some n"] inv
    by (simp add: tick handler_inv_def closing_frame)
  ultimately show ?thesis by blast
next
  case False
  then show ?thesis
    using op_on_id [OF assms] by (auto simp: closer_tick_def intro: proto.packet advances.stays)
qed

lemma hstep_op:
  assumes "hstep en st st'" and inv: "handler_inv st"
  shows "\<exists>i. op_on i st st' \<and> proto (view st i) (view st' i)"
  using assms
proof (induction rule: hstep.induct)
  case (incoming src data st)
  show ?case
  proof (cases "deserialize (packet_codec en) data")
    case (Inl e)
    then show ?thesis using op_on_id [OF incoming.prems]
      by (auto simp: Handler_handle_incoming_def intro: proto.packet advances.stays)
  next
    case (Inr pkt)
    have "exclusive st (packet_id pkt)" using incoming.prems by (simp add: handler_inv_def)
    then show ?thesis
      using handle_incoming_op [OF incoming.prems Inr incoming.hyps]
        handle_incoming_at [of st "packet_id pkt" en src data] proto.packet
      by blast
  qed
next
  case (initiate st n i info)
  then show ?case using initiate_op [of st i en n info] initiate_at [of en n i info st]
    by (metis insertE proto.initiated proto.removed singletonD)
next
  case (respond st n i info)
  then show ?case using respond_op [of st i en n info] respond_at [of en n i info st]
    by (metis insertE proto.responded proto.removed singletonD)
next
  case (send st i d)
  then show ?case using session_ops_op(1) session_ops_maps(1) proto_same by blast
next
  case (recv_from st i u)
  then show ?case using recv_from_op [of st i u]
    by (metis advances.stays insertE proto.packet proto.removed singletonD)
next
  case (closer st k)
  then show ?case using closer_tick_op by blast
next
  case (keepalive st r)
  then show ?case using session_ops_op(2) session_ops_maps(2) proto_same by blast
next
  case (heartbeat st r)
  then show ?case using session_ops_op(3) session_ops_maps(3) proto_same by blast
next
  case (poll st r f w)
  then show ?case using session_ops_op(4) session_ops_maps(4) proto_same by blast
qed (use quiet_steps_op in \<open>simp_all add: quiet_steps_view proto.packet advances.stays, blast+\<close>)

lemma handler_inv_new: "handler_inv (Handler_new kp)"
  by (simp add: handler_inv_def Handler_new_def exclusive_def ids_ok_def tasks_ok_def task_of_def
      sessions_ok_def)

lemma handler_inv_step: "hstep en st st' \<Longrightarrow> handler_inv st \<Longrightarrow> handler_inv st'"
  using hstep_op op_on_inv by blast

lemma handler_inv_steps: "(hstep en)\<^sup>*\<^sup>* st st' \<Longrightarrow> handler_inv st \<Longrightarrow> handler_inv st'"
  by (induction rule: rtranclp_induct) (auto intro: handler_inv_step)

lemma reachable_inv: "(hstep en)\<^sup>*\<^sup>* (Handler_new kp) st \<Longrightarrow> handler_inv st"
  by (rule handler_inv_steps [OF _ handler_inv_new])

lemma sessions_kept_steps:
  "(hstep en)\<^sup>*\<^sup>* st st' \<Longrightarrow> handler_inv st \<Longrightarrow> sessions_kept st st'"
proof (induction rule: rtranclp_induct)
  case (step y z)
  then have "sessions_kept y z"
    using hstep_op [OF step.hyps(2)] handler_inv_steps [OF step.hyps(1)]
    by (auto simp: op_on_def sess_move_def)
  with step show ?case using sessions_kept_trans by blast
qed simp

end
