(* ===== verification/HandlerLocks.thy ===== *)
theory HandlerLocks
  imports HandlerSteps
begin

text \<open>
  The methods of \<open>Handler\<close> (\<open>src/src/handler.rs\<close>) at the grain of their locks. A method locks the
  four maps one after the other, and between two locks other tasks run: \<open>handle_incoming\<close> takes an
  entry out of its map, works on it and puts it back; \<open>remove_session\<close> visits the maps in turn;
  \<open>initiate\<close> and \<open>respond\<close> remove, spawn and insert. Each definition of \<open>Handler\<close> is what such a
  call does when nothing comes in between; calls on different identifiers never disturb each
  other; calls on the same one do.
\<close>

section \<open>The points between two locks\<close>

text \<open>What a removal is followed by: the end of the method, or the rest of \<open>initiate\<close> or
  \<open>respond\<close> with the one-time id it will draw.\<close>

datatype after = Return | Initiate uuid connection_info | Respond uuid connection_info

datatype ('h, 's) call =
    Look_poker socket_addr session_packet
  | Look_initiator socket_addr session_packet
  | Look_responder socket_addr session_packet
  | Look_established session_packet
  | Work_poker socket_addr session_packet "'h poker pending_entry"
  | Work_initiator socket_addr session_packet "'h initiator pending_entry"
  | Work_responder socket_addr session_packet "'s responder pending_entry"
  | Remove_established session_id "one_time_id option" after
  | Remove_responder session_id "one_time_id option" after
  | Remove_poker session_id "one_time_id option" after
  | Remove_initiator session_id "one_time_id option" after
  | Start session_id after
  | Insert_initiator session_id uuid "'h initiator"
  | Insert_poker session_id uuid "'h poker"

text \<open>The identifier a call is about.\<close>

fun call_id :: "('h, 's) call \<Rightarrow> session_id" where
  "call_id (Look_poker _ pkt) = packet_id pkt"
| "call_id (Look_initiator _ pkt) = packet_id pkt"
| "call_id (Look_responder _ pkt) = packet_id pkt"
| "call_id (Look_established pkt) = packet_id pkt"
| "call_id (Work_poker _ pkt _) = packet_id pkt"
| "call_id (Work_initiator _ pkt _) = packet_id pkt"
| "call_id (Work_responder _ pkt _) = packet_id pkt"
| "call_id (Remove_established i _ _) = i"
| "call_id (Remove_responder i _ _) = i"
| "call_id (Remove_poker i _ _) = i"
| "call_id (Remove_initiator i _ _) = i"
| "call_id (Start i _) = i"
| "call_id (Insert_initiator i _ _) = i"
| "call_id (Insert_poker i _ _) = i"

datatype ('h, 's) progress =
    Next "('h, 's) call"
  | Handled "(unit, bincode_error) res"
  | Removed
  | Connecting "(session_ready, snow_error) res"

text \<open>The locked section that follows each point. \<open>Work\<close> is what \<open>handle_incoming\<close> does with the
  entry it took out; until the insertion at its end it touches nothing that another call sees.\<close>

fun block :: "('b, 'h, 's) env \<Rightarrow> ('h, 's) call \<Rightarrow> ('h, 's) handler \<Rightarrow>
    ('h, 's) handler \<times> ('h, 's) progress" where
  "block en (Look_poker src pkt) st =
     (case pokers st (packet_id pkt) of
        Some e \<Rightarrow> (st\<lparr>pokers := (pokers st)(packet_id pkt := None)\<rparr>, Next (Work_poker src pkt e))
      | None \<Rightarrow> (st, Next (Look_initiator src pkt)))"
| "block en (Look_initiator src pkt) st =
     (case initiators st (packet_id pkt) of
        Some e \<Rightarrow> (st\<lparr>initiators := (initiators st)(packet_id pkt := None)\<rparr>, Next (Work_initiator src pkt e))
      | None \<Rightarrow> (st, Next (Look_responder src pkt)))"
| "block en (Look_responder src pkt) st =
     (case responders st (packet_id pkt) of
        Some e \<Rightarrow> (st\<lparr>responders := (responders st)(packet_id pkt := None)\<rparr>, Next (Work_responder src pkt e))
      | None \<Rightarrow> (st, Next (Look_established pkt)))"
| "block en (Look_established pkt) st = map_prod id Handled (incoming_established en pkt st)"
| "block en (Work_poker src pkt e) st = map_prod id Handled (incoming_poker en src pkt e st)"
| "block en (Work_initiator src pkt e) st = map_prod id Handled (incoming_initiator en src pkt e st)"
| "block en (Work_responder src pkt e) st = map_prod id Handled (incoming_responder en src pkt e st)"
| "block en (Remove_established i n k) st = (remove_if_established i n st, Next (Remove_responder i n k))"
| "block en (Remove_responder i n k) st = (remove_if_responder i n st, Next (Remove_poker i n k))"
| "block en (Remove_poker i n k) st = (remove_if_poker i n st, Next (Remove_initiator i n k))"
| "block en (Remove_initiator i n k) st =
     (remove_if_initiator i n st, if k = Return then Removed else Next (Start i k))"
| "block en (Start i Return) st = (st, Removed)"
| "block en (Start i (Initiate n info)) st =
     (case SnowInitiator_new (snow_of en) (keypair st) (public_key info) of
        Ok ini \<Rightarrow>
          (case PendingSessionInitiator_new i info ini (rt st) of
             (rt1, pending) \<Rightarrow> (st\<lparr>rt := rt1\<rparr>, Next (Insert_initiator i n pending)))
      | Err e \<Rightarrow> (st, Connecting (Err e))
      | Panic x \<Rightarrow> (st, Connecting (Panic x)))"
| "block en (Start i (Respond n info)) st =
     (case SnowResponder_new (snow_of en) (keypair st) (public_key info) of
        Ok rsp \<Rightarrow>
          (case PendingSessionPoker_new i info rsp (rt st) of
             (rt1, poking) \<Rightarrow> (st\<lparr>rt := rt1\<rparr>, Next (Insert_poker i n poking)))
      | Err e \<Rightarrow> (st, Connecting (Err e))
      | Panic x \<Rightarrow> (st, Connecting (Panic x)))"
| "block en (Insert_initiator i n p) st =
     (let c = next_cell st;
          st1 = new_cell st
      in (st1\<lparr>initiators := (initiators st1)(i \<mapsto> (p, n, c))\<rparr>, Connecting (Ok (SessionReady_new i n c))))"
| "block en (Insert_poker i n p) st =
     (let c = next_cell st;
          st1 = new_cell st
      in (st1\<lparr>pokers := (pokers st1)(i \<mapsto> (p, n, c))\<rparr>, Connecting (Ok (SessionReady_new i n c))))"

section \<open>Uninterrupted calls\<close>

text \<open>A call that runs to its end alone; no method has more than six sections.\<close>

fun alone :: "nat \<Rightarrow> ('b, 'h, 's) env \<Rightarrow> ('h, 's) call \<Rightarrow> ('h, 's) handler \<Rightarrow>
    (('h, 's) handler \<times> ('h, 's) progress) option" where
  "alone 0 en c st = None"
| "alone (Suc k) en c st =
     (case block en c st of (st1, Next c1) \<Rightarrow> alone k en c1 st1 | out \<Rightarrow> Some out)"

lemma alone_handle_incoming:
  "deserialize (packet_codec en) data = Inr pkt \<Longrightarrow>
     alone 6 en (Look_poker src pkt) st = Some (map_prod id Handled (Handler_handle_incoming en src data st))"
  by (simp add: eval_nat_numeral Handler_handle_incoming_def Let_def split: option.split)
    (simp add: map_prod_def split_beta)

lemma alone_remove_session:
  "alone 6 en (Remove_established i n Return) st = Some (remove_session i n st, Removed)"
  by (simp add: eval_nat_numeral remove_session_def)

lemma alone_initiate:
  "alone 6 en (Remove_established i None (Initiate n info)) st =
     Some (map_prod id Connecting (Handler_initiate en n i info st))"
  by (simp add: eval_nat_numeral Handler_initiate_def remove_session_def PendingSessionInitiator_new_def
      new_cell_def Let_def split: res.split prod.split)

lemma alone_respond:
  "alone 6 en (Remove_established i None (Respond n info)) st =
     Some (map_prod id Connecting (Handler_respond en n i info st))"
  by (simp add: eval_nat_numeral Handler_respond_def remove_session_def PendingSessionPoker_new_def
      new_cell_def Let_def split: res.split prod.split)

section \<open>Interleavings\<close>

text \<open>What takes one lock only, or none: the methods on an established session, the polls and the
  turns of the tasks.\<close>

inductive single :: "('b, 'h, 's) env \<Rightarrow> ('h, 's) handler \<Rightarrow> ('h, 's) handler \<Rightarrow> bool"
  for en :: "('b, 'h, 's) env" where
  send: "single en st (fst (Handler_send en i d st))"
| recv_from: "single en st (fst (Handler_recv_from i u st))"
| close: "single en st (close_session i n st)"
| ready_poll: "single en st (fst (snd (SessionReady_poll w sr st)))"
| ready_drop: "single en st (SessionReady_drop sr st)"
| keepalive: "single en st (session_keepalive en r st)"
| heartbeat: "single en st (session_heartbeat r st)"
| poll: "single en st (fst (session_poll r f w st))"
| announce: "single en st (handler_announce en h st)"
| drain: "single en st (st\<lparr>rt := (rt st)\<lparr>outgoing :=
    (outgoing (rt st))\<lparr>chan_queue := tl (chan_queue (outgoing (rt st)))\<rparr>\<rparr>\<rparr>)"

lemma single_hstep: "single en st st' \<Longrightarrow> hstep en st st'"
  by (induction rule: single.induct) (rule hstep.intros)+

fun is_incoming :: "('h, 's) call \<Rightarrow> bool" where
  "is_incoming (Look_poker _ _) = True"
| "is_incoming (Look_initiator _ _) = True"
| "is_incoming (Look_responder _ _) = True"
| "is_incoming (Look_established _) = True"
| "is_incoming (Work_poker _ _ _) = True"
| "is_incoming (Work_initiator _ _ _) = True"
| "is_incoming (Work_responder _ _ _) = True"
| "is_incoming _ = False"

text \<open>The handler with the calls that are under way. There is one receiving task, so one packet is
  handled at a time; any number of calls of \<open>connect\<close> and of spawned removals may overlap.\<close>

inductive lstep ::
    "('b, 'h, 's) env \<Rightarrow> ('h, 's) handler \<times> ('h, 's) call list \<Rightarrow> ('h, 's) handler \<times> ('h, 's) call list \<Rightarrow> bool"
  for en :: "('b, 'h, 's) env" where
  arrives: "\<forall>c \<in> set cs. \<not> is_incoming c \<Longrightarrow> lstep en (st, cs) (st, cs @ [Look_poker src pkt])"
| connects: "k \<noteq> Return \<Longrightarrow> lstep en (st, cs) (st, cs @ [Remove_established i None k])"
| removes: "k < length (closing st) \<Longrightarrow> closing st ! k = (i, n) \<Longrightarrow>
    lstep en (st, cs) (st\<lparr>closing := take k (closing st) @ drop (Suc k) (closing st)\<rparr>,
      cs @ [Remove_established i (Some n) Return])"
| continues: "block en c st = (st', Next c') \<Longrightarrow> lstep en (st, xs @ c # ys) (st', xs @ c' # ys)"
| ends: "block en c st = (st', out) \<Longrightarrow> \<forall>c'. out \<noteq> Next c' \<Longrightarrow> \<forall>x. out \<noteq> Handled (Panic x) \<Longrightarrow>
    lstep en (st, xs @ c # ys) (st', xs @ ys)"
| other: "single en st st' \<Longrightarrow> lstep en (st, cs) (st', cs)"

text \<open>Steps in which no two calls under way are about the same identifier.\<close>

definition xstep ::
    "('b, 'h, 's) env \<Rightarrow> ('h, 's) handler \<times> ('h, 's) call list \<Rightarrow> ('h, 's) handler \<times> ('h, 's) call list \<Rightarrow> bool"
  where "xstep en a b \<longleftrightarrow> lstep en a b \<and> distinct (map call_id (snd b))"

section \<open>Calls on different identifiers\<close>

text \<open>The entry that a call holds, put into its map.\<close>

fun put :: "('h, 's) call \<Rightarrow> ('h, 's) handler \<Rightarrow> ('h, 's) handler" where
  "put (Work_poker _ pkt e) st = st\<lparr>pokers := (pokers st)(packet_id pkt \<mapsto> e)\<rparr>"
| "put (Work_initiator _ pkt e) st = st\<lparr>initiators := (initiators st)(packet_id pkt \<mapsto> e)\<rparr>"
| "put (Work_responder _ pkt e) st = st\<lparr>responders := (responders st)(packet_id pkt \<mapsto> e)\<rparr>"
| "put (Insert_initiator i n p) st = st\<lparr>initiators := (initiators st)(i \<mapsto> (p, n, 0))\<rparr>"
| "put (Insert_poker i n p) st = st\<lparr>pokers := (pokers st)(i \<mapsto> (p, n, 0))\<rparr>"
| "put _ st = st"

definition put_back :: "('h, 's) call list \<Rightarrow> ('h, 's) handler \<Rightarrow> ('h, 's) handler" where
  "put_back cs st = foldr put cs st"

lemma put_commute:
  "call_id c \<noteq> call_id d \<Longrightarrow> put c (put d st) = put d (put c st)"
  by (cases c; cases d) (simp_all add: fun_upd_twist)

lemma put_back_middle:
  assumes "distinct (map call_id (xs @ c # ys))"
  shows "put_back (xs @ c # ys) st = put c (put_back (xs @ ys) st)"
  using assms
proof (induction xs)
  case (Cons x xs)
  then show ?case by (simp add: put_back_def put_commute [of x c])
qed (simp add: put_back_def)

lemma put_frame [frame_simps]:
  "rt (put c st) = rt st" "established (put c st) = established st" "keypair (put c st) = keypair st"
  "sessions (put c st) = sessions st" "next_session (put c st) = next_session st"
  "cells (put c st) = cells st" "next_cell (put c st) = next_cell st" "closing (put c st) = closing st"
  by (cases c; simp)+

text \<open>Adding an entry for the identifier \<open>j\<close> to one of the pending maps.\<close>

abbreviation with_poker :: "session_id \<Rightarrow> 'h poker pending_entry \<Rightarrow> ('h, 's) handler \<Rightarrow> ('h, 's) handler" where
  "with_poker j e st \<equiv> st\<lparr>pokers := (pokers st)(j \<mapsto> e)\<rparr>"

abbreviation with_initiator ::
    "session_id \<Rightarrow> 'h initiator pending_entry \<Rightarrow> ('h, 's) handler \<Rightarrow> ('h, 's) handler" where
  "with_initiator j e st \<equiv> st\<lparr>initiators := (initiators st)(j \<mapsto> e)\<rparr>"

abbreviation with_responder ::
    "session_id \<Rightarrow> 's responder pending_entry \<Rightarrow> ('h, 's) handler \<Rightarrow> ('h, 's) handler" where
  "with_responder j e st \<equiv> st\<lparr>responders := (responders st)(j \<mapsto> e)\<rparr>"

lemma remove_established_pending:
  "remove_established i (st\<lparr>pokers := x\<rparr>) = (remove_established i st)\<lparr>pokers := x\<rparr>"
  "remove_established i (st\<lparr>initiators := y\<rparr>) = (remove_established i st)\<lparr>initiators := y\<rparr>"
  "remove_established i (st\<lparr>responders := z\<rparr>) = (remove_established i st)\<lparr>responders := z\<rparr>"
  by (simp_all add: remove_established_def drop_session_def split: option.split)

lemma upgrade_session_pending:
  "fst (upgrade_session i n s c (st\<lparr>pokers := x\<rparr>)) = (fst (upgrade_session i n s c st))\<lparr>pokers := x\<rparr>"
  "fst (upgrade_session i n s c (st\<lparr>initiators := y\<rparr>)) = (fst (upgrade_session i n s c st))\<lparr>initiators := y\<rparr>"
  "fst (upgrade_session i n s c (st\<lparr>responders := z\<rparr>)) = (fst (upgrade_session i n s c st))\<lparr>responders := z\<rparr>"
  by (simp_all add: upgrade_session_def remove_established_pending Let_def)

lemma upgrade_session_rt_pending:
  "fst (upgrade_session i n s c (st\<lparr>pokers := x, rt := r\<rparr>)) = (fst (upgrade_session i n s c (st\<lparr>rt := r\<rparr>)))\<lparr>pokers := x\<rparr>"
  "fst (upgrade_session i n s c (st\<lparr>initiators := y, rt := r\<rparr>)) =
     (fst (upgrade_session i n s c (st\<lparr>rt := r\<rparr>)))\<lparr>initiators := y\<rparr>"
  "fst (upgrade_session i n s c (st\<lparr>responders := z, rt := r\<rparr>)) =
     (fst (upgrade_session i n s c (st\<lparr>rt := r\<rparr>)))\<lparr>responders := z\<rparr>"
  by (simp_all add: upgrade_session_def remove_established_def drop_session_def Let_def split: option.split)

lemma incoming_poker_commute:
  assumes "j \<noteq> packet_id pkt"
  shows "incoming_poker en src pkt e (with_poker j x st) = map_prod (with_poker j x) id (incoming_poker en src pkt e st)"
    and "incoming_poker en src pkt e (with_initiator j y st) = map_prod (with_initiator j y) id (incoming_poker en src pkt e st)"
    and "incoming_poker en src pkt e (with_responder j z st) = map_prod (with_responder j z) id (incoming_poker en src pkt e st)"
  using assms by (simp_all add: incoming_poker_def fun_upd_twist split: prod.split res.split)

lemma incoming_initiator_commute:
  assumes "j \<noteq> packet_id pkt"
  shows "incoming_initiator en src pkt e (with_poker j x st) = map_prod (with_poker j x) id (incoming_initiator en src pkt e st)"
    and "incoming_initiator en src pkt e (with_initiator j y st) =
      map_prod (with_initiator j y) id (incoming_initiator en src pkt e st)"
    and "incoming_initiator en src pkt e (with_responder j z st) =
      map_prod (with_responder j z) id (incoming_initiator en src pkt e st)"
  using assms
  by (simp_all add: incoming_initiator_def fun_upd_twist upgrade_session_rt_pending upgrade_session_maps
      split: prod.split res.split session_result.split)

lemma incoming_responder_commute:
  assumes "j \<noteq> packet_id pkt"
  shows "incoming_responder en src pkt e (with_poker j x st) = map_prod (with_poker j x) id (incoming_responder en src pkt e st)"
    and "incoming_responder en src pkt e (with_initiator j y st) =
      map_prod (with_initiator j y) id (incoming_responder en src pkt e st)"
    and "incoming_responder en src pkt e (with_responder j z st) =
      map_prod (with_responder j z) id (incoming_responder en src pkt e st)"
  using assms
  by (simp_all add: incoming_responder_def fun_upd_twist upgrade_session_rt_pending upgrade_session_maps
      split: prod.split res.split)

lemma incoming_established_commute:
  "incoming_established en pkt (with_poker j x st) = map_prod (with_poker j x) id (incoming_established en pkt st)"
  "incoming_established en pkt (with_initiator j y st) = map_prod (with_initiator j y) id (incoming_established en pkt st)"
  "incoming_established en pkt (with_responder j z st) = map_prod (with_responder j z) id (incoming_established en pkt st)"
  by (simp_all add: incoming_established_def split: prod.split option.split)

lemma remove_block_commute:
  assumes "i \<noteq> j"
  shows "remove_if_established i n (with_poker j x st) = with_poker j x (remove_if_established i n st)"
    "remove_if_established i n (with_initiator j y st) = with_initiator j y (remove_if_established i n st)"
    "remove_if_established i n (with_responder j z st) = with_responder j z (remove_if_established i n st)"
    "remove_if_responder i n (with_poker j x st) = with_poker j x (remove_if_responder i n st)"
    "remove_if_responder i n (with_initiator j y st) = with_initiator j y (remove_if_responder i n st)"
    "remove_if_responder i n (with_responder j z st) = with_responder j z (remove_if_responder i n st)"
    "remove_if_poker i n (with_poker j x st) = with_poker j x (remove_if_poker i n st)"
    "remove_if_poker i n (with_initiator j y st) = with_initiator j y (remove_if_poker i n st)"
    "remove_if_poker i n (with_responder j z st) = with_responder j z (remove_if_poker i n st)"
    "remove_if_initiator i n (with_poker j x st) = with_poker j x (remove_if_initiator i n st)"
    "remove_if_initiator i n (with_initiator j y st) = with_initiator j y (remove_if_initiator i n st)"
    "remove_if_initiator i n (with_responder j z st) = with_responder j z (remove_if_initiator i n st)"
  using assms
  by (simp_all add: remove_if_established_def remove_if_responder_def remove_if_poker_def remove_if_initiator_def
      remove_established_pending frame_simps fun_upd_twist split: option.split)

lemmas section_commute = incoming_poker_commute incoming_initiator_commute incoming_responder_commute
  incoming_established_commute remove_block_commute

lemma block_commute_with:
  assumes "call_id c \<noteq> j"
  shows "block en c (with_poker j x st) = map_prod (with_poker j x) id (block en c st)"
    and "block en c (with_initiator j y st) = map_prod (with_initiator j y) id (block en c st)"
    and "block en c (with_responder j z st) = map_prod (with_responder j z) id (block en c st)"
proof -
  have "block en c (with_poker j x st) = map_prod (with_poker j x) id (block en c st)
    \<and> block en c (with_initiator j y st) = map_prod (with_initiator j y) id (block en c st)
    \<and> block en c (with_responder j z st) = map_prod (with_responder j z) id (block en c st)"
  proof (cases c)
    case (Start i k)
    then show ?thesis using assms
      by (cases k) (simp_all add: PendingSessionInitiator_new_def PendingSessionPoker_new_def split: res.split prod.split)
  qed (use assms in \<open>simp_all add: section_commute new_cell_def Let_def fun_upd_twist map_prod_def split_beta
      split: option.split\<close>)
  then show "block en c (with_poker j x st) = map_prod (with_poker j x) id (block en c st)"
    "block en c (with_initiator j y st) = map_prod (with_initiator j y) id (block en c st)"
    "block en c (with_responder j z st) = map_prod (with_responder j z) id (block en c st)"
    by simp_all
qed

lemma block_commute:
  "call_id c \<noteq> call_id d \<Longrightarrow> block en c (put d st) = map_prod (put d) id (block en c st)"
  by (cases d) (simp_all add: block_commute_with map_prod_def split_beta)

section \<open>The invariant between two locks\<close>

definition vacant :: "session_id \<Rightarrow> ('h, 's) handler \<Rightarrow> bool" where
  "vacant i st \<longleftrightarrow> pokers st i = None \<and> initiators st i = None \<and> responders st i = None \<and> established st i = None"

text \<open>What a point relies on: a taken entry is in no map, and a removal for a new connection leaves
  the maps it has visited empty.\<close>

fun relies :: "('h, 's) call \<Rightarrow> ('h, 's) handler \<Rightarrow> bool" where
  "relies (Work_poker _ pkt _) st = vacant (packet_id pkt) st"
| "relies (Work_initiator _ pkt _) st = vacant (packet_id pkt) st"
| "relies (Work_responder _ pkt _) st = vacant (packet_id pkt) st"
| "relies (Remove_established i n k) st \<longleftrightarrow> n = None \<or> k = Return"
| "relies (Remove_responder i n k) st \<longleftrightarrow> (n = None \<and> established st i = None) \<or> k = Return"
| "relies (Remove_poker i n k) st \<longleftrightarrow>
     (n = None \<and> established st i = None \<and> responders st i = None) \<or> k = Return"
| "relies (Remove_initiator i n k) st \<longleftrightarrow>
     (n = None \<and> established st i = None \<and> responders st i = None \<and> pokers st i = None) \<or> k = Return"
| "relies (Start i _) st = vacant i st"
| "relies (Insert_initiator i _ _) st = vacant i st"
| "relies (Insert_poker i _ _) st = vacant i st"
| "relies _ st = True"

text \<open>It stays true as long as nobody fills one of the maps under the identifier.\<close>

definition emptier :: "session_id \<Rightarrow> ('h, 's) handler \<Rightarrow> ('h, 's) handler \<Rightarrow> bool" where
  "emptier j st st' \<longleftrightarrow>
     (pokers st j = None \<longrightarrow> pokers st' j = None) \<and> (initiators st j = None \<longrightarrow> initiators st' j = None)
     \<and> (responders st j = None \<longrightarrow> responders st' j = None) \<and> (established st j = None \<longrightarrow> established st' j = None)"

lemma relies_emptier: "emptier (call_id c) st st' \<Longrightarrow> relies c st \<Longrightarrow> relies c st'"
  by (cases c) (auto simp: emptier_def vacant_def)

lemma same_at_emptier: "same_at j st st' \<Longrightarrow> emptier j st st'"
  by (simp add: same_at_def emptier_def)

lemma relies_put: "call_id c \<noteq> call_id d \<Longrightarrow> relies c (put d st) = relies c st"
  by (cases c; cases d) (simp_all add: vacant_def)

lemma relies_put_back:
  "call_id c \<notin> call_id ` set cs \<Longrightarrow> relies c (put_back cs st) = relies c st"
  by (induction cs) (simp_all add: put_back_def relies_put)

lemma remove_block_other:
  assumes "j \<noteq> i"
  shows "same_at j st (remove_if_established i n st)" and "same_at j st (remove_if_responder i n st)"
    and "same_at j st (remove_if_poker i n st)" and "same_at j st (remove_if_initiator i n st)"
  using assms by (simp_all add: same_at_def frame_simps)

lemma block_other: "j \<noteq> call_id c \<Longrightarrow> same_at j st (fst (block en c st))"
proof (cases c)
  case (Start i k)
  then show "j \<noteq> call_id c \<Longrightarrow> same_at j st (fst (block en c st))"
    by (cases k) (simp_all add: same_at_def split: res.split prod.split)
next
  case (Insert_initiator i n p)
  then show "j \<noteq> call_id c \<Longrightarrow> same_at j st (fst (block en c st))"
    by (simp add: same_at_def new_cell_def Let_def)
next
  case (Insert_poker i n p)
  then show "j \<noteq> call_id c \<Longrightarrow> same_at j st (fst (block en c st))"
    by (simp add: same_at_def new_cell_def Let_def)
qed (simp_all add: incoming_other same_at_taken remove_block_other split: option.split)

lemma quiet_steps_same:
  "same_at j st (close_session i n st)" "same_at j st (fst (snd (SessionReady_poll w sr st)))"
  "same_at j st (SessionReady_drop sr st)" "same_at j st (handler_announce en h st)"
  "same_at j st (st\<lparr>rt := r\<rparr>)"
  by (simp_all add: same_at_def close_session_def SessionReady_poll_def SessionReady_drop_def
      handler_announce_def Let_def)

lemma single_emptier: "single en st st' \<Longrightarrow> emptier j st st'"
proof (induction rule: single.induct)
  case (recv_from st i u)
  show ?case
    by (auto simp: Handler_recv_from_def emptier_def frame_simps split: option.split)
qed (simp_all add: same_at_emptier session_ops_maps quiet_steps_same)

lemma single_ops_put:
  "fst (Handler_send en i d (put c st)) = put c (fst (Handler_send en i d st))"
  "fst (Handler_recv_from i u (put c st)) = put c (fst (Handler_recv_from i u st))"
  "close_session i n (put c st) = put c (close_session i n st)"
  "fst (snd (SessionReady_poll w sr (put c st))) = put c (fst (snd (SessionReady_poll w sr st)))"
  "SessionReady_drop sr (put c st) = put c (SessionReady_drop sr st)"
  "session_keepalive en r (put c st) = put c (session_keepalive en r st)"
  "session_heartbeat r (put c st) = put c (session_heartbeat r st)"
  "fst (session_poll r f w (put c st)) = put c (fst (session_poll r f w st))"
  "handler_announce en h (put c st) = put c (handler_announce en h st)"
  "(put c st)\<lparr>rt := x\<rparr> = put c (st\<lparr>rt := x\<rparr>)"
  "(put c st)\<lparr>closing := y\<rparr> = put c (st\<lparr>closing := y\<rparr>)"
proof -
  show "fst (Handler_send en i d (put c st)) = put c (fst (Handler_send en i d st))"
    by (cases c) (simp_all add: Handler_send_def split: option.split prod.split)
  show "fst (Handler_recv_from i u (put c st)) = put c (fst (Handler_recv_from i u st))"
    by (cases c) (simp_all add: Handler_recv_from_def remove_established_pending frame_simps
        split: option.split prod.split)
  show "fst (snd (SessionReady_poll w sr (put c st))) = put c (fst (snd (SessionReady_poll w sr st)))"
    by (cases c) (simp_all add: SessionReady_poll_def Let_def)
  show "SessionReady_drop sr (put c st) = put c (SessionReady_drop sr st)"
    by (cases c) (simp_all add: SessionReady_drop_def close_session_def Let_def)
  show "session_keepalive en r (put c st) = put c (session_keepalive en r st)"
    by (cases c) (simp_all add: session_keepalive_def split: option.split prod.split)
  show "session_heartbeat r (put c st) = put c (session_heartbeat r st)"
    by (cases c) (simp_all add: session_heartbeat_def split: option.split prod.split)
  show "fst (session_poll r f w (put c st)) = put c (fst (session_poll r f w st))"
    by (cases c) (simp_all add: session_poll_def split: option.split prod.split)
qed (cases c; simp add: close_session_def handler_announce_def)+

lemma single_put: "single en st st' \<Longrightarrow> single en (put c st) (put c st')"
proof (induction rule: single.induct)
  case (drain st)
  have "single en (put c st) ((put c st)\<lparr>rt := (rt (put c st))\<lparr>outgoing :=
      (outgoing (rt (put c st)))\<lparr>chan_queue := tl (chan_queue (outgoing (rt (put c st))))\<rparr>\<rparr>\<rparr>)"
    by (rule single.drain)
  then show ?case by (simp only: single_ops_put put_frame)
qed (simp_all only: single_ops_put [symmetric] single.intros)

lemma single_put_back: "single en st st' \<Longrightarrow> single en (put_back cs st) (put_back cs st')"
  by (induction cs) (simp_all add: put_back_def single_put)

lemma block_put_back:
  "call_id c \<notin> call_id ` set cs \<Longrightarrow> block en c (put_back cs st) = map_prod (put_back cs) id (block en c st)"
proof (induction cs)
  case (Cons d cs)
  have "block en c (put_back (d # cs) st) = map_prod (put d) id (block en c (put_back cs st))"
    using block_commute [of c d en "put_back cs st"] Cons.prems by (simp add: put_back_def)
  also have "\<dots> = map_prod (put_back (d # cs)) id (block en c st)"
    using Cons by (simp add: put_back_def map_prod_def split_beta)
  finally show ?case .
qed (simp add: put_back_def map_prod_def)

lemma closing_put_back: "(put_back cs st)\<lparr>closing := y\<rparr> = put_back cs (st\<lparr>closing := y\<rparr>)"
  by (induction cs) (simp_all add: put_back_def single_ops_put)

end
