(* ===== verification/HandlerProps.thy ===== *)
theory HandlerProps
  imports HandlerSteps SessionLink
begin

text \<open>
  The properties of the handler (\<open>src/src/handler.rs\<close>), over every state reachable from
  \<open>Handler::new\<close> by the steps of \<open>HandlerSteps\<close>.
\<close>

section \<open>What a packet touches\<close>

lemma into_responder_tasks:
  "h \<noteq> poker_handle p \<Longrightarrow> h \<noteq> next_task r \<Longrightarrow>
     tasks (fst (poker_into_responder en p r)) h = tasks r h"
  by (auto simp: poker_into_responder_def PendingSessionResponder_new_def spawn_def abort_task_def
      Let_def split: option.split res.split prod.split)

lemma initiator_session_tasks:
  "h \<noteq> ini_handle p \<Longrightarrow> tasks (fst (initiator_session en p r)) h = tasks r h"
  by (auto simp: initiator_session_def abort_task_def Let_def
      split: option.split res.split prod.split receive_response_result.split)

lemma incoming_poker_tasks:
  assumes "h \<noteq> poker_handle p" and "h \<noteq> next_task (rt st)"
  shows "tasks (rt (fst (incoming_poker en src pkt (p, n, c) st))) h = tasks (rt st) h"
proof -
  obtain r1 p1 where r1: "poker_handle_incoming en src pkt (rt st) p = (r1, p1)" by force
  then have f: "poker_handle p1 = poker_handle p" "tasks r1 = tasks (rt st)"
      "next_task r1 = next_task (rt st)"
    using poker_incoming_frame [of en src pkt "rt st" p] by auto
  obtain r2 x where r2: "poker_into_responder en p1 r1 = (r2, x)" by force
  then have "tasks r2 h = tasks (rt st) h"
    using into_responder_tasks [of h p1 r1 en] f assms by simp
  then show ?thesis by (cases x) (simp_all add: incoming_poker_def r1 r2 f)
qed

lemma incoming_initiator_tasks:
  assumes "h \<noteq> ini_handle p"
  shows "tasks (rt (fst (incoming_initiator en src pkt (p, n, c) st))) h = tasks (rt st) h"
proof -
  obtain r1 p1 where r1: "initiator_handle_incoming en src pkt (rt st) p = (r1, p1)" by force
  then have f: "ini_handle p1 = ini_handle p" "tasks r1 = tasks (rt st)"
    using initiator_incoming_frame [of en src pkt "rt st" p] by auto
  obtain r2 x where r2: "initiator_session en p1 r1 = (r2, x)" by force
  then have "tasks r2 h = tasks (rt st) h"
    using initiator_session_tasks [of h p1 en r1] f assms by simp
  then show ?thesis
    by (simp add: incoming_initiator_def r1 r2 f upgrade_session_maps
        split: res.split session_result.split)
qed

lemma responder_session_tasks:
  "h \<noteq> rsp_handle p \<Longrightarrow> tasks (fst (responder_session en p r)) h = tasks r h"
  by (simp add: responder_session_def abort_task_def)

lemma incoming_responder_tasks:
  assumes "h \<noteq> rsp_handle p"
  shows "tasks (rt (fst (incoming_responder en src pkt (p, n, c) st))) h = tasks (rt st) h"
proof -
  obtain r1 p1 y where r1: "responder_handle_incoming en src pkt (rt st) p = (r1, p1, y)"
    by (metis surj_pair)
  then have f: "rsp_handle p1 = rsp_handle p" "tasks r1 = tasks (rt st)"
    using responder_incoming_frame [of en src pkt "rt st" p] by auto
  obtain r2 x where r2: "responder_session en p1 r1 = (r2, x)" by force
  then have "tasks r2 h = tasks (rt st) h"
    using responder_session_tasks [of h p1 en r1] f assms by simp
  then show ?thesis
    by (cases y; cases x) (simp_all add: incoming_responder_def r1 r2 f upgrade_session_maps)
qed

lemma upgrade_session_sessions:
  "r \<noteq> next_session st \<Longrightarrow> (\<forall>n. established st i \<noteq> Some (n, r)) \<Longrightarrow>
     sessions (fst (upgrade_session i m s c st)) r = sessions st r"
  by (auto simp: upgrade_session_def remove_established_def drop_session_def Let_def
      split: option.split)

lemma incoming_initiator_sessions:
  assumes "r \<noteq> next_session st" and "\<forall>n. established st (packet_id pkt) \<noteq> Some (n, r)"
  shows "sessions (fst (incoming_initiator en src pkt e st)) r = sessions st r"
  using assms
  by (simp add: incoming_initiator_def upgrade_session_sessions
      split: prod.split res.split session_result.split)

lemma incoming_responder_sessions:
  assumes "r \<noteq> next_session st" and "\<forall>n. established st (packet_id pkt) \<noteq> Some (n, r)"
  shows "sessions (fst (incoming_responder en src pkt e st)) r = sessions st r"
  using assms
  by (simp add: incoming_responder_def upgrade_session_sessions split: prod.split res.split)

lemma incoming_established_sessions:
  "\<forall>n. established st (packet_id pkt) \<noteq> Some (n, r) \<Longrightarrow>
     sessions (fst (incoming_established en pkt st)) r = sessions st r
     \<and> tasks (rt (fst (incoming_established en pkt st))) = tasks (rt st)"
  by (auto simp: incoming_established_def frame_simps split: option.split prod.split)

lemma incoming_poker_sessions: "sessions (fst (incoming_poker en src pkt e st)) = sessions st"
  by (simp add: incoming_poker_def split: prod.split res.split)

text \<open>A packet leaves the sessions and the tasks of all other identifiers alone.\<close>

lemma incoming_untouched:
  assumes inv: "handler_inv st" and pkt: "deserialize (packet_codec en) data = Inr pkt"
    and j: "j \<noteq> packet_id pkt"
  shows "established st j = Some (n, r) \<Longrightarrow>
      sessions (fst (Handler_handle_incoming en src data st)) r = sessions st r"
    and "task_of st j = Some h \<Longrightarrow>
      tasks (rt (fst (Handler_handle_incoming en src data st))) h = tasks (rt st) h"
proof -
  let ?i = "packet_id pkt"
  have ex: "exclusive st ?i" using inv by (simp add: handler_inv_def)
  {
    assume e: "established st j = Some (n, r)"
    then obtain s where s: "sessions st r = Some s" "sess_id s = j" and "r < next_session st"
      using inv by (fastforce simp: handler_inv_def sessions_ok_def)
    moreover have "\<forall>n. established st ?i \<noteq> Some (n, r)"
      using inv s j by (fastforce simp: handler_inv_def sessions_ok_def)
    ultimately show "sessions (fst (Handler_handle_incoming en src data st)) r = sessions st r"
      by (simp add: Handler_handle_incoming_def pkt Let_def incoming_poker_sessions
          incoming_initiator_sessions incoming_responder_sessions incoming_established_sessions
          split: option.split)
  }
  {
    assume h: "task_of st j = Some h"
    then have "h < next_task (rt st)" and "task_of st ?i \<noteq> Some h"
      using inv j unfolding handler_inv_def tasks_ok_def by blast+
    moreover have "task_of st ?i = Some (poker_handle p)" if "pokers st ?i = Some (p, x)" for p x
      using that by (rule task_of_poker)
    moreover have "task_of st ?i = Some (ini_handle p)" if "initiators st ?i = Some (p, x)" for p x
      using ex that by (rule task_of_initiator)
    moreover have "task_of st ?i = Some (rsp_handle p)" if "responders st ?i = Some (p, x)" for p x
      using ex that by (rule task_of_responder)
    moreover have "tasks (rt (fst (incoming_established en pkt st))) h = tasks (rt st) h"
      by (simp add: incoming_established_def frame_simps split: option.split prod.split)
    ultimately show "tasks (rt (fst (Handler_handle_incoming en src data st))) h = tasks (rt st) h"
      by (auto simp: Handler_handle_incoming_def pkt Let_def incoming_poker_tasks
          incoming_initiator_tasks incoming_responder_tasks split: option.split)
  }
qed

section \<open>A concrete handler\<close>

definition demo_env :: "(unit, unit, u8) env" where
  "demo_env = layout_env tag_snow"

definition demo_info :: connection_info where
  "demo_info = \<lparr>addresses = [SocketAddrV4 1 2], public_key = SnowPublicKey [9]\<rparr>"

definition demo_keypair :: snow_keypair where
  "demo_keypair = SnowKeypair (SnowPublicKey [1]) (SnowPrivateKey [2])"

text \<open>A handler that waits, under the identifier 5 and the one-time id 11, for an initiation.\<close>

definition demo_poking :: "(unit, u8) handler" where
  "demo_poking = fst (Handler_respond demo_env 11 5 demo_info (Handler_new demo_keypair))"

lemma demo_poking_reachable: "(hstep demo_env)\<^sup>*\<^sup>* (Handler_new demo_keypair) demo_poking"
  unfolding demo_poking_def by (rule r_into_rtranclp, rule hstep.respond)

lemma remove_session_new: "remove_session i otid (Handler_new kp) = Handler_new kp"
  by (simp add: remove_session_def remove_block_defs Handler_new_def)

definition demo_poker :: "unit poker" where
  "demo_poker = \<lparr>poker_handle = 0, poker_remote = None, poker_waker = None, poker_id = 5,
     poker_responder = SnowResponder ()\<rparr>"

lemma demo_poking_poker: "pokers demo_poking = [5 \<mapsto> (demo_poker, 11, 0)]"
  and demo_poking_rest: "initiators demo_poking = (\<lambda>_. None)" "responders demo_poking = (\<lambda>_. None)"
    "established demo_poking = (\<lambda>_. None)"
proof -
  have b: "SnowResponder_new tag_snow demo_keypair (SnowPublicKey [9]) = Ok (SnowResponder ())"
    by (simp add: SnowResponder_new_def demo_keypair_def tag_snow_def snow_builder_def rust_std)
  show "pokers demo_poking = [5 \<mapsto> (demo_poker, 11, 0)]" "initiators demo_poking = (\<lambda>_. None)"
    "responders demo_poking = (\<lambda>_. None)" "established demo_poking = (\<lambda>_. None)"
    unfolding demo_poking_def Handler_respond_def remove_session_new
    by (simp_all add: b demo_env_def demo_info_def layout_env_def Handler_new_def
        PendingSessionPoker_new_def spawn_def new_cell_def demo_poker_def Let_def)
qed

lemma demo_poking_task:
  "tasks (rt demo_poking) 0 =
     Some \<lparr>ann_addresses = [SocketAddrV4 1 2], ann_id = 5, ann_message = HandshakePoke\<rparr>"
proof -
  have b: "SnowResponder_new tag_snow demo_keypair (SnowPublicKey [9]) = Ok (SnowResponder ())"
    by (simp add: SnowResponder_new_def demo_keypair_def tag_snow_def snow_builder_def rust_std)
  show ?thesis
    unfolding demo_poking_def Handler_respond_def remove_session_new
    by (simp add: b demo_env_def demo_info_def layout_env_def Handler_new_def
        PendingSessionPoker_new_def spawn_def new_cell_def Let_def)
qed

text \<open>A handler that initiates, and the same handler after the response.\<close>

definition demo_initiating :: "(unit, u8) handler" where
  "demo_initiating = fst (Handler_initiate demo_env 12 5 demo_info (Handler_new demo_keypair))"

definition demo_initiator :: "unit initiator" where
  "demo_initiator = \<lparr>ini_handle = 0, ini_remote = None, ini_waker = None, ini_id = 5,
     ini_initiator = SnowInitiator () (SnowInitiation [])\<rparr>"

lemma demo_initiating_reachable: "(hstep demo_env)\<^sup>*\<^sup>* (Handler_new demo_keypair) demo_initiating"
  unfolding demo_initiating_def by (rule r_into_rtranclp, rule hstep.initiate)

lemma demo_initiating_initiator: "initiators demo_initiating = [5 \<mapsto> (demo_initiator, 12, 0)]"
  and demo_initiating_rest: "pokers demo_initiating = (\<lambda>_. None)" "responders demo_initiating = (\<lambda>_. None)"
    "established demo_initiating = (\<lambda>_. None)" "next_session demo_initiating = 0"
    "sessions demo_initiating = (\<lambda>_. None)" "cells demo_initiating 0 =
      \<lparr>notices = 0, receiver_alive = True, ready_wakers = []\<rparr>"
proof -
  have b: "SnowInitiator_new tag_snow demo_keypair (SnowPublicKey [9])
      = Ok (SnowInitiator () (SnowInitiation []))"
    by (simp add: SnowInitiator_new_def demo_keypair_def tag_snow_def snow_builder_def rust_std)
  show "initiators demo_initiating = [5 \<mapsto> (demo_initiator, 12, 0)]" "pokers demo_initiating = (\<lambda>_. None)"
    "responders demo_initiating = (\<lambda>_. None)" "established demo_initiating = (\<lambda>_. None)"
    "next_session demo_initiating = 0" "sessions demo_initiating = (\<lambda>_. None)"
    "cells demo_initiating 0 = \<lparr>notices = 0, receiver_alive = True, ready_wakers = []\<rparr>"
    unfolding demo_initiating_def Handler_initiate_def remove_session_new
    by (simp_all add: b demo_env_def demo_info_def layout_env_def Handler_new_def
        PendingSessionInitiator_new_def spawn_def new_cell_def demo_initiator_def Let_def)
qed

definition demo_datagram :: "session_id \<Rightarrow> raw_message \<Rightarrow> bytes" where
  "demo_datagram i m = put_packet (SessionPacket_new i (put_raw m))"

lemma demo_datagram_des:
  assumes "in_memory (put_raw m)"
  shows "deserialize (packet_codec demo_env) (demo_datagram i m) = Inr (SessionPacket_new i (put_raw m))"
  using assms
  by (simp add: demo_env_def layout_env_def layout_codec_def demo_datagram_def put_packet_def
      take_packet_def SessionPacket_new_def)

lemma demo_raw:
  "raw_in_memory m \<Longrightarrow> deserialize (raw_codec demo_env) (put_raw m) = Inr m"
  using put_take_raw [of m] by (simp add: demo_env_def layout_env_def layout_codec_def)

definition demo_established :: "(unit, u8) handler" where
  "demo_established = fst (Handler_handle_incoming demo_env (SocketAddrV4 1 2)
     (demo_datagram 5 (HandshakeResponse (SnowResponse []))) demo_initiating)"

lemma demo_response:
  "Handler_handle_incoming demo_env (SocketAddrV4 1 2)
     (demo_datagram 5 (HandshakeResponse (SnowResponse []))) demo_initiating =
   (fst (upgrade_session 5 12 demo_session 0
      (demo_initiating\<lparr>initiators := (initiators demo_initiating)(5 := None),
         rt := abort_task 0 (rt demo_initiating)\<rparr>)), Ok ())"
proof -
  let ?m = "HandshakeResponse (SnowResponse [])"
  have des: "deserialize (packet_codec demo_env) (demo_datagram 5 ?m)
      = Inr (SessionPacket_new 5 (put_raw ?m))"
    by (rule demo_datagram_des) (simp add: in_memory_def)
  have raw: "deserialize (raw_codec demo_env) (put_raw ?m) = Inr ?m"
    by (rule demo_raw) (simp add: in_memory_def)
  have sn: "snow_of demo_env = tag_snow" by (simp add: demo_env_def layout_env_def)
  have new: "Session_new demo_env 5 (SocketAddrV4 1 2) (from_stateless 7) = Ok demo_session"
    unfolding demo_env_def by (rule demo_session_new)
  have resp: "receive_response tag_snow (SnowInitiator () (SnowInitiation [])) (SnowResponse [])
      = Ok (ReceiveOk (from_stateless 7))"
    by (simp add: tag_snow_def rust_std)
  have inc: "initiator_handle_incoming demo_env (SocketAddrV4 1 2) (SessionPacket_new 5 (put_raw ?m)) r
        demo_initiator = (r, demo_initiator\<lparr>ini_remote := Some (SocketAddrV4 1 2, SnowResponse [])\<rparr>)" for r
    using raw by (simp add: initiator_handle_incoming_def SessionPacket_new_def demo_initiator_def)
  have sess: "initiator_session demo_env
        (demo_initiator\<lparr>ini_remote := Some (SocketAddrV4 1 2, SnowResponse [])\<rparr>) r
      = (abort_task 0 r, Ok (SessionOk demo_session))" for r
    using resp new
    by (simp add: initiator_session_def sn demo_initiator_def del: receive_response.simps)
  show ?thesis
    unfolding Handler_handle_incoming_def des
    by (simp add: demo_initiating_initiator demo_initiating_rest incoming_initiator_def inc sess
        initiator_is_ready_def Let_def del: put_raw.simps)
qed

lemma demo_established_reachable: "(hstep demo_env)\<^sup>*\<^sup>* (Handler_new demo_keypair) demo_established"
  unfolding demo_established_def
  by (rule rtranclp.rtrancl_into_rtrancl [OF demo_initiating_reachable hstep.incoming])
    (simp add: demo_response)

lemma demo_established_session: "sessions demo_established 0 = Some demo_session"
  by (simp add: demo_established_def demo_response upgrade_session_def remove_established_def
      demo_initiating_rest Let_def)

section \<open>Properties\<close>

text \<open>C5 (invariant). In every reachable state of the handler an identifier is in at most one of the
  four maps; every announcing task that still runs is the task of the pending entry of its
  identifier, so none outlives its entry; and every established entry has a session with its own
  identifier.\<close>

theorem handler_invariant:
  assumes "(hstep en)\<^sup>*\<^sup>* (Handler_new kp) st"
  shows "exclusive st i \<and> (tasks (rt st) h = Some t \<longrightarrow> task_of st (ann_id t) = Some h)
    \<and> (established st i = Some (n, r) \<longrightarrow> (\<exists>s. sessions st r = Some s \<and> sess_id s = i))"
  using reachable_inv [OF assms] by (simp add: handler_inv_def tasks_ok_def sessions_ok_def)

theorem handler_invariant_witness:
  "exclusive demo_poking 5 \<and> task_of demo_poking 5 = Some 0"
  using handler_invariant [OF demo_poking_reachable, of 5 0
      "\<lparr>ann_addresses = [SocketAddrV4 1 2], ann_id = 5, ann_message = HandshakePoke\<rparr>"]
    demo_poking_task
  by simp

text \<open>C13 (refinement). The handler implements the protocol of an identifier. Each step of a
  reachable handler, whatever the packet, call, timer or removal, is one move of one identifier:
  poking to responding to established, or initiating to established, always under the one-time id
  it started with; or its end; or a new attempt. Every other identifier stays where it is.\<close>

theorem handler_refines_protocol:
  assumes "(hstep en)\<^sup>*\<^sup>* (Handler_new kp) st" and "hstep en st st'"
  shows "\<exists>i. proto (view st i) (view st' i) \<and> (\<forall>j. j \<noteq> i \<longrightarrow> view st' j = view st j)"
  using hstep_op [OF assms(2) reachable_inv [OF assms(1)]] same_at_view
  unfolding op_on_def by metis

theorem handler_refines_protocol_witness:
  "\<exists>i. proto (view (Handler_new demo_keypair :: (unit, u8) handler) i) (view demo_poking i)
     \<and> (\<forall>j. j \<noteq> i \<longrightarrow> view demo_poking j = view (Handler_new demo_keypair :: (unit, u8) handler) j)"
  unfolding demo_poking_def
  by (rule handler_refines_protocol [OF rtranclp.rtrancl_refl hstep.respond])

text \<open>C11 (safety). Isolation: a datagram for one identifier, genuine or not, changes neither the
  entries nor the session nor the announcing task of any other identifier.\<close>

theorem packet_isolation:
  assumes "(hstep en)\<^sup>*\<^sup>* (Handler_new kp) st" and "deserialize (packet_codec en) data = Inr pkt"
    and "j \<noteq> packet_id pkt" and "st' = fst (Handler_handle_incoming en src data st)"
  shows "same_at j st st'
    \<and> (established st j = Some (n, r) \<longrightarrow> sessions st' r = sessions st r)
    \<and> (task_of st j = Some h \<longrightarrow> tasks (rt st') h = tasks (rt st) h)"
  using incoming_untouched [OF reachable_inv [OF assms(1)] assms(2,3)] handle_incoming_other assms(2-4)
  by (metis sum.inject(2))

theorem packet_isolation_witness:
  "\<exists>st'. st' = fst (Handler_handle_incoming demo_env (SocketAddrV4 3 4) (demo_datagram 6 HandshakePoke) demo_poking)
     \<and> same_at 5 demo_poking st' \<and> tasks (rt st') 0 = tasks (rt demo_poking) 0"
proof (rule exI, rule conjI, rule refl)
  let ?st = "fst (Handler_handle_incoming demo_env (SocketAddrV4 3 4) (demo_datagram 6 HandshakePoke) demo_poking)"
  have "task_of demo_poking 5 = Some 0" by (simp add: task_of_def demo_poking_poker demo_poker_def)
  then show "same_at 5 demo_poking ?st \<and> tasks (rt ?st) 0 = tasks (rt demo_poking) 0"
    using packet_isolation [OF demo_poking_reachable demo_datagram_des _ refl, of HandshakePoke 5 6]
    by (simp add: in_memory_def)
qed

text \<open>C19 (safety). A removal that was spawned for an earlier session and runs only after the
  identifier was connected anew (or is gone) changes nothing.\<close>

theorem stale_close_ignored:
  assumes "(hstep en)\<^sup>*\<^sup>* (Handler_new kp) st" and "k < length (closing st)"
    and "closing st ! k = (i, n)" and "\<forall>x. view st i \<noteq> Some (x, n)"
  shows "closer_tick k st = st\<lparr>closing := take k (closing st) @ drop (Suc k) (closing st)\<rparr>"
proof -
  have "exclusive st i" using reachable_inv [OF assms(1)] by (simp add: handler_inv_def)
  then show ?thesis
    using assms(2-4) by (simp add: closer_tick_def remove_session_stale closing_frame)
qed

theorem stale_close_ignored_witness:
  "closer_tick 0 (close_session 5 99 demo_poking) =
     (close_session 5 99 demo_poking)\<lparr>closing := take 0 (closing (close_session 5 99 demo_poking))
        @ drop (Suc 0) (closing (close_session 5 99 demo_poking))\<rparr>"
proof (rule stale_close_ignored [where i = 5 and n = 99])
  show "(hstep demo_env)\<^sup>*\<^sup>* (Handler_new demo_keypair) (close_session 5 99 demo_poking)"
    by (rule rtranclp.rtrancl_into_rtrancl [OF demo_poking_reachable hstep.close])
  have "closing demo_poking = []"
    unfolding demo_poking_def Handler_respond_def remove_session_new
    by (simp add: Handler_new_def PendingSessionPoker_new_def spawn_def new_cell_def Let_def
        split: res.split)
  then show "0 < length (closing (close_session 5 99 demo_poking))"
    and "closing (close_session 5 99 demo_poking) ! 0 = (5, 99)"
    by (simp_all add: close_session_def)
  show "\<forall>x. view (close_session 5 99 demo_poking) 5 \<noteq> Some (x, 99)"
    unfolding quiet_steps_view by (simp add: view_def demo_poking_poker)
qed

text \<open>C18 (invariant). Whatever happens later, a session keeps its identifier and its remote address,
  and once dead it stays dead.\<close>

theorem session_identity:
  assumes "(hstep en)\<^sup>*\<^sup>* (Handler_new kp) st" and "(hstep en)\<^sup>*\<^sup>* st st'"
    and "sessions st r = Some s"
  shows "\<exists>s'. sessions st' r = Some s' \<and> sess_id s' = sess_id s \<and> remote_addr s' = remote_addr s
    \<and> (dead s \<longrightarrow> dead s')"
  using sessions_kept_steps [OF assms(2) reachable_inv [OF assms(1)]] assms(3)
  by (simp add: sessions_kept_def sess_le_def)

theorem session_identity_witness:
  "\<exists>s'. sessions (session_heartbeat 0 demo_established) 0 = Some s' \<and> sess_id s' = 5
    \<and> remote_addr s' = SocketAddrV4 1 2"
proof -
  have "(hstep demo_env)\<^sup>*\<^sup>* demo_established (session_heartbeat 0 demo_established)"
    by (rule r_into_rtranclp) (rule hstep.heartbeat)
  from session_identity [OF demo_established_reachable this demo_established_session]
  show ?thesis by (auto simp: demo_session_def)
qed

text \<open>Datagrams that mean nothing to the handler do nothing: one that does not
  deserialise returns the error, one for an identifier without entry returns \<open>Ok\<close>, and both leave
  the state as it was.\<close>

theorem foreign_datagram_ignored:
  shows "case deserialize (packet_codec en) data of
      Inl e \<Rightarrow> Handler_handle_incoming en src data st = (st, Err e)
    | Inr pkt \<Rightarrow> pokers st (packet_id pkt) = None \<and> initiators st (packet_id pkt) = None
        \<and> responders st (packet_id pkt) = None \<and> established st (packet_id pkt) = None
        \<longrightarrow> Handler_handle_incoming en src data st = (st, Ok ())"
  by (simp add: Handler_handle_incoming_def incoming_established_def Let_def split: sum.split)

theorem foreign_datagram_ignored_witness:
  "Handler_handle_incoming demo_env (SocketAddrV4 3 4) (demo_datagram 6 HandshakePoke) demo_poking
     = (demo_poking, Ok ())"
  using foreign_datagram_ignored [where en = demo_env and data = "demo_datagram 6 HandshakePoke"
        and src = "SocketAddrV4 3 4" and st = demo_poking]
  by (simp add: demo_datagram_des in_memory_def demo_poking_poker demo_poking_rest)

text \<open>C35 (safety). A forged initiation ends a pending connection. When the side that waits gets an
  initiation that its Noise state rejects, the entry is dropped: nothing is in any map for the
  identifier, the announcements stop, no notice is given to the waiting \<open>SessionReady\<close>, and every
  later datagram for the identifier, the genuine initiation included, is ignored.\<close>

theorem forged_initiation_drops:
  assumes "(hstep en)\<^sup>*\<^sup>* (Handler_new kp) st" and "pokers st i = Some (p, n, c)"
    and "poker_responder p = SnowResponder h"
    and "deserialize (packet_codec en) data = Inr pkt" and "packet_id pkt = i"
    and "deserialize (raw_codec en) (packet_data pkt) = Inr (HandshakeInitiation (SnowInitiation m))"
    and "hs_read_message (snow_of en) h m 65535 = (h1, Inl e)"
    and "st' = fst (Handler_handle_incoming en src data st)"
    and "deserialize (packet_codec en) data2 = Inr pkt2" and "packet_id pkt2 = i"
  shows "view st' i = None \<and> tasks (rt st') (poker_handle p) = None \<and> cells st' = cells st
    \<and> Handler_handle_incoming en src2 data2 st' = (st', Ok ())"
proof -
  have none: "initiators st i = None" "responders st i = None" "established st i = None"
    using reachable_inv [OF assms(1)] assms(2) by (auto simp: handler_inv_def exclusive_def)
  obtain r1 p1 where r1: "poker_handle_incoming en src pkt (rt st) p = (r1, p1)"
      and p1: "poker_handle p1 = poker_handle p" "poker_responder p1 = SnowResponder h"
        "poker_remote p1 = Some (src, SnowInitiation m)"
    using assms(3,6) by (cases "poker_waker p") (auto simp: poker_handle_incoming_def)
  have into: "poker_into_responder en p1 r1 = (abort_task (poker_handle p) r1, Err (FromSnow e))"
    using p1 assms(7) by (simp add: poker_into_responder_def)
  have st': "st' = st\<lparr>pokers := (pokers st)(i := None), rt := abort_task (poker_handle p) r1\<rparr>"
    using assms(2,4,5,8) p1(3)
    by (simp add: Handler_handle_incoming_def incoming_poker_def r1 into poker_is_ready_def Let_def)
  show ?thesis
    using none assms(9,10)
    by (simp add: st' view_def frame_simps Handler_handle_incoming_def incoming_established_def Let_def)
qed

theorem forged_initiation_drops_witness:
  "\<exists>st'. st' = fst (Handler_handle_incoming demo_env (SocketAddrV4 3 4)
        (demo_datagram 5 (HandshakeInitiation (SnowInitiation [1]))) demo_poking)
     \<and> view st' 5 = None \<and> tasks (rt st') (poker_handle demo_poker) = None \<and> cells st' = cells demo_poking
     \<and> Handler_handle_incoming demo_env (SocketAddrV4 1 2)
          (demo_datagram 5 (HandshakeInitiation (SnowInitiation []))) st' = (st', Ok ())"
proof (rule exI, rule conjI, rule refl, rule forged_initiation_drops [OF demo_poking_reachable _ _
      demo_datagram_des _ _ _ refl demo_datagram_des])
  show "pokers demo_poking 5 = Some (demo_poker, 11, 0)" by (simp add: demo_poking_poker)
  show "deserialize (raw_codec demo_env) (packet_data (SessionPacket_new 5
      (put_raw (HandshakeInitiation (SnowInitiation [1]))))) = Inr (HandshakeInitiation (SnowInitiation [1]))"
    using demo_raw [of "HandshakeInitiation (SnowInitiation [1])"]
    by (simp add: SessionPacket_new_def in_memory_def)
  show "hs_read_message (snow_of demo_env) () [1] 65535 = ((), Inl Decrypt)"
    by (simp add: demo_env_def layout_env_def tag_snow_def)
qed (simp_all add: demo_poker_def SessionPacket_new_def in_memory_def)

text \<open>A response that the initiating side cannot decrypt stops its announcements: the
  entry goes back into the map, still waiting, but its task has been aborted, so the initiation is
  never sent again.\<close>

theorem bad_response_silences:
  assumes "(hstep en)\<^sup>*\<^sup>* (Handler_new kp) st" and "initiators st i = Some (p, n, c)"
    and "ini_initiator p = SnowInitiator h ini"
    and "deserialize (packet_codec en) data = Inr pkt" and "packet_id pkt = i"
    and "deserialize (raw_codec en) (packet_data pkt) = Inr (HandshakeResponse (SnowResponse m))"
    and "hs_read_message (snow_of en) h m 65535 = (h1, Inl e)"
    and "st' = fst (Handler_handle_incoming en src data st)"
  shows "view st' i = Some (Initiating, n) \<and> task_of st' i = Some (ini_handle p)
    \<and> handler_announce en (ini_handle p) st' = st'"
proof -
  have ex: "exclusive st i" using reachable_inv [OF assms(1)] by (simp add: handler_inv_def)
  note none = exclusive_initiator [OF ex assms(2)]
  obtain r1 p1 where r1: "initiator_handle_incoming en src pkt (rt st) p = (r1, p1)"
      and p1: "ini_handle p1 = ini_handle p" "ini_initiator p1 = SnowInitiator h ini"
        "ini_remote p1 = Some (src, SnowResponse m)"
    using assms(3,6) by (cases "ini_waker p") (auto simp: initiator_handle_incoming_def)
  let ?p2 = "p1\<lparr>ini_remote := None, ini_initiator := SnowInitiator h1 ini\<rparr>"
  have sess: "initiator_session en p1 r1 = (abort_task (ini_handle p) r1, Ok (SessionErr ?p2))"
    using p1 assms(7) by (simp add: initiator_session_def)
  have st': "st' = st\<lparr>initiators := (initiators st)(i \<mapsto> (?p2, n, c)),
      rt := abort_task (ini_handle p) r1\<rparr>"
    using none assms(2,4,5,8) p1(3)
    by (simp add: Handler_handle_incoming_def incoming_initiator_def r1 sess initiator_is_ready_def Let_def)
  show ?thesis
    using none p1(1)
    by (simp add: st' view_def task_of_def handler_announce_def announce_tick_def frame_simps)
qed

theorem bad_response_silences_witness:
  "\<exists>st'. st' = fst (Handler_handle_incoming demo_env (SocketAddrV4 3 4)
        (demo_datagram 5 (HandshakeResponse (SnowResponse [1]))) demo_initiating)
     \<and> view st' 5 = Some (Initiating, 12) \<and> task_of st' 5 = Some (ini_handle demo_initiator)
     \<and> handler_announce demo_env (ini_handle demo_initiator) st' = st'"
proof (rule exI, rule conjI, rule refl, rule bad_response_silences [OF demo_initiating_reachable _ _
      demo_datagram_des _ _ _ refl])
  show "initiators demo_initiating 5 = Some (demo_initiator, 12, 0)"
    by (simp add: demo_initiating_initiator)
  show "deserialize (raw_codec demo_env) (packet_data (SessionPacket_new 5
      (put_raw (HandshakeResponse (SnowResponse [1]))))) = Inr (HandshakeResponse (SnowResponse [1]))"
    using demo_raw [of "HandshakeResponse (SnowResponse [1])"]
    by (simp add: SessionPacket_new_def in_memory_def)
  show "hs_read_message (snow_of demo_env) () [1] 65535 = ((), Inl Decrypt)"
    by (simp add: demo_env_def layout_env_def tag_snow_def)
qed (simp_all add: demo_initiator_def SessionPacket_new_def in_memory_def)

end
