(* ===== verification/HandlerOverlap.thy ===== *)
theory HandlerOverlap
  imports HandlerLocks HandlerProps
begin

text \<open>
  Overlapping calls of \<open>Handler\<close> (\<open>src/src/handler.rs\<close>). As long as the calls under way are about
  different identifiers, the invariant of the handler holds between any two locks, with the entries
  that are being worked on put back. Two calls about the same identifier break it: a removal that
  overlaps the handling of a packet finds nothing, and a new connection can be replaced by the old
  one.
\<close>

section \<open>One call\<close>

lemma handled_iff [simp]: "map_prod id Handled p = (st, out) \<longleftrightarrow> fst p = st \<and> out = Handled (snd p)"
  by (cases p) auto

lemma exclusive_established:
  assumes "exclusive st i" and "established st i = Some e"
  shows "pokers st i = None \<and> initiators st i = None \<and> responders st i = None"
  using assms by (cases "pokers st i"; cases "initiators st i"; cases "responders st i") (auto simp: exclusive_def)

lemma remove_block_cases:
  assumes "exclusive st i"
  shows "remove_if_established i n st \<in> {st, remove_session i n st}"
    and "remove_if_responder i n st \<in> {st, remove_session i n st}"
    and "remove_if_poker i n st \<in> {st, remove_session i n st}"
    and "remove_if_initiator i n st \<in> {st, remove_session i n st}"
proof -
  have idle: "established s i = None \<Longrightarrow> remove_if_established i n s = s"
    "responders s i = None \<Longrightarrow> remove_if_responder i n s = s"
    "pokers s i = None \<Longrightarrow> remove_if_poker i n s = s"
    "initiators s i = None \<Longrightarrow> remove_if_initiator i n s = s" for s :: "('a, 'b) handler"
    by (simp_all add: remove_if_established_def remove_if_responder_def remove_if_poker_def remove_if_initiator_def)
  show "remove_if_established i n st \<in> {st, remove_session i n st}"
    using exclusive_established [OF assms] idle unfolding remove_session_def
    by (cases "established st i") (auto simp: frame_simps)
  show "remove_if_responder i n st \<in> {st, remove_session i n st}"
    using exclusive_responder [OF assms] idle unfolding remove_session_def
    by (cases "responders st i") (auto simp: frame_simps)
  show "remove_if_poker i n st \<in> {st, remove_session i n st}"
    using assms idle unfolding remove_session_def
    by (cases "pokers st i") (auto simp: exclusive_def frame_simps)
  show "remove_if_initiator i n st \<in> {st, remove_session i n st}"
    using exclusive_initiator [OF assms] idle unfolding remove_session_def
    by (cases "initiators st i") (auto simp: frame_simps)
qed

lemma remove_block_inv:
  assumes "handler_inv st"
  shows "handler_inv (remove_if_established i n st)" and "handler_inv (remove_if_responder i n st)"
    and "handler_inv (remove_if_poker i n st)" and "handler_inv (remove_if_initiator i n st)"
proof -
  have "exclusive st i" using assms by (simp add: handler_inv_def)
  moreover have "handler_inv s" if "s \<in> {st, remove_session i n st}" for s
    using that assms op_on_inv [OF remove_session_op] by auto
  ultimately show "handler_inv (remove_if_established i n st)" "handler_inv (remove_if_responder i n st)"
    "handler_inv (remove_if_poker i n st)" "handler_inv (remove_if_initiator i n st)"
    using remove_block_cases by metis+
qed

text \<open>The cells play no part in the invariant.\<close>

lemma inv_cells:
  "handler_inv (st\<lparr>cells := x, next_cell := y, initiators := m(i \<mapsto> (p, n, c))\<rparr>) =
     handler_inv (st\<lparr>initiators := m(i \<mapsto> (p, n, d))\<rparr>)" (is "handler_inv ?a = handler_inv ?b")
  "handler_inv (st\<lparr>cells := x, next_cell := y, pokers := l(i \<mapsto> (q, n, c))\<rparr>) =
     handler_inv (st\<lparr>pokers := l(i \<mapsto> (q, n, d))\<rparr>)" (is "handler_inv ?e = handler_inv ?f")
proof -
  have "task_of ?a = task_of ?b" "task_of ?e = task_of ?f"
    by (rule ext, simp add: task_of_def cong: option.case_cong)+
  then show "handler_inv ?a = handler_inv ?b" "handler_inv ?e = handler_inv ?f"
    by (simp_all add: handler_inv_def exclusive_def ids_ok_def tasks_ok_def sessions_ok_def)
qed

text \<open>Between \<open>spawn\<close> and the insertion the entry counts as present.\<close>

lemma pending_inserted:
  assumes inv: "handler_inv st" and "vacant i st" and other: "\<And>j. j \<noteq> i \<Longrightarrow> same_at j st st'"
    and "exclusive st' i" and "ids_ok st' i" and "task_of st' i = Some (next_task (rt st))"
    and "rt st' = fst (spawn t (rt st))" and "ann_id t = i"
    and "sessions st' = sessions st" "established st' = established st" "next_session st' = next_session st"
  shows "handler_inv st'"
proof -
  have "task_of st i = None" using assms(2) by (simp add: vacant_def task_of_def)
  then have "task_fresh i st st'"
    unfolding task_fresh_def using assms(6-8)
    by (intro exI [of _ t] exI [of _ "tasks (rt st)"]) (simp add: spawn_def)
  then have "op_on i st st'"
    using assms(4,5) other sess_move_same [OF assms(9-11)] same_at_task_of [OF other]
    by (simp add: op_on_def task_move_def)
  then show ?thesis using inv by (rule op_on_inv)
qed

lemma start_inv:
  assumes "handler_inv st" and "vacant i st" and "block en (Start i k) st = (st', Next c)"
  shows "handler_inv (put c st') \<and> relies c st' \<and> call_id c = i"
proof (cases k)
  case Return
  then show ?thesis using assms(3) by simp
next
  case (Initiate n info)
  then obtain ini where "SnowInitiator_new (snow_of en) (keypair st) (public_key info) = Ok ini"
    using assms(3) by (simp split: res.splits prod.splits)
  then have c: "c = Insert_initiator i n (snd (PendingSessionInitiator_new i info ini (rt st)))"
      "st' = st\<lparr>rt := fst (PendingSessionInitiator_new i info ini (rt st))\<rparr>"
    using Initiate assms(3) by (simp_all split: prod.splits)
  have "handler_inv (put c st')"
    by (rule pending_inserted [OF assms(1,2), where t = "\<lparr>ann_addresses = addresses info, ann_id = i,
          ann_message = HandshakeInitiation (initiation ini)\<rparr>"])
      (use assms(2) in \<open>simp_all add: c PendingSessionInitiator_new_def spawn_def vacant_def same_at_def
        exclusive_def ids_ok_def task_of_def\<close>)
  then show ?thesis using assms(2) by (simp add: c vacant_def)
next
  case (Respond n info)
  then obtain rsp where "SnowResponder_new (snow_of en) (keypair st) (public_key info) = Ok rsp"
    using assms(3) by (simp split: res.splits prod.splits)
  then have c: "c = Insert_poker i n (snd (PendingSessionPoker_new i info rsp (rt st)))"
      "st' = st\<lparr>rt := fst (PendingSessionPoker_new i info rsp (rt st))\<rparr>"
    using Respond assms(3) by (simp_all split: prod.splits)
  have "handler_inv (put c st')"
    by (rule pending_inserted [OF assms(1,2), where t = "\<lparr>ann_addresses = addresses info, ann_id = i,
          ann_message = HandshakePoke\<rparr>"])
      (use assms(2) in \<open>simp_all add: c PendingSessionPoker_new_def spawn_def vacant_def same_at_def
        exclusive_def ids_ok_def task_of_def\<close>)
  then show ?thesis using assms(2) by (simp add: c vacant_def)
qed

text \<open>A section that does not end the call.\<close>

lemma look_inv:
  assumes "handler_inv st"
  shows "block en (Look_poker src pkt) st = (st', Next c) \<Longrightarrow>
      handler_inv (put c st') \<and> relies c st' \<and> call_id c = packet_id pkt"
    and "block en (Look_initiator src pkt) st = (st', Next c) \<Longrightarrow>
      handler_inv (put c st') \<and> relies c st' \<and> call_id c = packet_id pkt"
    and "block en (Look_responder src pkt) st = (st', Next c) \<Longrightarrow>
      handler_inv (put c st') \<and> relies c st' \<and> call_id c = packet_id pkt"
proof -
  have ex: "exclusive st (packet_id pkt)" using assms by (simp add: handler_inv_def)
  have same: "st\<lparr>pokers := pokers st\<rparr> = st" "st\<lparr>initiators := initiators st\<rparr> = st" "st\<lparr>responders := responders st\<rparr> = st"
    by simp_all
  show "block en (Look_poker src pkt) st = (st', Next c) \<Longrightarrow>
      handler_inv (put c st') \<and> relies c st' \<and> call_id c = packet_id pkt"
    using assms ex same by (auto simp: vacant_def exclusive_def fun_upd_idem split: option.splits)
  show "block en (Look_initiator src pkt) st = (st', Next c) \<Longrightarrow>
      handler_inv (put c st') \<and> relies c st' \<and> call_id c = packet_id pkt"
    using assms exclusive_initiator [OF ex] same by (auto simp: vacant_def fun_upd_idem split: option.splits)
  show "block en (Look_responder src pkt) st = (st', Next c) \<Longrightarrow>
      handler_inv (put c st') \<and> relies c st' \<and> call_id c = packet_id pkt"
    using assms exclusive_responder [OF ex] same by (auto simp: vacant_def fun_upd_idem split: option.splits)
qed

lemma block_continues:
  assumes "handler_inv (put c st)" and "relies c st" and "block en c st = (st', Next c')"
  shows "handler_inv (put c' st') \<and> relies c' st' \<and> call_id c' = call_id c"
proof (cases c)
  case (Start i k)
  then show ?thesis using start_inv [of st i en k] assms by simp
next
  case (Look_poker src pkt)
  then show ?thesis using look_inv(1) [of st en src pkt st' c'] assms by simp
next
  case (Look_initiator src pkt)
  then show ?thesis using look_inv(2) [of st en src pkt st' c'] assms by simp
next
  case (Look_responder src pkt)
  then show ?thesis using look_inv(3) [of st en src pkt st' c'] assms by simp
qed (use assms remove_block_inv [of st] in
    \<open>auto simp: frame_simps vacant_def Let_def split: if_splits prod.splits\<close>)

text \<open>The last section of a call.\<close>

lemma block_ends:
  assumes "handler_inv (put c st)" and "relies c st" and "block en c st = (st', out)"
    and "\<forall>c'. out \<noteq> Next c'" and "\<forall>x. out \<noteq> Handled (Panic x)"
  shows "handler_inv st'"
proof (cases c)
  case (Start i k)
  then show ?thesis using assms
    by (cases k) (auto split: res.splits prod.splits)
next
  case (Work_poker src pkt e)
  then have "st = (put c st)\<lparr>pokers := (pokers (put c st))(packet_id pkt := None)\<rparr>"
    using assms(2) by (simp add: vacant_def fun_upd_idem)
  then show ?thesis
    using incoming_poker_op [OF assms(1), of pkt e en src] op_on_inv [OF _ assms(1)] Work_poker assms(3) by auto
next
  case (Work_initiator src pkt e)
  then have "st = (put c st)\<lparr>initiators := (initiators (put c st))(packet_id pkt := None)\<rparr>"
    using assms(2) by (simp add: vacant_def fun_upd_idem)
  then show ?thesis
    using incoming_initiator_op [OF assms(1), of pkt e en src] op_on_inv [OF _ assms(1)] Work_initiator assms(3) by auto
next
  case (Work_responder src pkt e)
  then have "st = (put c st)\<lparr>responders := (responders (put c st))(packet_id pkt := None)\<rparr>"
    using assms(2) by (simp add: vacant_def fun_upd_idem)
  moreover have "\<not> is_Panic (snd (incoming_responder en src pkt e st))"
    using assms(3,5) Work_responder by (cases "snd (incoming_responder en src pkt e st)") auto
  ultimately show ?thesis
    using incoming_responder_op [OF assms(1), of pkt e en src] op_on_inv [OF _ assms(1)] Work_responder assms(3) by auto
next
  case (Look_established pkt)
  then show ?thesis
    using incoming_established_op [of st "packet_id pkt" en pkt] op_on_inv assms by auto
next
  case (Insert_initiator i n p)
  then show ?thesis using assms
    by (auto simp: new_cell_def Let_def inv_cells(1) [where d = 0])
next
  case (Insert_poker i n p)
  then show ?thesis using assms
    by (auto simp: new_cell_def Let_def inv_cells(2) [where d = 0])
qed (use assms remove_block_inv [of st] in \<open>auto split: option.splits if_splits\<close>)

section \<open>Several calls\<close>

fun locked_inv :: "('h, 's) handler \<times> ('h, 's) call list \<Rightarrow> bool" where
  "locked_inv (st, cs) \<longleftrightarrow>
     distinct (map call_id cs) \<and> handler_inv (put_back cs st) \<and> (\<forall>c \<in> set cs. relies c st)"

lemma relies_after_block:
  assumes "block en c st = (st', out)" and "call_id d \<noteq> call_id c" and "relies d st"
  shows "relies d st'"
  using block_other [OF assms(2), of st en] assms(1,3) relies_emptier same_at_emptier by (metis fst_conv)

text \<open>The call \<open>c\<close> on the state with the entries of the others put back.\<close>

lemma locked_focus:
  assumes "locked_inv (st, xs @ c # ys)" and "block en c st = (st', out)"
  shows "handler_inv (put c (put_back (xs @ ys) st))" and "relies c (put_back (xs @ ys) st)"
    and "block en c (put_back (xs @ ys) st) = (put_back (xs @ ys) st', out)"
    and "call_id c \<notin> call_id ` set (xs @ ys)"
    and "\<forall>d \<in> set (xs @ ys). relies d st'"
proof -
  show new: "call_id c \<notin> call_id ` set (xs @ ys)" using assms(1) by auto
  show "handler_inv (put c (put_back (xs @ ys) st))"
    using assms(1) put_back_middle [of xs c ys st] by simp
  show "relies c (put_back (xs @ ys) st)" using relies_put_back [OF new] assms(1) by simp
  show "block en c (put_back (xs @ ys) st) = (put_back (xs @ ys) st', out)"
    using block_put_back [OF new, of en st] assms(2) by simp
  show "\<forall>d \<in> set (xs @ ys). relies d st'"
  proof
    fix d assume d: "d \<in> set (xs @ ys)"
    then have "call_id d \<noteq> call_id c" using new by (metis image_eqI)
    then show "relies d st'" using relies_after_block [OF assms(2)] d assms(1) by auto
  qed
qed

lemma locked_inv_step:
  assumes "lstep en a b" and "distinct (map call_id (snd b))" and "locked_inv a"
  shows "locked_inv b"
  using assms
proof (induction rule: lstep.induct)
  case (removes k st i n cs)
  let ?st = "st\<lparr>closing := take k (closing st) @ drop (Suc k) (closing st)\<rparr>"
  have "relies c ?st" if "relies c st" for c
    using that by (intro relies_emptier [OF _ that] same_at_emptier) (simp add: same_at_def)
  moreover have "handler_inv (put_back cs ?st)"
    using removes.prems(2) by (simp add: inv_closing flip: closing_put_back)
  ultimately show ?case using removes.prems by (auto simp: put_back_def)
next
  case (continues c st st' c' xs ys)
  note f = locked_focus [OF continues.prems(2) continues.hyps]
  have fin: "handler_inv (put c' (put_back (xs @ ys) st'))" "relies c' (put_back (xs @ ys) st')"
      "call_id c' = call_id c"
    using block_continues [OF f(1-3)] by simp_all
  then have "handler_inv (put_back (xs @ c' # ys) st')" and "relies c' st'"
    using continues.prems(1) put_back_middle [of xs c' ys st'] relies_put_back [of c' "xs @ ys" st'] f(4) by simp_all
  then show ?case using f(5) continues.prems(1) by auto
next
  case (ends c st st' out xs ys)
  note f = locked_focus [OF ends.prems(2) ends.hyps(1)]
  show ?case using block_ends [OF f(1-3) ends.hyps(2,3)] f(5) ends.prems(1) by auto
next
  case (other st st' cs)
  then have "handler_inv (put_back cs st')"
    using handler_inv_step [OF single_hstep [OF single_put_back [OF other.hyps]]] by auto
  moreover have "relies c st'" if "c \<in> set cs" for c
    using that other relies_emptier [OF single_emptier [OF other.hyps]] by auto
  ultimately show ?case using other.prems by auto
qed (simp_all add: put_back_def)

lemma locked_inv_steps: "(xstep en)\<^sup>*\<^sup>* a b \<Longrightarrow> locked_inv a \<Longrightarrow> locked_inv b"
  by (induction rule: rtranclp_induct) (auto simp: xstep_def intro: locked_inv_step)

lemma locked_inv_new: "locked_inv (Handler_new kp, [])"
  by (simp add: put_back_def handler_inv_new)

section \<open>Taking an entry out\<close>

text \<open>A packet for a pending identifier: after at most three sections the entry is out, the
  identifier is in no map, and what is left to do is the work on the entry.\<close>

lemma take_out:
  assumes "deserialize (packet_codec en) data = Inr pkt" and "packet_id pkt = i"
    and ex: "exclusive st i" and pend: "task_of st i \<noteq> None" and cs: "\<forall>c \<in> set cs. \<not> is_incoming c"
  obtains c st0 where "(lstep en)\<^sup>*\<^sup>* (st, cs) (st0, cs @ [c])" and "vacant i st0"
    and "block en c st0 = map_prod id Handled (Handler_handle_incoming en src data st)"
    and "rt st0 = rt st" and "keypair st0 = keypair st" and "is_incoming c"
proof -
  have start: "(lstep en)\<^sup>*\<^sup>* (st, cs) (st, cs @ [Look_poker src pkt])"
    by (rule r_into_rtranclp, rule lstep.arrives [OF cs])
  have go: "(lstep en)\<^sup>*\<^sup>* (st, cs) (st2, cs @ [c2])"
    if "(lstep en)\<^sup>*\<^sup>* (st, cs) (st1, cs @ [c1])" "block en c1 st1 = (st2, Next c2)" for st1 st2 c1 c2
    using rtranclp.rtrancl_into_rtrancl [OF that(1) lstep.continues [OF that(2), of cs "[]"]] .
  consider (poker) e where "pokers st i = Some e"
    | (initiator) e where "pokers st i = None" "initiators st i = Some e"
    | (responder) e where "pokers st i = None" "initiators st i = None" "responders st i = Some e"
    using pend unfolding task_of_def by (auto split: option.splits)
  then show ?thesis
  proof cases
    case poker
    then have "block en (Look_poker src pkt) st = (st\<lparr>pokers := (pokers st)(i := None)\<rparr>, Next (Work_poker src pkt e))"
      using assms(2) by simp
    note go = go [OF start this]
    show ?thesis
      by (rule that [OF go]) (use poker ex assms(1,2) in
        \<open>auto simp: vacant_def exclusive_def Handler_handle_incoming_def Let_def\<close>)
  next
    case initiator
    then have "block en (Look_poker src pkt) st = (st, Next (Look_initiator src pkt))"
      "block en (Look_initiator src pkt) st = (st\<lparr>initiators := (initiators st)(i := None)\<rparr>, Next (Work_initiator src pkt e))"
      using assms(2) by simp_all
    note go = go [OF go [OF start this(1)] this(2)]
    show ?thesis
      by (rule that [OF go]) (use initiator exclusive_initiator [OF ex] assms(1,2) in
        \<open>auto simp: vacant_def Handler_handle_incoming_def Let_def\<close>)
  next
    case responder
    then have "block en (Look_poker src pkt) st = (st, Next (Look_initiator src pkt))"
      "block en (Look_initiator src pkt) st = (st, Next (Look_responder src pkt))"
      "block en (Look_responder src pkt) st = (st\<lparr>responders := (responders st)(i := None)\<rparr>, Next (Work_responder src pkt e))"
      using assms(2) by simp_all
    note go = go [OF go [OF go [OF start this(1)] this(2)] this(3)]
    show ?thesis
      by (rule that [OF go]) (use responder exclusive_responder [OF ex] assms(1,2) in
        \<open>auto simp: vacant_def Handler_handle_incoming_def Let_def\<close>)
  qed
qed

text \<open>A removal that finds nothing.\<close>

lemma vacant_removal:
  assumes "vacant i st"
  shows "(lstep en)\<^sup>*\<^sup>* (st, xs @ Remove_established i n k # ys) (st, xs @ Remove_initiator i n k # ys)"
    and "block en (Remove_initiator i n k) st = (st, if k = Return then Removed else Next (Start i k))"
proof -
  have idle: "remove_if_established i n st = st" "remove_if_responder i n st = st" "remove_if_poker i n st = st"
      "remove_if_initiator i n st = st"
    using assms by (simp_all add: vacant_def remove_block_defs)
  have "lstep en (st, xs @ Remove_established i n k # ys) (st, xs @ Remove_responder i n k # ys)"
    "lstep en (st, xs @ Remove_responder i n k # ys) (st, xs @ Remove_poker i n k # ys)"
    "lstep en (st, xs @ Remove_poker i n k # ys) (st, xs @ Remove_initiator i n k # ys)"
    by (rule lstep.continues, simp add: idle)+
  then show "(lstep en)\<^sup>*\<^sup>* (st, xs @ Remove_established i n k # ys) (st, xs @ Remove_initiator i n k # ys)"
    by (meson converse_rtranclp_into_rtranclp rtranclp.rtrancl_refl)
  show "block en (Remove_initiator i n k) st = (st, if k = Return then Removed else Next (Start i k))"
    by (simp add: idle)
qed

text \<open>A call of \<open>respond\<close> that runs while the entry of the identifier is out, up to its insertion.\<close>

lemma overlapping_respond:
  fixes pkt :: session_packet and info :: connection_info
  assumes pkt: "packet_id pkt = i" and old: "pokers st i = Some e"
    and vac: "vacant i (st\<lparr>pokers := (pokers st)(i := None)\<rparr>)"
    and rsp: "SnowResponder_new (snow_of en) (keypair st) (public_key info) = Ok rsp"
  shows "(lstep en)\<^sup>*\<^sup>* (st, []) (st\<lparr>pokers := (pokers st)(i := None), rt := fst (PendingSessionPoker_new i info rsp (rt st))\<rparr>,
     [Work_poker src pkt e, Insert_poker i m (snd (PendingSessionPoker_new i info rsp (rt st)))])"
proof -
  let ?w = "Work_poker src pkt e" and ?k = "Respond m info"
  let ?st0 = "st\<lparr>pokers := (pokers st)(i := None)\<rparr>"
  let ?q = "snd (PendingSessionPoker_new i info rsp (rt st))"
  let ?st1 = "?st0\<lparr>rt := fst (PendingSessionPoker_new i info rsp (rt st))\<rparr>"
  have "(lstep en)\<^sup>*\<^sup>* (st, []) (st, [Look_poker src pkt])"
    using lstep.arrives [of "[]" en st src pkt] by auto
  also have "lstep en (st, [Look_poker src pkt]) (?st0, [?w])"
    using lstep.continues [of en "Look_poker src pkt" st ?st0 ?w "[]" "[]"] pkt old by simp
  also have "lstep en (?st0, [?w]) (?st0, [?w, Remove_established i None ?k])"
    using lstep.connects [of ?k en ?st0 "[?w]" i] by simp
  also have "(lstep en)\<^sup>*\<^sup>* (?st0, [?w, Remove_established i None ?k]) (?st0, [?w, Remove_initiator i None ?k])"
    using vacant_removal(1) [OF vac, of en "[?w]" None ?k "[]"] by simp
  also have "lstep en (?st0, [?w, Remove_initiator i None ?k]) (?st0, [?w, Start i ?k])"
    using lstep.continues [of en "Remove_initiator i None ?k" ?st0 ?st0 _ "[?w]" "[]"] vacant_removal(2) [OF vac, of en None ?k]
    by simp
  also have "lstep en (?st0, [?w, Start i ?k]) (?st1, [?w, Insert_poker i m ?q])"
    using lstep.continues [of en "Start i ?k" ?st0 ?st1 _ "[?w]" "[]"] rsp by (simp split: prod.split)
  finally show ?thesis .
qed

text \<open>The definitions of \<open>handle_incoming\<close>, \<open>remove_session\<close>, \<open>initiate\<close> and \<open>respond\<close> as one
  step are what their locked sections do, one after the other, when no other call comes in between:
  the same state and the same result, after at most six sections.\<close>

lemma calls_alone:
  "(deserialize (packet_codec en) data = Inr pkt \<longrightarrow>
     alone 6 en (Look_poker src pkt) st = Some (map_prod id Handled (Handler_handle_incoming en src data st)))
   \<and> alone 6 en (Remove_established i (Some n) Return) st = Some (remove_session i (Some n) st, Removed)
   \<and> alone 6 en (Remove_established i None (Initiate m info)) st =
       Some (map_prod id Connecting (Handler_initiate en m i info st))
   \<and> alone 6 en (Remove_established i None (Respond m info)) st =
       Some (map_prod id Connecting (Handler_respond en m i info st))"
  using alone_handle_incoming by (auto simp: alone_remove_session alone_initiate alone_respond simp del: alone.simps)

section \<open>Properties\<close>

text \<open>C10 (invariant). However the locked sections of the methods interleave with each other, with the
  tasks and with the polls: as long as no two calls under way are about the same identifier, the
  invariant of the handler holds, with the entries that are being worked on put back; and whenever
  no call is under way it holds of the handler as it is.\<close>

theorem overlapping_calls_safe:
  assumes "(xstep en)\<^sup>*\<^sup>* (Handler_new kp, []) (st, cs)"
  shows "handler_inv (put_back cs st) \<and> (\<forall>c \<in> set cs. relies c st) \<and> (cs = [] \<longrightarrow> handler_inv st)"
  using locked_inv_steps [OF assms locked_inv_new] by (auto simp: put_back_def)

text \<open>Two connections and a removal overlap.\<close>

theorem overlapping_calls_safe_witness:
  "handler_inv (put_back [Remove_established 1 None (Respond 11 demo_info), Remove_established 2 None (Initiate 12 demo_info)]
     (Handler_new demo_keypair :: (unit, u8) handler))"
proof -
  let ?c = "Remove_established 1 None (Respond 11 demo_info) :: (unit, u8) call"
    and ?d = "Remove_established 2 None (Initiate 12 demo_info) :: (unit, u8) call"
  have "xstep demo_env (Handler_new demo_keypair, []) (Handler_new demo_keypair, [?c])"
    and "xstep demo_env (Handler_new demo_keypair, [?c]) (Handler_new demo_keypair, [?c, ?d])"
    using lstep.connects [of "Respond 11 demo_info" demo_env _ "[]" 1]
      lstep.connects [of "Initiate 12 demo_info" demo_env _ "[?c]" 2] by (simp_all add: xstep_def)
  then have "(xstep demo_env)\<^sup>*\<^sup>* (Handler_new demo_keypair, []) (Handler_new demo_keypair, [?c, ?d])"
    by (meson converse_rtranclp_into_rtranclp rtranclp.rtrancl_refl)
  from overlapping_calls_safe [OF this] show ?thesis by blast
qed

text \<open>C36 (safety). A removal that overlaps the handling of a packet is lost. When the spawned removal
  of a pending connection runs between the section that takes its entry out and the one that puts
  it on, it finds nothing, and the final state is that of the packet alone; in either order one
  after the other the identifier would be free.\<close>

theorem removal_overlooked:
  assumes "deserialize (packet_codec en) data = Inr pkt" and "packet_id pkt = i"
    and ex: "exclusive st i" and pend: "view st i = Some (x, n)" "x \<noteq> Established"
    and "closing st = [(i, n)]" and st1: "st1 = st\<lparr>closing := []\<rparr>"
    and ok: "\<not> is_Panic (snd (Handler_handle_incoming en src data st1))"
  shows "(lstep en)\<^sup>*\<^sup>* (st, []) (fst (Handler_handle_incoming en src data st1), [])
    \<and> view (remove_session i (Some n) (fst (Handler_handle_incoming en src data st1))) i = None
    \<and> view (fst (Handler_handle_incoming en src data (remove_session i (Some n) st1))) i = None"
proof (intro conjI)
  have ex1: "exclusive st1 i" and view1: "view st1 i = Some (x, n)"
    using ex pend(1) by (simp_all add: st1 closing_frame)
  have pend1: "task_of st1 i \<noteq> None"
    using pend(2) view1 by (auto simp: view_def task_of_def split: option.splits)
  obtain c st0 where c: "(lstep en)\<^sup>*\<^sup>* (st1, [Remove_established i (Some n) Return])
        (st0, [Remove_established i (Some n) Return] @ [c])"
      and vac: "vacant i st0"
      and blk: "block en c st0 = map_prod id Handled (Handler_handle_incoming en src data st1)"
    by (rule take_out [OF assms(1,2) ex1 pend1, where cs = "[Remove_established i (Some n) Return]" and src = src]) auto
  have "lstep en (st, []) (st1, [Remove_established i (Some n) Return])"
    using lstep.removes [of 0 st i n en "[]"] assms(6) by (simp add: st1)
  also note c
  also have "(lstep en)\<^sup>*\<^sup>* (st0, [Remove_established i (Some n) Return] @ [c]) (st0, [Remove_initiator i (Some n) Return, c])"
    using vacant_removal(1) [OF vac, of en "[]" "Some n" Return "[c]"] by simp
  also have "lstep en (st0, [Remove_initiator i (Some n) Return, c]) (st0, [c])"
    using lstep.ends [OF vacant_removal(2) [OF vac, of en "Some n" Return], of "[]" "[c]"] by simp
  also have "lstep en (st0, [c]) (fst (Handler_handle_incoming en src data st1), [])"
    using lstep.ends [of en c st0 _ _ "[]" "[]"] blk ok
    by (cases "snd (Handler_handle_incoming en src data st1)") (auto simp: map_prod_def split_beta)
  finally show "(lstep en)\<^sup>*\<^sup>* (st, []) (fst (Handler_handle_incoming en src data st1), [])" .
  have adv: "advances (view st1 i) (view (fst (Handler_handle_incoming en src data st1)) i)"
    and exd: "exclusive (fst (Handler_handle_incoming en src data st1)) i"
    using handle_incoming_at [OF ex1] by blast+
  have gone: "view (remove_session i (Some n) s) i = None"
    if "exclusive s i" "view s i = None \<or> (\<exists>y. view s i = Some (y, n))" for s :: "('b, 'c) handler"
    using that by (auto simp: view_def exclusive_def frame_simps kept_def id_matches_def split: option.splits)
  show "view (remove_session i (Some n) (fst (Handler_handle_incoming en src data st1))) i = None"
    using gone [OF exd] adv view1 by (auto elim: advances.cases)
  have "view (remove_session i (Some n) st1) i = None" using gone [OF ex1] view1 by blast
  moreover have "exclusive (remove_session i (Some n) st1) i" using remove_session_at(2) [OF ex1] .
  ultimately show "view (fst (Handler_handle_incoming en src data (remove_session i (Some n) st1))) i = None"
    using handle_incoming_at [of "remove_session i (Some n) st1" i en src data] by (auto elim: advances.cases)
qed

lemma demo_poke_stays:
  assumes "pokers st 5 = Some (demo_poker, n, c)"
  shows "Handler_handle_incoming demo_env src (demo_datagram 5 HandshakePoke) st = (st, Ok ())"
proof -
  have "deserialize (packet_codec demo_env) (demo_datagram 5 HandshakePoke) = Inr (SessionPacket_new 5 (put_raw HandshakePoke))"
    by (rule demo_datagram_des) (simp add: in_memory_def)
  moreover have "poker_handle_incoming demo_env src (SessionPacket_new 5 (put_raw HandshakePoke)) r p = (r, p)" for r p
    using put_take_raw [of HandshakePoke]
    by (simp add: poker_handle_incoming_def demo_env_def layout_env_def layout_codec_def)
  moreover have "(pokers st)(5 \<mapsto> (demo_poker, n, c)) = pokers st" using assms by (simp add: fun_upd_idem)
  ultimately show ?thesis
    using assms by (simp add: Handler_handle_incoming_def incoming_poker_def poker_is_ready_def demo_poker_def)
qed

text \<open>The caller of \<open>respond\<close> gives up while a poke of the peer is being handled: the entry stays.\<close>

theorem removal_overlooked_witness:
  "(lstep demo_env)\<^sup>*\<^sup>* (close_session 5 11 demo_poking, []) (demo_poking, [])
   \<and> view demo_poking 5 = Some (Poking, 11)"
proof -
  have closing: "closing demo_poking = []"
    unfolding demo_poking_def Handler_respond_def remove_session_new
    by (simp add: Handler_new_def PendingSessionPoker_new_def spawn_def new_cell_def Let_def split: res.split)
  let ?st = "close_session 5 11 demo_poking"
  have st: "?st\<lparr>closing := []\<rparr> = demo_poking" using closing by (simp add: close_session_def)
  have view: "view demo_poking 5 = Some (Poking, 11)" by (simp add: view_def demo_poking_poker)
  have "exclusive ?st 5" "view ?st 5 = Some (Poking, 11)" "closing ?st = [(5, 11)]"
    using closing view by (simp_all add: close_session_def exclusive_def demo_poking_poker demo_poking_rest view_def)
  moreover have "Handler_handle_incoming demo_env (SocketAddrV4 1 2) (demo_datagram 5 HandshakePoke) demo_poking
      = (demo_poking, Ok ())"
    by (rule demo_poke_stays) (simp add: demo_poking_poker)
  ultimately show ?thesis
    using removal_overlooked [OF demo_datagram_des _ _ _ _ _ st [symmetric], of HandshakePoke 5 5 Poking 11 "SocketAddrV4 1 2"] view
    by (simp add: in_memory_def)
qed

text \<open>C37 (safety). A new connection can be replaced by an old one. \<open>respond\<close> is called again for an
  identifier while a packet for its pending entry is being handled: it finds nothing to remove,
  inserts the new entry and returns its future; the handling of the packet then puts the old entry
  over it. The new entry is in no map any more and no removal for it does anything, but its
  announcing task runs on.\<close>

theorem connect_overwritten:
  fixes pkt :: session_packet and info :: connection_info
  assumes inv: "handler_inv st" and pkt: "packet_id pkt = i"
    and old: "pokers st i = Some (p, n, c)" "\<not> poker_is_ready p"
    and raw: "\<forall>x. deserialize (raw_codec en) (packet_data pkt) \<noteq> Inr (HandshakeInitiation x)"
    and rsp: "SnowResponder_new (snow_of en) (keypair st) (public_key info) = Ok rsp" and "m \<noteq> n"
  shows "\<exists>w q st1 st2 st3.
    (lstep en)\<^sup>*\<^sup>* (st, []) (st1, [w, Insert_poker i m q])
    \<and> block en (Insert_poker i m q) st1 = (st2, Connecting (Ok (SessionReady_new i m (next_cell st))))
    \<and> lstep en (st1, [w, Insert_poker i m q]) (st2, [w]) \<and> view st2 i = Some (Poking, m)
    \<and> lstep en (st2, [w]) (st3, []) \<and> view st3 i = Some (Poking, n)
    \<and> remove_session i (Some m) st3 = st3
    \<and> (\<exists>t. tasks (rt st3) (poker_handle q) = Some t \<and> ann_id t = i \<and> task_of st3 i \<noteq> Some (poker_handle q))"
proof -
  have ex: "exclusive st i" and ok: "tasks_ok st" using inv by (simp_all add: handler_inv_def)
  let ?src = "SocketAddrV4 0 0" and ?w = "Work_poker (SocketAddrV4 0 0) pkt (p, n, c)"
  let ?st0 = "st\<lparr>pokers := (pokers st)(i := None)\<rparr>"
  let ?q = "snd (PendingSessionPoker_new i info rsp (rt st))"
  let ?st1 = "?st0\<lparr>rt := fst (PendingSessionPoker_new i info rsp (rt st))\<rparr>"
  let ?st2 = "fst (block en (Insert_poker i m ?q) ?st1)"
  let ?st3 = "?st2\<lparr>pokers := (pokers ?st2)(i \<mapsto> (p, n, c))\<rparr>"
  have vac: "vacant i ?st0" using ex old(1) by (simp add: vacant_def exclusive_def)
  have path: "(lstep en)\<^sup>*\<^sup>* (st, []) (?st1, [?w, Insert_poker i m ?q])"
    by (rule overlapping_respond [OF pkt old(1) vac rsp])
  have insert: "block en (Insert_poker i m ?q) ?st1 = (?st2, Connecting (Ok (SessionReady_new i m (next_cell st))))"
    by (simp add: Let_def)
  then have returned: "lstep en (?st1, [?w, Insert_poker i m ?q]) (?st2, [?w])"
    using lstep.ends [OF insert, of "[?w]" "[]"] by simp
  have "poker_handle_incoming en ?src pkt r p = (r, p)" for r
    using raw by (auto simp: poker_handle_incoming_def split: sum.split raw_message.split)
  then have work: "block en ?w ?st2 = (?st3, Handled (Ok ()))"
    using old(2) pkt by (simp add: incoming_poker_def)
  have over: "lstep en (?st2, [?w]) (?st3, [])"
    using lstep.ends [OF work, of "[]" "[]"] by simp
  have "poker_handle p < next_task (rt st)"
    using ok task_of_poker [OF old(1)] by (auto simp: tasks_ok_def)
  then have "\<exists>t. tasks (rt ?st3) (poker_handle ?q) = Some t \<and> ann_id t = i \<and> task_of ?st3 i \<noteq> Some (poker_handle ?q)"
    by (simp add: PendingSessionPoker_new_def spawn_def task_of_def new_cell_def Let_def)
  moreover have "view ?st2 i = Some (Poking, m)" "view ?st3 i = Some (Poking, n)"
    by (simp_all add: view_def Let_def)
  moreover have "remove_session i (Some m) ?st3 = ?st3"
    using vac assms(7) by (intro remove_session_stale)
      (simp_all add: exclusive_def view_def vacant_def new_cell_def Let_def)
  ultimately show ?thesis using path insert returned over by blast
qed

theorem connect_overwritten_witness:
  "\<exists>w q st1 st2 st3.
    (lstep demo_env)\<^sup>*\<^sup>* (demo_poking, []) (st1, [w, Insert_poker 5 12 q])
    \<and> lstep demo_env (st1, [w, Insert_poker 5 12 q]) (st2, [w]) \<and> view st2 5 = Some (Poking, 12)
    \<and> lstep demo_env (st2, [w]) (st3, []) \<and> view st3 5 = Some (Poking, 11)"
proof -
  have "SnowResponder_new (snow_of demo_env) (keypair demo_poking) (public_key demo_info) = Ok (SnowResponder ())"
  proof -
    have b: "SnowResponder_new tag_snow demo_keypair (SnowPublicKey [9]) = Ok (SnowResponder ())"
      by (simp add: SnowResponder_new_def demo_keypair_def tag_snow_def snow_builder_def rust_std)
    moreover have "keypair demo_poking = demo_keypair"
      unfolding demo_poking_def Handler_respond_def remove_session_new
      by (simp add: b demo_env_def demo_info_def layout_env_def Handler_new_def PendingSessionPoker_new_def
          spawn_def new_cell_def Let_def)
    ultimately show ?thesis by (simp add: demo_env_def layout_env_def demo_info_def)
  qed
  moreover have "\<forall>x. deserialize (raw_codec demo_env) (packet_data (SessionPacket_new 5 (put_raw HandshakePoke)))
      \<noteq> Inr (HandshakeInitiation x)"
    using put_take_raw [of HandshakePoke] by (simp add: demo_env_def layout_env_def layout_codec_def)
  moreover have "\<not> poker_is_ready demo_poker" by (simp add: poker_is_ready_def demo_poker_def)
  ultimately show ?thesis
    using connect_overwritten [OF reachable_inv [OF demo_poking_reachable], of "SessionPacket_new 5 (put_raw HandshakePoke)" 5
        demo_poker 11 0 demo_env demo_info "SnowResponder ()" 12]
    by (simp add: demo_poking_poker) metis
qed

section \<open>The future of connect\<close>

text \<open>The two halves of \<open>SessionReady::poll\<close>: the attempt to read the notice, and the registration
  of the waker.\<close>

definition ready_try ::
    "session_ready \<Rightarrow> ('h, 's) handler \<Rightarrow>
       (session_ready \<times> ('h, 's) handler \<times> (session_id \<times> one_time_id) poll) option" where
  "ready_try sr st =
     (let c = cells st (sr_cell sr)
      in if 0 < notices c
         then Some (sr\<lparr>completed := True\<rparr>,
                st\<lparr>cells := (cells st)(sr_cell sr := c\<lparr>notices := notices c - 1\<rparr>)\<rparr>,
                Ready (sr_id sr, sr_one_time_id sr))
         else None)"

definition ready_register ::
    "waker \<Rightarrow> session_ready \<Rightarrow> ('h, 's) handler \<Rightarrow>
       session_ready \<times> ('h, 's) handler \<times> (session_id \<times> one_time_id) poll" where
  "ready_register w sr st =
     (let c = cells st (sr_cell sr)
      in if \<not> added_waker sr
         then (sr\<lparr>added_waker := True\<rparr>,
               st\<lparr>cells := (cells st)(sr_cell sr := c\<lparr>ready_wakers := ready_wakers c @ [w]\<rparr>)\<rparr>, Pending)
         else (sr, st, Pending))"

lemma SessionReady_poll_halves:
  "SessionReady_poll w sr st = (case ready_try sr st of Some out \<Rightarrow> out | None \<Rightarrow> ready_register w sr st)"
  by (simp add: SessionReady_poll_def ready_try_def ready_register_def Let_def)

text \<open>C38 (safety). The notice of an established session can be missed. When \<open>upgrade_session\<close> runs between
  the two halves of the first poll of the future that \<open>connect\<close> waits for, the session is
  established and its notice is in the channel, but no waker was woken and the future is pending:
  \<open>connect\<close> sleeps on although the connection exists. One half after the other with nothing in
  between is the poll as a whole: if the upgrade comes after it the waker is woken, and if it comes
  before it the poll is ready with the identifiers.\<close>

theorem missed_notice:
  assumes "notices (cells st c) = 0" and "ready_wakers (cells st c) = []" and "receiver_alive (cells st c)"
    and sr: "sr = SessionReady_new i n c"
  shows "ready_try sr st = None
    \<and> (case ready_register w sr (fst (upgrade_session i n s c st)) of (sr1, st1, out) \<Rightarrow>
         out = Pending \<and> \<not> completed sr1 \<and> notices (cells st1 c) = 1
         \<and> (\<exists>r. established st1 i = Some (n, r) \<and> sessions st1 r = Some s)
         \<and> woken (rt st1) = woken (rt st))
    \<and> (case SessionReady_poll w sr st of (sr1, st1, out) \<Rightarrow>
         out = Pending \<and> woken (rt (fst (upgrade_session i n s c st1))) = woken (rt st) @ [w])
    \<and> snd (snd (SessionReady_poll w sr (fst (upgrade_session i n s c st)))) = Ready (i, n)"
proof -
  have "rt (remove_established i x) = rt x" "cells (remove_established i x) = cells x" for x :: "('a, 'b) handler"
    by (simp_all add: frame_simps)
  then show ?thesis
    using assms
    by (simp add: ready_try_def ready_register_def SessionReady_poll_def SessionReady_new_def upgrade_session_def
        frame_simps wake_def Let_def)
qed

theorem missed_notice_witness:
  "\<exists>st1. ready_try (SessionReady_new 5 11 0) demo_poking = None
     \<and> snd (snd (ready_register 3 (SessionReady_new 5 11 0) (fst (upgrade_session 5 11 demo_session 0 demo_poking)))) = Pending
     \<and> st1 = fst (snd (ready_register 3 (SessionReady_new 5 11 0) (fst (upgrade_session 5 11 demo_session 0 demo_poking))))
     \<and> notices (cells st1 0) = 1 \<and> woken (rt st1) = woken (rt demo_poking)
     \<and> snd (snd (SessionReady_poll 3 (SessionReady_new 5 11 0)
         (fst (upgrade_session 5 11 demo_session 0 demo_poking)))) = Ready (5, 11)"
proof -
  have b: "SnowResponder_new tag_snow demo_keypair (SnowPublicKey [9]) = Ok (SnowResponder ())"
    by (simp add: SnowResponder_new_def demo_keypair_def tag_snow_def snow_builder_def rust_std)
  have "cells demo_poking 0 = \<lparr>notices = 0, receiver_alive = True, ready_wakers = []\<rparr>"
    unfolding demo_poking_def Handler_respond_def remove_session_new
    by (simp add: b demo_env_def demo_info_def layout_env_def Handler_new_def PendingSessionPoker_new_def
        spawn_def new_cell_def Let_def)
  then show ?thesis
    using missed_notice [of demo_poking 0 "SessionReady_new 5 11 0" 5 11 demo_session 3] by (auto simp: split_beta)
qed

end
