(* ===== verification/Handshake.thy ===== *)
theory Handshake
  imports HandlerProps
begin

text \<open>
  The handshake of two handlers (\<open>src/src/handler.rs\<close>, \<open>src/src/session.rs\<close>,
  \<open>src/src/snow_types.rs\<close>), from \<open>initiate\<close> and \<open>respond\<close> to two established sessions that can
  talk to each other. Every packet is one that a task of the other side really sends. The
  hypotheses on the Noise package and on the serialisation are named predicates.
\<close>

section \<open>What is assumed of the packages\<close>

text \<open>
  The pattern has two messages. For handshake states built from matching keys the package
  documents: each side reads what the other wrote, messages fit 65535 bytes, and after both
  messages the two states become transport states of one session.
\<close>

definition kk_completes :: "('b, 'h, 's) snow \<Rightarrow> 'h \<Rightarrow> 'h \<Rightarrow> bool" where
  "kk_completes sn hi hr \<longleftrightarrow>
     (\<exists>hi1 m1 hr1 x hr2 m2 hi2 y ti tr.
        hs_write_message sn hi [] 65535 = (hi1, Inr m1) \<and> length m1 \<le> 65535
        \<and> hs_read_message sn hr m1 65535 = (hr1, Inr x)
        \<and> hs_write_message sn hr1 [] 65535 = (hr2, Inr m2) \<and> length m2 \<le> 65535
        \<and> hs_read_message sn hi1 m2 65535 = (hi2, Inr y)
        \<and> into_stateless_transport_mode sn hi2 = Inr ti
        \<and> into_stateless_transport_mode sn hr2 = Inr tr
        \<and> noise_pair sn ti tr \<and> noise_pair sn tr ti)"

fun packet_in_memory :: "session_packet \<Rightarrow> bool" where
  "packet_in_memory p = in_memory (packet_data p)"

fun raw_size :: "raw_message \<Rightarrow> nat" where
  "raw_size HandshakePoke = 4"
| "raw_size (HandshakeInitiation (SnowInitiation b)) = length b + 12"
| "raw_size (HandshakeResponse (SnowResponse b)) = length b + 12"
| "raw_size (Encrypted b) = length b + 12"

definition raw_sizes :: "raw_message codec \<Rightarrow> bool" where
  "raw_sizes c \<longleftrightarrow> (\<forall>m out. serialize c m = Inr out \<longrightarrow> length out = raw_size m)"

text \<open>An identifier and a length take at most 32 bytes.\<close>

definition packet_sizes :: "session_packet codec \<Rightarrow> bool" where
  "packet_sizes c \<longleftrightarrow> (\<forall>p out. serialize c p = Inr out \<longrightarrow> length out \<le> length (packet_data p) + 32)"

definition handler_codecs :: "('b, 'h, 's) env \<Rightarrow> bool" where
  "handler_codecs en \<longleftrightarrow>
     session_codecs en \<and> raw_sizes (raw_codec en) \<and> codec_ok packet_in_memory (packet_codec en)
     \<and> packet_sizes (packet_codec en)"

lemma length_put_raw: "length (put_raw m) = raw_size m"
  by (cases m rule: put_raw.cases) simp_all

lemma layout_env_handler_codecs: "handler_codecs (layout_env sn)"
proof -
  have "take_packet (put_packet p) = Some (p, [])" if "packet_in_memory p" for p
    using that by (cases p) (simp add: put_packet_def take_packet_def SessionPacket_new_def)
  then have "codec_ok packet_in_memory (packet_codec (layout_env sn))"
    unfolding layout_env_def by (simp, intro layout_codec_ok) simp
  moreover have "raw_sizes (raw_codec (layout_env sn))"
    by (simp add: raw_sizes_def layout_env_def layout_codec_def length_put_raw)
  moreover have "packet_sizes (packet_codec (layout_env sn))"
    by (auto simp: packet_sizes_def layout_env_def layout_codec_def put_packet_def)
  ultimately show ?thesis using layout_env_codecs by (simp add: handler_codecs_def)
qed

lemma tag_snow_completes: "kk_completes tag_snow () ()"
proof -
  have "hs_write_message tag_snow () [] 65535 = ((), Inr [])"
    "hs_read_message tag_snow () [] 65535 = ((), Inr [])"
    "into_stateless_transport_mode tag_snow () = Inr 7"
    by (simp_all add: tag_snow_def)
  then show ?thesis
    unfolding kk_completes_def using tag_snow_pair [of 7] by fastforce
qed

text \<open>A raw message of moderate size in a packet, on the wire.\<close>

definition on_wire :: "('b, 'h, 's) env \<Rightarrow> session_id \<Rightarrow> raw_message \<Rightarrow> session_packet \<Rightarrow> bytes \<Rightarrow> bool" where
  "on_wire en i m p d \<longleftrightarrow>
     packet_id p = i \<and> serialize (packet_codec en) p = Inr d \<and> deserialize (packet_codec en) d = Inr p
     \<and> deserialize (raw_codec en) (packet_data p) = Inr m"

lemma raw_on_wire:
  assumes "handler_codecs en" and "raw_size m \<le> 66000"
  obtains bytes d where "serialize (raw_codec en) m = Inr bytes"
    and "on_wire en i m (SessionPacket_new i bytes) d"
proof -
  have "raw_in_memory m"
    using assms(2) by (cases m rule: raw_size.cases) (simp_all add: in_memory_def)
  then obtain bytes where b: "serialize (raw_codec en) m = Inr bytes"
      "deserialize (raw_codec en) bytes = Inr m"
    using assms(1) unfolding handler_codecs_def session_codecs_def by (metis codec_okE)
  then have "length bytes = raw_size m"
    using assms(1) by (simp add: handler_codecs_def raw_sizes_def)
  then have "packet_in_memory (SessionPacket_new i bytes)"
    using assms(2) by (simp add: in_memory_def)
  then obtain d where "serialize (packet_codec en) (SessionPacket_new i bytes) = Inr d"
      "deserialize (packet_codec en) d = Inr (SessionPacket_new i bytes)"
    using assms(1) unfolding handler_codecs_def by (metis codec_okE)
  then show ?thesis using that b by (simp add: on_wire_def)
qed

section \<open>The steps\<close>

lemma remove_session_outgoing: "outgoing (rt (remove_session i otid st)) = outgoing (rt st)"
  unfolding remove_session_def remove_blocks_rt
  by (simp add: remove_blocks_rt frame_simps split: option.split)

text \<open>Only the entry \<open>i\<close> of one of the maps is set.\<close>

definition initiating_at ::
    "session_id \<Rightarrow> 'h snow_initiator \<Rightarrow> one_time_id \<Rightarrow> nat \<Rightarrow> ('h, 's) handler \<Rightarrow> bool" where
  "initiating_at i ini n c st \<longleftrightarrow>
     (\<exists>p. initiators st i = Some (p, n, c) \<and> pokers st i = None \<and> responders st i = None
        \<and> established st i = None \<and> ini_remote p = None \<and> ini_waker p = None \<and> ini_id p = i
        \<and> ini_initiator p = ini)"

definition poking_at ::
    "session_id \<Rightarrow> 'h snow_responder \<Rightarrow> one_time_id \<Rightarrow> nat \<Rightarrow> ('h, 's) handler \<Rightarrow> bool" where
  "poking_at i rsp n c st \<longleftrightarrow>
     (\<exists>p. pokers st i = Some (p, n, c) \<and> initiators st i = None \<and> responders st i = None
        \<and> established st i = None \<and> poker_waker p = None \<and> poker_id p = i \<and> poker_responder p = rsp)"

definition responding_at ::
    "session_id \<Rightarrow> socket_addr \<Rightarrow> 's lossy_transport_state \<Rightarrow> one_time_id \<Rightarrow> nat \<Rightarrow> ('h, 's) handler \<Rightarrow> bool" where
  "responding_at i addr lt n c st \<longleftrightarrow>
     (\<exists>r. responders st i = Some (r, n, c) \<and> pokers st i = None \<and> initiators st i = None
        \<and> established st i = None \<and> rsp_waker r = None \<and> rsp_id r = i \<and> rsp_remote_addr r = addr
        \<and> rsp_transport r = lt \<and> \<not> rsp_ready r)"

definition established_at ::
    "session_id \<Rightarrow> 's session \<Rightarrow> one_time_id \<Rightarrow> nat \<Rightarrow> ('h, 's) handler \<Rightarrow> bool" where
  "established_at i s n r st \<longleftrightarrow>
     established st i = Some (n, r) \<and> sessions st r = Some s \<and> pokers st i = None
     \<and> initiators st i = None \<and> responders st i = None"

text \<open>The task of the pending entry, at its next turn, sends the message to the addresses; \<open>d\<close> is
  the datagram.\<close>

definition announces ::
    "('b, 'h, 's) env \<Rightarrow> ('h, 's) handler \<Rightarrow> session_id \<Rightarrow> socket_addr list \<Rightarrow> raw_message \<Rightarrow> bytes \<Rightarrow> bool" where
  "announces en st i addrs m d \<longleftrightarrow>
     (\<exists>h p. task_of st i = Some h \<and> on_wire en i m p d
        \<and> chan_queue (outgoing (rt (handler_announce en h st))) =
            chan_queue (outgoing (rt st)) @ map (\<lambda>a. (a, p, 64)) addrs)"

lemma announcesI:
  assumes "handler_codecs en" and "raw_size m \<le> 66000" and "task_of st i = Some h"
    and "tasks (rt st) h = Some \<lparr>ann_addresses = addrs, ann_id = i, ann_message = m\<rparr>"
    and "chan_open (outgoing (rt st))"
  obtains d where "announces en st i addrs m d"
proof -
  obtain bytes d where b: "serialize (raw_codec en) m = Inr bytes"
      "on_wire en i m (SessionPacket_new i bytes) d"
    using raw_on_wire [OF assms(1,2)] by metis
  have "chan_queue (outgoing (rt (handler_announce en h st))) =
      chan_queue (outgoing (rt st)) @ map (\<lambda>a. (a, SessionPacket_new i bytes, 64)) addrs"
    using announce_tick_queue(1) [OF assms(4) _ assms(5)] b(1) by (simp add: handler_announce_def)
  then show ?thesis using that assms(3) b(2) unfolding announces_def by blast
qed

lemma initiate_Ok:
  assumes "SnowInitiator_new (snow_of en) (keypair st) (public_key info) = Ok ini"
  obtains st1 h c where "Handler_initiate en n i info st = (st1, Ok (SessionReady_new i n c))"
    and "initiating_at i ini n c st1" and "task_of st1 i = Some h"
    and "tasks (rt st1) h = Some \<lparr>ann_addresses = addresses info, ann_id = i,
      ann_message = HandshakeInitiation (initiation ini)\<rparr>"
    and "outgoing (rt st1) = outgoing (rt st)"
    and "cells st1 c = \<lparr>notices = 0, receiver_alive = True, ready_wakers = []\<rparr>"
proof
  let ?st = "remove_session i None st" and ?r = "Handler_initiate en n i info st"
  show "?r = (fst ?r, Ok (SessionReady_new i n (next_cell ?st)))"
    and "initiating_at i ini n (next_cell ?st) (fst ?r)"
    and "task_of (fst ?r) i = Some (next_task (rt ?st))"
    and "tasks (rt (fst ?r)) (next_task (rt ?st)) = Some \<lparr>ann_addresses = addresses info, ann_id = i,
      ann_message = HandshakeInitiation (initiation ini)\<rparr>"
    and "outgoing (rt (fst ?r)) = outgoing (rt st)"
    and "cells (fst ?r) (next_cell ?st) = \<lparr>notices = 0, receiver_alive = True, ready_wakers = []\<rparr>"
    using assms
    by (simp_all add: Handler_initiate_def PendingSessionInitiator_new_def spawn_def new_cell_def
        initiating_at_def task_of_def remove_session_outgoing frame_simps Let_def)
qed

lemma respond_Ok:
  assumes "SnowResponder_new (snow_of en) (keypair st) (public_key info) = Ok rsp"
  obtains st1 c where "Handler_respond en n i info st = (st1, Ok (SessionReady_new i n c))"
    and "poking_at i rsp n c st1" and "outgoing (rt st1) = outgoing (rt st)"
    and "cells st1 c = \<lparr>notices = 0, receiver_alive = True, ready_wakers = []\<rparr>"
proof
  let ?st = "remove_session i None st" and ?r = "Handler_respond en n i info st"
  show "?r = (fst ?r, Ok (SessionReady_new i n (next_cell ?st)))"
    and "poking_at i rsp n (next_cell ?st) (fst ?r)"
    and "outgoing (rt (fst ?r)) = outgoing (rt st)"
    and "cells (fst ?r) (next_cell ?st) = \<lparr>notices = 0, receiver_alive = True, ready_wakers = []\<rparr>"
    using assms
    by (simp_all add: Handler_respond_def PendingSessionPoker_new_def spawn_def new_cell_def
        poking_at_def remove_session_outgoing frame_simps Let_def)
qed

lemma poking_receives:
  assumes "poking_at i rsp n c st" and "on_wire en i (HandshakeInitiation ini) p d"
    and "responder_response (snow_of en) rsp ini = Ok (lt, resp)"
  obtains st1 h where "Handler_handle_incoming en src d st = (st1, Ok ())"
    and "responding_at i src lt n c st1" and "task_of st1 i = Some h"
    and "tasks (rt st1) h = Some \<lparr>ann_addresses = [src], ann_id = i, ann_message = HandshakeResponse resp\<rparr>"
    and "outgoing (rt st1) = outgoing (rt st)" and "cells st1 = cells st"
proof
  obtain q where q: "pokers st i = Some (q, n, c)" "initiators st i = None" "responders st i = None"
      "established st i = None" "poker_waker q = None" "poker_id q = i" "poker_responder q = rsp"
    using assms(1) by (auto simp: poking_at_def)
  note wire = assms(2) [unfolded on_wire_def]
  let ?r = "Handler_handle_incoming en src d st"
  have "poker_handle_incoming en src p (rt st) q = (rt st, q\<lparr>poker_remote := Some (src, ini)\<rparr>)"
    using wire q(5) by (simp add: poker_handle_incoming_def)
  then have r: "?r = incoming_poker en src p (q, n, c) (st\<lparr>pokers := (pokers st)(i := None)\<rparr>)"
      "poker_handle_incoming en src p (rt st) q = (rt st, q\<lparr>poker_remote := Some (src, ini)\<rparr>)"
    using wire q(1) by (simp_all add: Handler_handle_incoming_def Let_def)
  show "?r = (fst ?r, Ok ())" and "responding_at i src lt n c (fst ?r)"
    and "task_of (fst ?r) i = Some (next_task (rt st))"
    and "tasks (rt (fst ?r)) (next_task (rt st)) =
      Some \<lparr>ann_addresses = [src], ann_id = i, ann_message = HandshakeResponse resp\<rparr>"
    and "outgoing (rt (fst ?r)) = outgoing (rt st)" and "cells (fst ?r) = cells st"
    unfolding r(1) using r(2) q wire assms(3)
    by (simp_all add: incoming_poker_def poker_is_ready_def poker_into_responder_def
        PendingSessionResponder_new_def spawn_def abort_task_def responding_at_def task_of_def)
qed

lemma upgrade_session_Ok:
  assumes "receiver_alive (cells st c)" and "established st i = None"
  shows "established (fst (upgrade_session i n s c st)) i = Some (n, next_session st)"
    and "sessions (fst (upgrade_session i n s c st)) (next_session st) = Some s"
    and "notices (cells (fst (upgrade_session i n s c st)) c) = Suc (notices (cells st c))"
    and "outgoing (rt (fst (upgrade_session i n s c st))) = outgoing (rt st)"
  using assms
  by (simp_all add: upgrade_session_def remove_established_def Let_def frame_simps)

lemma initiating_receives:
  assumes "initiating_at i ini n c st" and "on_wire en i (HandshakeResponse resp) p d"
    and "receive_response (snow_of en) ini resp = Ok (ReceiveOk lt)"
    and "Session_new en i src lt = Ok s" and "receiver_alive (cells st c)"
  obtains st1 r where "Handler_handle_incoming en src d st = (st1, Ok ())"
    and "established_at i s n r st1" and "notices (cells st1 c) = Suc (notices (cells st c))"
    and "outgoing (rt st1) = outgoing (rt st)"
proof -
  obtain q where q: "initiators st i = Some (q, n, c)" "pokers st i = None" "responders st i = None"
      "established st i = None" "ini_waker q = None" "ini_id q = i" "ini_initiator q = ini"
    using assms(1) by (auto simp: initiating_at_def)
  note wire = assms(2) [unfolded on_wire_def]
  let ?mid = "st\<lparr>initiators := (initiators st)(i := None), rt := abort_task (ini_handle q) (rt st)\<rparr>"
  let ?up = "fst (upgrade_session i n s c ?mid)"
  have inc: "initiator_handle_incoming en src p (rt st) q = (rt st, q\<lparr>ini_remote := Some (src, resp)\<rparr>)"
    using wire q(5) by (simp add: initiator_handle_incoming_def)
  have sess: "initiator_session en (q\<lparr>ini_remote := Some (src, resp)\<rparr>) (rt st)
      = (abort_task (ini_handle q) (rt st), Ok (SessionOk s))"
    using assms(3,4) q(6,7) by (simp add: initiator_session_def)
  show ?thesis
  proof (rule that)
    show "Handler_handle_incoming en src d st = (?up, Ok ())"
      using wire q inc sess
      by (simp add: Handler_handle_incoming_def incoming_initiator_def initiator_is_ready_def Let_def)
    show "established_at i s n (next_session st) ?up"
      and "notices (cells ?up c) = Suc (notices (cells st c))"
      and "outgoing (rt ?up) = outgoing (rt st)"
      using upgrade_session_Ok [of ?mid c i n s] upgrade_session_maps [of i n s c ?mid] assms(5) q
      by (simp_all add: established_at_def frame_simps)
  qed
qed

lemma responding_receives:
  assumes "responding_at i addr lt n c st" and "on_wire en i (Encrypted enc) p d"
    and "unseal (nonced_codec en) (snow_of en) lt enc = (lt1, Ok plain)"
    and "deserialize (message_codec en) plain = Inr Keepalive"
    and "Session_new en i addr lt1 = Ok s" and "receiver_alive (cells st c)"
  obtains st1 r where "Handler_handle_incoming en src d st = (st1, Ok ())"
    and "established_at i s n r st1" and "notices (cells st1 c) = Suc (notices (cells st c))"
    and "outgoing (rt st1) = outgoing (rt st)"
proof -
  obtain q where q: "responders st i = Some (q, n, c)" "pokers st i = None" "initiators st i = None"
      "established st i = None" "rsp_waker q = None" "rsp_id q = i" "rsp_remote_addr q = addr"
      "rsp_transport q = lt"
    using assms(1) by (auto simp: responding_at_def)
  note wire = assms(2) [unfolded on_wire_def]
  let ?mid = "st\<lparr>responders := (responders st)(i := None), rt := abort_task (rsp_handle q) (rt st)\<rparr>"
  let ?up = "fst (upgrade_session i n s c ?mid)"
  have inc: "responder_handle_incoming en src p (rt st) q =
      (rt st, q\<lparr>rsp_transport := lt1, rsp_ready := True\<rparr>, Err (Anyhow ''No waker in guard''))"
    using wire assms(3,4) q(5,8) by (simp add: responder_handle_incoming_def)
  have sess: "responder_session en (q\<lparr>rsp_transport := lt1, rsp_ready := True\<rparr>) (rt st)
      = (abort_task (rsp_handle q) (rt st), Ok s)"
    using assms(5) q(6,7) by (simp add: responder_session_def)
  show ?thesis
  proof (rule that)
    show "Handler_handle_incoming en src d st = (?up, Ok ())"
      using wire q inc sess
      by (simp add: Handler_handle_incoming_def incoming_responder_def responder_is_ready_def Let_def)
    show "established_at i s n (next_session st) ?up"
      and "notices (cells ?up c) = Suc (notices (cells st c))"
      and "outgoing (rt ?up) = outgoing (rt st)"
      using upgrade_session_Ok [of ?mid c i n s] upgrade_session_maps [of i n s c ?mid] assms(6) q
      by (simp_all add: established_at_def frame_simps)
  qed
qed

lemma Session_new_total:
  assumes "session_codecs en"
  obtains s where "Session_new en i addr lt = Ok s" and "transport s = lt" and "remote_addr s = addr"
    and "sess_id s = i" and "can_transmit en s" and "messages s = []"
proof -
  obtain ka where "serialize (message_codec en) Keepalive = Inr ka"
    using session_codecs_message [OF assms, of Keepalive] by auto
  then have "\<exists>s. Session_new en i addr lt = Ok s" by (simp add: Session_new_def question_def)
  then show ?thesis using that Session_new_Ok by metis
qed

lemma keepalive_sends:
  assumes "handler_codecs en" and est: "established_at i s n r st" and can: "can_transmit en s"
    and "sess_id s = i" and "noise_pair (snow_of en) (stateless (transport s)) b"
    and "next_nonce (transport s) \<noteq> u64_max" and "chan_open (outgoing (rt st))"
  obtains p d enc plain where "chan_queue (outgoing (rt (session_keepalive en r st))) =
      chan_queue (outgoing (rt st)) @ [(remote_addr s, p, 64)]"
    and "on_wire en i (Encrypted enc) p d"
    and "carries (nonced_codec en) (snow_of en) b (next_nonce (transport s)) plain enc"
    and "deserialize (message_codec en) plain = Inr Keepalive" and "length plain = 4"
    and "established_at i (s\<lparr>transport := (transport s)\<lparr>next_nonce := next_nonce (transport s) + 1\<rparr>\<rparr>)
      n r (session_keepalive en r st)"
    and "cells (session_keepalive en r st) = cells st"
proof -
  have ses: "session_codecs en" and wire: "nonced_wire (nonced_codec en)"
    using assms(1) by (simp_all add: handler_codecs_def session_codecs_def)
  let ?plain = "keepalive_serialized s"
  have plain: "serialize (message_codec en) Keepalive = Inr ?plain"
    and run: "keepalive_runs s" "\<not> dead s"
    using can by (simp_all add: can_transmit_def)
  have des: "deserialize (message_codec en) ?plain = Inr Keepalive" and four: "length ?plain = 4"
    using session_codecs_message [OF ses, of Keepalive] plain by auto
  obtain enc where enc: "seal (overflow_checks en) (nonced_codec en) (snow_of en) (transport s) ?plain
        = ((transport s)\<lparr>next_nonce := next_nonce (transport s) + 1\<rparr>, Ok enc)"
      "carries (nonced_codec en) (snow_of en) b (next_nonce (transport s)) ?plain enc"
      "length enc = length ?plain + 32"
    using seal_Ok [OF wire assms(5,6), of ?plain "overflow_checks en"] four by auto
  obtain bytes d where b: "serialize (raw_codec en) (Encrypted enc) = Inr bytes"
      "on_wire en i (Encrypted enc) (SessionPacket_new i bytes) d"
    using raw_on_wire [OF assms(1), of "Encrypted enc" i] enc(3) four by auto
  have tick: "keepalive_tick en (outgoing (rt st)) s =
      (s\<lparr>transport := (transport s)\<lparr>next_nonce := next_nonce (transport s) + 1\<rparr>\<rparr>,
       (outgoing (rt st))\<lparr>chan_queue := chan_queue (outgoing (rt st)) @
          [(remote_addr s, SessionPacket_new i bytes, 64)]\<rparr>)"
    using run enc(1) b(1) assms(4,7) by (simp add: keepalive_tick_def chan_send_def)
  show ?thesis
    by (rule that [OF _ b(2) enc(2) des four])
      (use est tick in \<open>simp_all add: established_at_def session_keepalive_def\<close>)
qed

text \<open>The two messages of the pattern, through the wrappers of \<open>snow_types.rs\<close>.\<close>

lemma handshake_messages:
  assumes "kk_completes (snow_of en) hi hr"
    and "build_with (snow_of en) (build_initiator (snow_of en)) ka pkb = Ok hi"
    and "build_with (snow_of en) (build_responder (snow_of en)) kb pka = Ok hr"
  obtains ini rsp resp ti tr where "SnowInitiator_new (snow_of en) ka pkb = Ok ini"
    and "SnowResponder_new (snow_of en) kb pka = Ok rsp"
    and "raw_size (HandshakeInitiation (initiation ini)) \<le> 66000"
    and "raw_size (HandshakeResponse resp) \<le> 66000"
    and "responder_response (snow_of en) rsp (initiation ini) = Ok (from_stateless tr, resp)"
    and "receive_response (snow_of en) ini resp = Ok (ReceiveOk (from_stateless ti))"
    and "noise_pair (snow_of en) ti tr" and "noise_pair (snow_of en) tr ti"
proof -
  obtain hi1 m1 hr1 x hr2 m2 hi2 y ti tr where kk:
    "hs_write_message (snow_of en) hi [] 65535 = (hi1, Inr m1)" "length m1 \<le> 65535"
    "hs_read_message (snow_of en) hr m1 65535 = (hr1, Inr x)"
    "hs_write_message (snow_of en) hr1 [] 65535 = (hr2, Inr m2)" "length m2 \<le> 65535"
    "hs_read_message (snow_of en) hi1 m2 65535 = (hi2, Inr y)"
    "into_stateless_transport_mode (snow_of en) hi2 = Inr ti"
    "into_stateless_transport_mode (snow_of en) hr2 = Inr tr"
    and pair: "noise_pair (snow_of en) ti tr" "noise_pair (snow_of en) tr ti"
    using assms(1) unfolding kk_completes_def by blast
  show ?thesis
  proof (rule that [OF _ _ _ _ _ _ pair])
    show "SnowInitiator_new (snow_of en) ka pkb = Ok (SnowInitiator hi1 (SnowInitiation m1))"
      using kk assms(2) by (simp add: SnowInitiator_new_def slice_overwrite)
    show "SnowResponder_new (snow_of en) kb pka = Ok (SnowResponder hr)"
      using assms(3) by (simp add: SnowResponder_new_def)
    show "responder_response (snow_of en) (SnowResponder hr)
        (initiation (SnowInitiator hi1 (SnowInitiation m1))) = Ok (from_stateless tr, SnowResponse m2)"
      using kk by (simp add: slice_overwrite question_def)
    show "receive_response (snow_of en) (SnowInitiator hi1 (SnowInitiation m1)) (SnowResponse m2)
        = Ok (ReceiveOk (from_stateless ti))"
      using kk by (simp add: question_def)
  qed (use kk in simp_all)
qed

lemma from_stateless_sel:
  "stateless (from_stateless x) = x" "next_nonce (from_stateless x) = 0"
  "fresh_below x 0 (from_stateless x)"
  by (simp_all add: from_stateless_def LossyTransportState_new_def fresh_below_def)

text \<open>The exchange of the two Noise messages: the initiator's side is established.\<close>

lemma handshake_exchange:
  assumes "handler_codecs en" and "kk_completes (snow_of en) hi hr"
    and "build_with (snow_of en) (build_initiator (snow_of en)) (keypair sa) (public_key infob) = Ok hi"
    and "build_with (snow_of en) (build_responder (snow_of en)) (keypair sb) (public_key infoa) = Ok hr"
    and "chan_open (outgoing (rt sa))" and "chan_open (outgoing (rt sb))"
  obtains a1 ca b1 cb ini d1 b2 resp d2 a2 r s0 ti tr where
    "Handler_initiate en na i infob sa = (a1, Ok (SessionReady_new i na ca))"
    and "Handler_respond en nb i infoa sb = (b1, Ok (SessionReady_new i nb cb))"
    and "announces en a1 i (addresses infob) (HandshakeInitiation ini) d1"
    and "Handler_handle_incoming en addra d1 b1 = (b2, Ok ())"
    and "announces en b2 i [addra] (HandshakeResponse resp) d2"
    and "Handler_handle_incoming en addrb d2 a1 = (a2, Ok ())"
    and "established_at i s0 na r a2" and "notices (cells a2 ca) = 1"
    and "chan_open (outgoing (rt a2))" and "Session_new en i addrb (from_stateless ti) = Ok s0"
    and "responding_at i addra (from_stateless tr) nb cb b2"
    and "receiver_alive (cells b2 cb)" and "chan_open (outgoing (rt b2))"
    and "noise_pair (snow_of en) ti tr" and "noise_pair (snow_of en) tr ti"
proof -
  obtain ini rsp resp ti tr where
    hs: "SnowInitiator_new (snow_of en) (keypair sa) (public_key infob) = Ok ini"
      "SnowResponder_new (snow_of en) (keypair sb) (public_key infoa) = Ok rsp"
      "raw_size (HandshakeInitiation (initiation ini)) \<le> 66000"
      "raw_size (HandshakeResponse resp) \<le> 66000"
      "responder_response (snow_of en) rsp (initiation ini) = Ok (from_stateless tr, resp)"
      "receive_response (snow_of en) ini resp = Ok (ReceiveOk (from_stateless ti))"
    and pair: "noise_pair (snow_of en) ti tr" "noise_pair (snow_of en) tr ti"
    by (rule handshake_messages [OF assms(2,3,4)])
  obtain a1 ha ca where a1: "Handler_initiate en na i infob sa = (a1, Ok (SessionReady_new i na ca))"
      "initiating_at i ini na ca a1" "task_of a1 i = Some ha"
      "tasks (rt a1) ha = Some \<lparr>ann_addresses = addresses infob, ann_id = i,
        ann_message = HandshakeInitiation (initiation ini)\<rparr>"
      "outgoing (rt a1) = outgoing (rt sa)"
      "cells a1 ca = \<lparr>notices = 0, receiver_alive = True, ready_wakers = []\<rparr>"
    by (rule initiate_Ok [OF hs(1)])
  obtain b1 cb where b1: "Handler_respond en nb i infoa sb = (b1, Ok (SessionReady_new i nb cb))"
      "poking_at i rsp nb cb b1" "outgoing (rt b1) = outgoing (rt sb)"
      "cells b1 cb = \<lparr>notices = 0, receiver_alive = True, ready_wakers = []\<rparr>"
    by (rule respond_Ok [OF hs(2)])
  obtain d1 where d1: "announces en a1 i (addresses infob) (HandshakeInitiation (initiation ini)) d1"
    using announcesI [OF assms(1) hs(3) a1(3,4)] a1(5) assms(5) by metis
  then obtain p1 where p1: "on_wire en i (HandshakeInitiation (initiation ini)) p1 d1"
    by (auto simp: announces_def)
  obtain b2 hb where b2: "Handler_handle_incoming en addra d1 b1 = (b2, Ok ())"
      "responding_at i addra (from_stateless tr) nb cb b2" "task_of b2 i = Some hb"
      "tasks (rt b2) hb = Some \<lparr>ann_addresses = [addra], ann_id = i, ann_message = HandshakeResponse resp\<rparr>"
      "outgoing (rt b2) = outgoing (rt b1)" "cells b2 = cells b1"
    by (rule poking_receives [OF b1(2) p1 hs(5)])
  obtain d2 where d2: "announces en b2 i [addra] (HandshakeResponse resp) d2"
    using announcesI [OF assms(1) hs(4) b2(3,4)] b2(5) b1(3) assms(6) by metis
  then obtain p2 where p2: "on_wire en i (HandshakeResponse resp) p2 d2"
    by (auto simp: announces_def)
  obtain s0 where s0: "Session_new en i addrb (from_stateless ti) = Ok s0"
    using Session_new_total assms(1) unfolding handler_codecs_def by metis
  have "receiver_alive (cells a1 ca)" by (simp add: a1(6))
  then obtain a2 r where a2: "Handler_handle_incoming en addrb d2 a1 = (a2, Ok ())"
      "established_at i s0 na r a2" "notices (cells a2 ca) = Suc (notices (cells a1 ca))"
      "outgoing (rt a2) = outgoing (rt a1)"
    by (rule initiating_receives [OF a1(2) p2 hs(6) s0])
  show ?thesis
    by (rule that [OF a1(1) b1(1) d1 b2(1) d2 a2(1,2) _ _ s0 b2(2) _ _ pair])
      (simp_all add: a2(3,4) a1(5,6) assms(5,6) b2(5,6) b1(3,4))
qed

text \<open>A session as the handshake leaves it.\<close>

definition newborn :: "('b, 'h, 's) env \<Rightarrow> session_id \<Rightarrow> socket_addr \<Rightarrow> 's session \<Rightarrow> bool" where
  "newborn en i addr s \<longleftrightarrow>
     sess_id s = i \<and> remote_addr s = addr \<and> can_transmit en s \<and> heartbeat_runs s \<and> messages s = []"

lemma Session_new_newborn: "Session_new en i addr lt = Ok s \<Longrightarrow> newborn en i addr s"
  using Session_new_Ok unfolding newborn_def by blast

text \<open>The first keepalive of the established side confirms the handshake to the other.\<close>

lemma handshake_confirmed:
  assumes "handler_codecs en" and "established_at i s0 na r a2" and "chan_open (outgoing (rt a2))"
    and "Session_new en i addrb (from_stateless ti) = Ok s0"
    and "responding_at i addra (from_stateless tr) nb cb b2" and "receiver_alive (cells b2 cb)"
    and pair: "noise_pair (snow_of en) ti tr" "noise_pair (snow_of en) tr ti"
  obtains p3 d3 b3 q s t where
    "chan_queue (outgoing (rt (session_keepalive en r a2))) =
        chan_queue (outgoing (rt a2)) @ [(addrb, p3, 64)]"
    and "serialize (packet_codec en) p3 = Inr d3"
    and "Handler_handle_incoming en addra d3 b2 = (b3, Ok ())"
    and "established_at i s na r (session_keepalive en r a2)" and "established_at i t nb q b3"
    and "newborn en i addrb s" and "newborn en i addra t"
    and "next_nonce (transport s) = 1" and "next_nonce (transport t) = 0"
    and "linked (snow_of en) s t" and "linked (snow_of en) t s"
    and "notices (cells b3 cb) = Suc (notices (cells b2 cb))"
    and "outgoing (rt b3) = outgoing (rt b2)"
proof -
  note s0 = Session_new_Ok [OF assms(4)]
  let ?s = "s0\<lparr>transport := (transport s0)\<lparr>next_nonce := next_nonce (transport s0) + 1\<rparr>\<rparr>"
  have "noise_pair (snow_of en) (stateless (transport s0)) tr" "next_nonce (transport s0) \<noteq> u64_max"
    using pair(1) s0 by (simp_all add: from_stateless_sel)
  then obtain p3 d3 enc plain where
    p3: "chan_queue (outgoing (rt (session_keepalive en r a2))) =
        chan_queue (outgoing (rt a2)) @ [(remote_addr s0, p3, 64)]"
      "on_wire en i (Encrypted enc) p3 d3"
      "carries (nonced_codec en) (snow_of en) tr (next_nonce (transport s0)) plain enc"
      "deserialize (message_codec en) plain = Inr Keepalive" "length plain = 4"
      "established_at i ?s na r (session_keepalive en r a2)"
    using keepalive_sends [OF assms(1,2)] s0 assms(3) by metis
  have "carries (nonced_codec en) (snow_of en) tr 0 plain enc" "(0 :: u64) \<noteq> u64_max" "length plain \<le> 65535"
    using p3(3,5) s0 by (simp_all add: from_stateless_sel)
  then obtain lt1 where lt1: "unseal (nonced_codec en) (snow_of en) (from_stateless tr) enc = (lt1, Ok plain)"
      "fresh_below tr (0 + 1) lt1"
    by (metis unseal_fresh [OF from_stateless_sel(3)])
  obtain t where t: "Session_new en i addra lt1 = Ok t" "transport t = lt1"
    using Session_new_total assms(1) unfolding handler_codecs_def by metis
  obtain b3 q where b3: "Handler_handle_incoming en addra d3 b2 = (b3, Ok ())"
      "established_at i t nb q b3" "notices (cells b3 cb) = Suc (notices (cells b2 cb))"
      "outgoing (rt b3) = outgoing (rt b2)"
    by (rule responding_receives [OF assms(5) p3(2) lt1(1) p3(4) t(1) assms(6)])
  have nonce: "next_nonce lt1 = 0"
    using lt1(1) read_message_frame(3) [of "nonced_codec en" "snow_of en" "from_stateless tr" enc buffer]
    by (simp add: unseal_def from_stateless_sel split: prod.splits)
  then have link: "linked (snow_of en) ?s t" "linked (snow_of en) t ?s"
    using pair lt1(2) s0 t(2)
    by (simp_all add: linked_def from_stateless_sel fresh_below_def from_stateless_def
        LossyTransportState_new_def)
  have d3: "serialize (packet_codec en) p3 = Inr d3" using p3(2) by (simp add: on_wire_def)
  have nb: "newborn en i addrb ?s" "next_nonce (transport ?s) = 1" "remote_addr s0 = addrb"
    using Session_new_newborn [OF assms(4)] s0 by (simp_all add: newborn_def from_stateless_sel can_transmit_def)
  show ?thesis
    by (rule that [OF p3(1) [unfolded nb(3)] d3 b3(1) p3(6) b3(2) nb(1) Session_new_newborn [OF t(1)]
        nb(2) _ link b3(3,4)]) (simp add: t(2) nonce)
qed

lemma tag_built:
  "build_with (snow_of (layout_env tag_snow)) (build_initiator (snow_of (layout_env tag_snow))) kp pk = Ok ()"
  "build_with (snow_of (layout_env tag_snow)) (build_responder (snow_of (layout_env tag_snow))) kp pk = Ok ()"
  by (cases pk; cases kp; cases "keypair_private kp"; simp add: layout_env_def tag_snow_def
      snow_builder_def rust_std)+

end
