(* ===== verification/HandlerLink.thy ===== *)
theory HandlerLink
  imports Handshake
begin

text \<open>
  Two handlers (\<open>src/src/handler.rs\<close>) with established sessions that the handshake linked: each
  \<open>Handler::send\<close> puts one packet into the outgoing channel, and the other handler's
  \<open>handle_incoming\<close> queues exactly the payload of the datagram made from it. Also what happens to
  a payload that overtakes the first keepalive.
\<close>

section \<open>Datagrams between sessions\<close>

text \<open>The datagram carries \<open>m\<close> under the nonce \<open>k\<close> to the session \<open>i\<close> with cipher \<open>b\<close>.\<close>

definition wire_message ::
    "('b, 'h, 's) env \<Rightarrow> 's \<Rightarrow> session_id \<Rightarrow> u64 \<Rightarrow> message \<Rightarrow> bytes \<Rightarrow> bool" where
  "wire_message en b i k m d \<longleftrightarrow>
     (\<exists>enc plain p. on_wire en i (Encrypted enc) p d
        \<and> carries (nonced_codec en) (snow_of en) b k plain enc \<and> length plain \<le> 65535
        \<and> deserialize (message_codec en) plain = Inr m)"

lemma wire_messageE:
  assumes "wire_message en b i k m d"
  obtains p where "deserialize (packet_codec en) d = Inr p" and "packet_id p = i" and "bears en b k m p"
  using assms unfolding wire_message_def on_wire_def bears_def by blast

lemma sealed_on_wire:
  assumes "handler_codecs en" and "noise_pair (snow_of en) (stateless lt) b"
    and "next_nonce lt \<noteq> u64_max" and "message_size m \<le> 65503"
  obtains plain enc bytes d where "serialize (message_codec en) m = Inr plain"
    and "seal (overflow_checks en) (nonced_codec en) (snow_of en) lt plain
      = (lt\<lparr>next_nonce := next_nonce lt + 1\<rparr>, Ok enc)"
    and "serialize (raw_codec en) (Encrypted enc) = Inr bytes"
    and "serialize (packet_codec en) (SessionPacket_new i bytes) = Inr d"
    and "wire_message en b i (next_nonce lt) m d" and "length d \<le> message_size m + 76"
proof -
  have ses: "session_codecs en" and wire: "nonced_wire (nonced_codec en)"
    using assms(1) by (simp_all add: handler_codecs_def session_codecs_def)
  obtain plain where plain: "serialize (message_codec en) m = Inr plain"
      "deserialize (message_codec en) plain = Inr m" "length plain = message_size m"
    using session_codecs_message [OF ses assms(4)] .
  obtain enc where enc: "seal (overflow_checks en) (nonced_codec en) (snow_of en) lt plain
        = (lt\<lparr>next_nonce := next_nonce lt + 1\<rparr>, Ok enc)"
      "carries (nonced_codec en) (snow_of en) b (next_nonce lt) plain enc"
      "length enc = length plain + 32"
    using seal_Ok [OF wire assms(2,3), of plain "overflow_checks en"] plain(3) assms(4) by auto
  obtain bytes d where b: "serialize (raw_codec en) (Encrypted enc) = Inr bytes"
      "on_wire en i (Encrypted enc) (SessionPacket_new i bytes) d"
    using raw_on_wire [OF assms(1), of "Encrypted enc" i] enc(3) plain(3) assms(4) by auto
  have "wire_message en b i (next_nonce lt) m d"
    unfolding wire_message_def using b(2) enc(2) plain(2,3) assms(4)
    by (intro exI [of _ enc] exI [of _ plain] exI [of _ "SessionPacket_new i bytes"]) simp
  moreover have "serialize (packet_codec en) (SessionPacket_new i bytes) = Inr d"
    using b(2) by (simp add: on_wire_def)
  moreover from this have "length d \<le> message_size m + 76"
    using assms(1) b(1) enc(3) plain(3) unfolding handler_codecs_def packet_sizes_def raw_sizes_def by force
  ultimately show ?thesis using plain(1) enc(1) b(1) by (intro that)
qed

lemma handler_sends:
  assumes "handler_codecs en" and est: "established_at i s n r st" and "\<not> dead s" and "sess_id s = i"
    and "noise_pair (snow_of en) (stateless (transport s)) b" and "next_nonce (transport s) \<noteq> u64_max"
    and "length x \<le> 65491" and "chan_open (outgoing (rt st))"
  obtains st1 p d where "Handler_send en i x st = (st1, Ok ())"
    and "serialize (packet_codec en) p = Inr d"
    and "wire_message en b i (next_nonce (transport s)) (Payload x) d" and "length d \<le> length x + 88"
    and "outgoing (rt st1) =
      (outgoing (rt st))\<lparr>chan_queue := chan_queue (outgoing (rt st)) @ [(remote_addr s, p, 64)]\<rparr>"
    and "established_at i (s\<lparr>transport := (transport s)\<lparr>next_nonce := next_nonce (transport s) + 1\<rparr>\<rparr>) n r st1"
proof -
  have size: "message_size (Payload x) \<le> 65503" using assms(7) by simp
  obtain plain enc bytes d where x: "serialize (message_codec en) (Payload x) = Inr plain"
      "seal (overflow_checks en) (nonced_codec en) (snow_of en) (transport s) plain
        = ((transport s)\<lparr>next_nonce := next_nonce (transport s) + 1\<rparr>, Ok enc)"
      "serialize (raw_codec en) (Encrypted enc) = Inr bytes"
      "serialize (packet_codec en) (SessionPacket_new i bytes) = Inr d"
      "wire_message en b i (next_nonce (transport s)) (Payload x) d" "length d \<le> message_size (Payload x) + 76"
    by (rule sealed_on_wire [OF assms(1,5,6) size])
  let ?s = "s\<lparr>transport := (transport s)\<lparr>next_nonce := next_nonce (transport s) + 1\<rparr>\<rparr>"
  let ?ch = "(outgoing (rt st))\<lparr>chan_queue := chan_queue (outgoing (rt st)) @
    [(remote_addr s, SessionPacket_new i bytes, 64)]\<rparr>"
  let ?st = "st\<lparr>sessions := (sessions st)(r \<mapsto> ?s), rt := (rt st)\<lparr>outgoing := ?ch\<rparr>\<rparr>"
  have "Session_send en (outgoing (rt st)) s x = (?s, ?ch, Ok ())"
    using assms(3,4,8) x by (simp add: Session_send_def chan_send_def)
  then have "Handler_send en i x st = (?st, Ok ())"
    using est by (simp add: Handler_send_def established_at_def)
  then show ?thesis
    using est x(4-6) by (intro that [of ?st "SessionPacket_new i bytes" d]) (simp_all add: established_at_def)
qed

lemma wire_message_exists:
  assumes "handler_codecs en" and "noise_pair (snow_of en) a b" and "k \<noteq> u64_max" and "message_size m \<le> 65503"
  shows "\<exists>d. wire_message en b i k m d"
  using sealed_on_wire [OF assms(1), of "(from_stateless a)\<lparr>next_nonce := k\<rparr>" b m i] assms(2-)
  by (auto simp: from_stateless_sel)

lemma established_receives:
  assumes est: "established_at i t n r st" and "fresh_below b k (transport t)" and "k \<noteq> u64_max"
    and "wire_message en b i k m d"
  obtains st1 lt where "Handler_handle_incoming en src d st = (st1, Ok ())"
    and "established_at i (fst (taken_in m lt t)) n r st1" and "read_up_to b (k + 1) lt"
proof -
  obtain p where p: "deserialize (packet_codec en) d = Inr p" "packet_id p = i" "bears en b k m p"
    using assms(4) by (rule wire_messageE)
  obtain lt where lt: "Session_handle_incoming en p t = (fst (taken_in m lt t), snd (taken_in m lt t), Ok ())"
      "read_up_to b (k + 1) lt"
    using handle_incoming_bears [OF assms(2,3) p(3)] .
  show ?thesis
    by (rule that [of "st\<lparr>sessions := (sessions st)(r \<mapsto> fst (taken_in m lt t)),
        rt := wake (snd (taken_in m lt t)) (rt st)\<rparr>", OF _ _ lt(2)])
      (use est p lt(1) in \<open>simp_all add: Handler_handle_incoming_def incoming_established_def
        established_at_def\<close>)
qed

text \<open>A datagram that comes late or again changes nothing.\<close>

lemma established_late:
  assumes est: "established_at i t n r st" and "read_up_to b k (transport t)" and "j < k"
    and "wire_message en b i j m d"
  shows "Handler_handle_incoming en src d st = (st, Ok ())"
proof -
  obtain p where p: "deserialize (packet_codec en) d = Inr p" "packet_id p = i" "bears en b j m p"
    using assms(4) by (rule wire_messageE)
  have "(sessions st)(r \<mapsto> t) = sessions st" using est by (simp add: established_at_def fun_upd_idem)
  moreover have "wake [] (rt st) = rt st" by (simp add: wake_def)
  ultimately show ?thesis
    using est p handle_incoming_late [OF assms(2,3) p(3)]
    by (simp add: Handler_handle_incoming_def incoming_established_def established_at_def)
qed

section \<open>A payload before the first keepalive\<close>

lemma responding_drops:
  assumes "responding_at i addr lt n c st" and "fresh_below b k lt" and "k \<noteq> u64_max"
    and "wire_message en b i k (Payload x) d"
  obtains st1 lt1 where "Handler_handle_incoming en src d st = (st1, Ok ())"
    and "responding_at i addr lt1 n c st1" and "fresh_below b (k + 1) lt1" and "cells st1 = cells st"
proof -
  obtain q where q: "responders st i = Some (q, n, c)" "pokers st i = None" "initiators st i = None"
      "established st i = None" "rsp_waker q = None" "rsp_id q = i" "rsp_remote_addr q = addr"
      "rsp_transport q = lt" "\<not> rsp_ready q"
    using assms(1) by (auto simp: responding_at_def)
  obtain enc plain p where w: "on_wire en i (Encrypted enc) p d"
      "carries (nonced_codec en) (snow_of en) b k plain enc" "length plain \<le> 65535"
      "deserialize (message_codec en) plain = Inr (Payload x)"
    using assms(4) unfolding wire_message_def by blast
  obtain lt1 where lt1: "unseal (nonced_codec en) (snow_of en) lt enc = (lt1, Ok plain)"
      "fresh_below b (k + 1) lt1"
    using unseal_fresh [OF assms(2,3) w(2,3)] .
  have "responder_handle_incoming en src p (rt st) q =
      (rt st, q\<lparr>rsp_transport := lt1\<rparr>, Err (Anyhow ''Deserialized decrypted message not of type Keepalive.''))"
    using w(1,4) lt1(1) q(8) by (simp add: responder_handle_incoming_def on_wire_def)
  then have "Handler_handle_incoming en src d st =
      (st\<lparr>responders := (responders st)(i \<mapsto> (q\<lparr>rsp_transport := lt1\<rparr>, n, c))\<rparr>, Ok ())"
    using w(1) q by (simp add: Handler_handle_incoming_def incoming_responder_def responder_is_ready_def
        on_wire_def Let_def)
  then show ?thesis
    by (rule that [OF _ _ lt1(2)]) (use q in \<open>simp_all add: responding_at_def\<close>)
qed

lemma responding_confirmed:
  assumes "session_codecs en" and "responding_at i addr lt n c st" and "fresh_below b k lt"
    and "k \<noteq> u64_max" and "wire_message en b i k Keepalive d" and "receiver_alive (cells st c)"
  obtains st1 t r where "Handler_handle_incoming en src d st = (st1, Ok ())"
    and "established_at i t n r st1" and "messages t = []"
proof -
  obtain enc plain p where w: "on_wire en i (Encrypted enc) p d"
      "carries (nonced_codec en) (snow_of en) b k plain enc" "length plain \<le> 65535"
      "deserialize (message_codec en) plain = Inr Keepalive"
    using assms(5) unfolding wire_message_def by blast
  obtain lt1 where lt1: "unseal (nonced_codec en) (snow_of en) lt enc = (lt1, Ok plain)"
    using unseal_fresh [OF assms(3,4) w(2,3)] .
  obtain t where t: "Session_new en i addr lt1 = Ok t" "messages t = []"
    by (rule Session_new_total [OF assms(1)])
  show ?thesis
    by (rule responding_receives [OF assms(2) w(1) lt1 w(4) t(1) assms(6)]) (rule that [OF _ _ t(2)])
qed

text \<open>C39 (safety). A payload is lost when it reaches the responding side before the first keepalive,
  although it is authentic and \<open>send\<close> reported success: the responder consumes it and keeps
  waiting, and the session that the next keepalive establishes has no message queued.\<close>

theorem early_payload_lost:
  assumes "session_codecs en" and "responding_at i addr lt n c st" and "receiver_alive (cells st c)"
    and "fresh_below b k lt" and "unat k + 1 < 2 ^ 64 - 1"
    and "wire_message en b i k (Payload x) d" and "wire_message en b i (k + 1) Keepalive e"
  shows "\<exists>st1 st2 lt1 t r. Handler_handle_incoming en src d st = (st1, Ok ())
    \<and> responding_at i addr lt1 n c st1
    \<and> Handler_handle_incoming en src e st1 = (st2, Ok ())
    \<and> established_at i t n r st2 \<and> messages t = []"
proof -
  have k: "k \<noteq> u64_max" "k + 1 \<noteq> u64_max"
    using assms(5) unat_plus_1 [of k] by auto
  obtain st1 lt1 where st1: "Handler_handle_incoming en src d st = (st1, Ok ())"
      "responding_at i addr lt1 n c st1" "fresh_below b (k + 1) lt1" "cells st1 = cells st"
    by (rule responding_drops [OF assms(2,4) k(1) assms(6)])
  have "receiver_alive (cells st1 c)" using assms(3) st1(4) by simp
  then obtain st2 t r where "Handler_handle_incoming en src e st1 = (st2, Ok ())"
      "established_at i t n r st2" "messages t = []"
    by (rule responding_confirmed [OF assms(1) st1(2,3) k(2) assms(7)])
  then show ?thesis using st1(1,2) by blast
qed

theorem early_payload_lost_witness:
  "\<exists>(st :: (unit, u8) handler) st1 st2 lt lt1 t r d e.
     responding_at 5 (SocketAddrV4 1 2) lt 12 0 st
     \<and> wire_message demo_env 7 5 0 (Payload [1]) d \<and> wire_message demo_env 7 5 1 Keepalive e
     \<and> Handler_handle_incoming demo_env (SocketAddrV4 1 2) d st = (st1, Ok ())
     \<and> responding_at 5 (SocketAddrV4 1 2) lt1 12 0 st1
     \<and> Handler_handle_incoming demo_env (SocketAddrV4 1 2) e st1 = (st2, Ok ())
     \<and> established_at 5 t 12 r st2 \<and> messages t = []"
proof -
  let ?rt = "rt (Handler_new demo_keypair :: (unit, u8) handler)"
  let ?st = "(Handler_new demo_keypair :: (unit, u8) handler)\<lparr>
     responders := [5 \<mapsto> (snd (PendingSessionResponder_new 5 (SocketAddrV4 1 2) (from_stateless 7)
       (SnowResponse []) ?rt), 12, 0)],
     cells := (\<lambda>_. \<lparr>notices = 0, receiver_alive = True, ready_wakers = []\<rparr>)\<rparr>"
  have codecs: "handler_codecs demo_env" "session_codecs demo_env"
    using layout_env_handler_codecs layout_env_codecs by (simp_all add: demo_env_def)
  have st: "responding_at 5 (SocketAddrV4 1 2) (from_stateless 7) 12 0 ?st"
    by (simp add: responding_at_def Handler_new_def PendingSessionResponder_new_def spawn_def)
  have pair: "noise_pair (snow_of demo_env) 7 7"
    using tag_snow_pair by (simp add: demo_env_def layout_env_def)
  obtain d e where d: "wire_message demo_env 7 5 0 (Payload [1]) d" and e: "wire_message demo_env 7 5 (0 + 1) Keepalive e"
    using wire_message_exists [OF codecs(1) pair, of 0 "Payload [1]" 5]
      wire_message_exists [OF codecs(1) pair, of "0 + 1" Keepalive 5] by auto
  have alive: "receiver_alive (cells ?st 0)" by simp
  have "unat (0 :: u64) + 1 < 2 ^ 64 - 1" by simp
  from early_payload_lost [OF codecs(2) st alive from_stateless_sel(3) this d e, of "SocketAddrV4 1 2"]
  obtain st1 st2 lt1 t r where "Handler_handle_incoming demo_env (SocketAddrV4 1 2) d ?st = (st1, Ok ())"
      "responding_at 5 (SocketAddrV4 1 2) lt1 12 0 st1"
      "Handler_handle_incoming demo_env (SocketAddrV4 1 2) e st1 = (st2, Ok ())"
      "established_at 5 t 12 r st2" "messages t = []"
    by blast
  moreover have "wire_message demo_env 7 5 1 Keepalive e" using e by simp
  ultimately show ?thesis using st d by blast
qed

end
