(* ===== verification/Sockets.thy ===== *)
theory Sockets
  imports Net "HOL-Library.Multiset"
begin

text \<open>
  \<open>src/src/dualstack/\<close>: the traits \<open>BidirSocket\<close> and \<open>MaybeDual\<close>, the socket of one IP version and
  the pair of both. The operating system's UDP socket is a parameter, the record \<open>udp\<close>; a
  \<open>recv_from\<close> for which nothing has arrived is \<open>None\<close>. The value of a socket is its state, so
  that the text can say which of two sockets a call touches. A buffer is passed in and handed back.
\<close>

section \<open>The traits\<close>

datatype io_error = IoError string | InvalidInput string

type_synonym 'k recv_result = "('k \<times> bytes \<times> (io_error + nat \<times> socket_addr)) option"

record 'k bidir_socket =
  bs_recv_from :: "'k \<Rightarrow> bytes \<Rightarrow> 'k recv_result"
  bs_set_ttl :: "'k \<Rightarrow> u32 \<Rightarrow> 'k \<times> (io_error + unit)"
  bs_send_to :: "'k \<Rightarrow> bytes \<Rightarrow> socket_addr \<Rightarrow> 'k \<times> (io_error + nat)"

record ('k, 'u) maybe_dual =
  md_v4 :: "'k \<Rightarrow> 'u option"
  md_v6 :: "'k \<Rightarrow> 'u option"

text \<open>\<open>tokio::net::UdpSocket\<close>, with the parser of socket addresses of the standard library.\<close>

record 'u udp =
  udp_bind :: "socket_addr \<Rightarrow> io_error + 'u"
  udp_socket :: "'u bidir_socket"
  udp_local_addr :: "'u \<Rightarrow> io_error + socket_addr"
  parse_addr :: "string \<Rightarrow> socket_addr option"

section \<open>VersionedSocket\<close>

datatype 'u versioned_socket = SockV4 'u | SockV6 'u

definition VersionedSocket_v4 :: "'u udp \<Rightarrow> socket_addr \<Rightarrow> io_error + 'u versioned_socket" where
  "VersionedSocket_v4 os addr = (case udp_bind os addr of Inl e \<Rightarrow> Inl e | Inr u \<Rightarrow> Inr (SockV4 u))"

definition VersionedSocket_v6 :: "'u udp \<Rightarrow> socket_addr \<Rightarrow> io_error + 'u versioned_socket" where
  "VersionedSocket_v6 os addr = (case udp_bind os addr of Inl e \<Rightarrow> Inl e | Inr u \<Rightarrow> Inr (SockV6 u))"

definition VersionedSocket_bind :: "'u udp \<Rightarrow> string \<Rightarrow> io_error + 'u versioned_socket" where
  "VersionedSocket_bind os addr =
     (case parse_addr os addr of
        Some (SocketAddrV4 ip port) \<Rightarrow> VersionedSocket_v4 os (SocketAddrV4 ip port)
      | Some (SocketAddrV6 ip port fl sc) \<Rightarrow> VersionedSocket_v6 os (SocketAddrV6 ip port fl sc)
      | None \<Rightarrow> Inl (InvalidInput ''Invalid address''))"

fun versioned_recv_from :: "'u udp \<Rightarrow> 'u versioned_socket \<Rightarrow> bytes \<Rightarrow> 'u versioned_socket recv_result" where
  "versioned_recv_from os (SockV4 u) buf =
     map_option (\<lambda>(u1, r). (SockV4 u1, r)) (bs_recv_from (udp_socket os) u buf)"
| "versioned_recv_from os (SockV6 u) buf =
     map_option (\<lambda>(u1, r). (SockV6 u1, r)) (bs_recv_from (udp_socket os) u buf)"

fun versioned_set_ttl :: "'u udp \<Rightarrow> 'u versioned_socket \<Rightarrow> u32 \<Rightarrow> 'u versioned_socket \<times> (io_error + unit)" where
  "versioned_set_ttl os (SockV4 u) ttl = (case bs_set_ttl (udp_socket os) u ttl of (u1, r) \<Rightarrow> (SockV4 u1, r))"
| "versioned_set_ttl os (SockV6 u) ttl = (case bs_set_ttl (udp_socket os) u ttl of (u1, r) \<Rightarrow> (SockV6 u1, r))"

fun versioned_send_to ::
    "'u udp \<Rightarrow> 'u versioned_socket \<Rightarrow> bytes \<Rightarrow> socket_addr \<Rightarrow> 'u versioned_socket \<times> (io_error + nat)" where
  "versioned_send_to os (SockV4 u) buf addr =
     (case bs_send_to (udp_socket os) u buf addr of (u1, r) \<Rightarrow> (SockV4 u1, r))"
| "versioned_send_to os (SockV6 u) buf addr =
     (case bs_send_to (udp_socket os) u buf addr of (u1, r) \<Rightarrow> (SockV6 u1, r))"

definition versioned_socket_ops :: "'u udp \<Rightarrow> 'u versioned_socket bidir_socket" where
  "versioned_socket_ops os =
     \<lparr>bs_recv_from = versioned_recv_from os, bs_set_ttl = versioned_set_ttl os,
      bs_send_to = versioned_send_to os\<rparr>"

fun versioned_v4 :: "'u versioned_socket \<Rightarrow> 'u option" where
  "versioned_v4 (SockV4 u) = Some u"
| "versioned_v4 (SockV6 _) = None"

fun versioned_v6 :: "'u versioned_socket \<Rightarrow> 'u option" where
  "versioned_v6 (SockV4 _) = None"
| "versioned_v6 (SockV6 u) = Some u"

section \<open>DualSocket\<close>

record ('a, 'b) dual_socket =
  v4_socket :: 'a
  v6_socket :: 'b

definition DualSocket_new :: "'a \<Rightarrow> 'b \<Rightarrow> ('a, 'b) dual_socket" where
  "DualSocket_new a b = \<lparr>v4_socket = a, v6_socket = b\<rparr>"

text \<open>Both are bound before either result is looked at.\<close>

definition DualSocket_dualstack ::
    "'u udp \<Rightarrow> socket_addr \<Rightarrow> socket_addr \<Rightarrow>
       io_error + ('u versioned_socket, 'u versioned_socket) dual_socket" where
  "DualSocket_dualstack os a4 a6 =
     (case (VersionedSocket_v4 os a4, VersionedSocket_v6 os a6) of
        (Inl e, _) \<Rightarrow> Inl e
      | (Inr _, Inl e) \<Rightarrow> Inl e
      | (Inr x, Inr y) \<Rightarrow> Inr (DualSocket_new x y))"

text \<open>
  \<open>recv_from\<close>. The macro \<open>select!\<close> looks at the two branches in a random order, \<open>six_first\<close>, and
  takes the first that is ready; the other call is dropped, which for a UDP socket means that it
  has not taken anything (the documented cancel safety of \<open>recv_from\<close>).
\<close>

definition recv_branch4 ::
    "'a bidir_socket \<Rightarrow> ('a, 'b) dual_socket \<Rightarrow> bytes \<Rightarrow> ('a, 'b) dual_socket recv_result" where
  "recv_branch4 oa d buf =
     (case bs_recv_from oa (v4_socket d) (replicate (length buf) 0) of
        None \<Rightarrow> None
      | Some (a, v4_buf, r) \<Rightarrow> Some (d\<lparr>v4_socket := a\<rparr>, take (length buf) v4_buf, r))"

definition recv_branch6 ::
    "'b bidir_socket \<Rightarrow> ('a, 'b) dual_socket \<Rightarrow> bytes \<Rightarrow> ('a, 'b) dual_socket recv_result" where
  "recv_branch6 ob d buf =
     (case bs_recv_from ob (v6_socket d) (replicate (length buf) 0) of
        None \<Rightarrow> None
      | Some (b, v6_buf, r) \<Rightarrow> Some (d\<lparr>v6_socket := b\<rparr>, take (length buf) v6_buf, r))"

definition dual_recv_from ::
    "bool \<Rightarrow> 'a bidir_socket \<Rightarrow> 'b bidir_socket \<Rightarrow> ('a, 'b) dual_socket \<Rightarrow> bytes \<Rightarrow>
       ('a, 'b) dual_socket recv_result" where
  "dual_recv_from six_first oa ob d buf =
     (if six_first
      then (case recv_branch6 ob d buf of None \<Rightarrow> recv_branch4 oa d buf | r \<Rightarrow> r)
      else (case recv_branch4 oa d buf of None \<Rightarrow> recv_branch6 ob d buf | r \<Rightarrow> r))"

definition dual_set_ttl ::
    "'a bidir_socket \<Rightarrow> 'b bidir_socket \<Rightarrow> ('a, 'b) dual_socket \<Rightarrow> u32 \<Rightarrow>
       ('a, 'b) dual_socket \<times> (io_error + unit)" where
  "dual_set_ttl oa ob d ttl =
     (case bs_set_ttl oa (v4_socket d) ttl of
        (a, Inl e) \<Rightarrow> (d\<lparr>v4_socket := a\<rparr>, Inl e)
      | (a, Inr _) \<Rightarrow>
          (case bs_set_ttl ob (v6_socket d) ttl of
             (b, Inl e) \<Rightarrow> (d\<lparr>v4_socket := a, v6_socket := b\<rparr>, Inl e)
           | (b, Inr _) \<Rightarrow> (d\<lparr>v4_socket := a, v6_socket := b\<rparr>, Inr ())))"

fun dual_send_to ::
    "'a bidir_socket \<Rightarrow> 'b bidir_socket \<Rightarrow> ('a, 'b) dual_socket \<Rightarrow> bytes \<Rightarrow> socket_addr \<Rightarrow>
       ('a, 'b) dual_socket \<times> (io_error + nat)" where
  "dual_send_to oa ob d buf (SocketAddrV4 ip port) =
     (case bs_send_to oa (v4_socket d) buf (SocketAddrV4 ip port) of (a, r) \<Rightarrow> (d\<lparr>v4_socket := a\<rparr>, r))"
| "dual_send_to oa ob d buf (SocketAddrV6 ip port fl sc) =
     (case bs_send_to ob (v6_socket d) buf (SocketAddrV6 ip port fl sc) of (b, r) \<Rightarrow> (d\<lparr>v6_socket := b\<rparr>, r))"

text \<open>The order may differ from call to call.\<close>

definition dual_socket_ops ::
    "(('a, 'b) dual_socket \<Rightarrow> bool) \<Rightarrow> 'a bidir_socket \<Rightarrow> 'b bidir_socket \<Rightarrow> ('a, 'b) dual_socket bidir_socket" where
  "dual_socket_ops six_first oa ob =
     \<lparr>bs_recv_from = (\<lambda>d. dual_recv_from (six_first d) oa ob d), bs_set_ttl = dual_set_ttl oa ob,
      bs_send_to = dual_send_to oa ob\<rparr>"

definition versioned_dual :: "('u versioned_socket, 'u) maybe_dual" where
  "versioned_dual = \<lparr>md_v4 = versioned_v4, md_v6 = versioned_v6\<rparr>"

definition dual_maybe_dual :: "('k, 'u) maybe_dual \<Rightarrow> (('k, 'k) dual_socket, 'u) maybe_dual" where
  "dual_maybe_dual md = \<lparr>md_v4 = md_v4 md \<circ> v4_socket, md_v6 = md_v6 md \<circ> v6_socket\<rparr>"

section \<open>The contract of a datagram socket\<close>

text \<open>
  What the receiving loop relies on. \<open>pending\<close> are the datagrams that have arrived; a call takes
  one of them, in no particular order, and waits when there is none. The buffer keeps its length,
  the count says how much of it is the datagram, and what does not fit is lost.
\<close>

type_synonym datagram = "bytes \<times> socket_addr"

locale datagram_socket =
  fixes ops :: "'k bidir_socket" and pending :: "'k \<Rightarrow> datagram multiset"
  assumes recv_waits: "bs_recv_from ops k buf = None \<longleftrightarrow> pending k = {#}"
    and recv_takes: "bs_recv_from ops k buf = Some (k1, buf1, r) \<Longrightarrow>
      \<exists>d a. (d, a) \<in># pending k \<and> pending k1 = pending k - {#(d, a)#}
        \<and> length buf1 = length buf \<and> r = Inr (min (length d) (length buf), a)
        \<and> take (min (length d) (length buf)) buf1 = take (length buf) d"
begin

text \<open>Calls until nothing is pending, with a buffer of \<open>n\<close> bytes: the loop of a receiver.\<close>

lemma recv_shrinks:
  "bs_recv_from ops k buf = Some (k1, buf1, r) \<Longrightarrow> size (pending k1) < size (pending k)"
  by (drule recv_takes) (auto simp: size_Diff_singleton intro: diff_Suc_less dest: multi_member_split)

end

fun drain :: "'k bidir_socket \<Rightarrow> nat \<Rightarrow> nat \<Rightarrow> 'k \<Rightarrow> ('k \<times> datagram list) option" where
  "drain ops n 0 k = None"
| "drain ops n (Suc fuel) k =
     (case bs_recv_from ops k (replicate n 0) of
        None \<Rightarrow> Some (k, [])
      | Some (k1, buf, Inl _) \<Rightarrow> drain ops n fuel k1
      | Some (k1, buf, Inr (len, a)) \<Rightarrow>
          map_option (\<lambda>(k2, ds). (k2, (take len buf, a) # ds)) (drain ops n fuel k1))"

context datagram_socket
begin

lemma drain_takes_all:
  "size (pending k) < fuel \<Longrightarrow>
     \<exists>k1 ds. drain ops n fuel k = Some (k1, ds) \<and> pending k1 = {#}
       \<and> mset ds = image_mset (\<lambda>(d, a). (take n d, a)) (pending k)"
proof (induction fuel arbitrary: k)
  case (Suc fuel)
  show ?case
  proof (cases "bs_recv_from ops k (replicate n 0)")
    case None
    then show ?thesis using recv_waits [of k] by auto
  next
    case (Some x)
    then obtain k1 buf r where x: "bs_recv_from ops k (replicate n 0) = Some (k1, buf, r)"
      by (cases x) auto
    then obtain d a where da: "(d, a) \<in># pending k" "pending k1 = pending k - {#(d, a)#}"
        "r = Inr (min (length d) n, a)" "take (min (length d) n) buf = take n d"
      using recv_takes [OF x] by auto
    have "size (pending k1) < fuel" using recv_shrinks [OF x] Suc.prems by simp
    then obtain k2 ds where "drain ops n fuel k1 = Some (k2, ds)" "pending k2 = {#}"
        "mset ds = image_mset (\<lambda>(d, a). (take n d, a)) (pending k1)"
      using Suc.IH by blast
    moreover have "pending k = add_mset (d, a) (pending k1)" using da(1,2) by simp
    ultimately show ?thesis using x da(3,4) by simp
  qed
qed simp

end

section \<open>Both socket types keep the contract\<close>

locale datagram_pair =
  v4: datagram_socket oa pa + v6: datagram_socket ob pb
  for oa :: "'a bidir_socket" and pa and ob :: "'b bidir_socket" and pb
begin

lemma branch4_takes:
  assumes "recv_branch4 oa d buf = Some (d1, buf1, r)"
  shows "\<exists>x a. (x, a) \<in># pa (v4_socket d) \<and> pa (v4_socket d1) = pa (v4_socket d) - {#(x, a)#}
    \<and> v6_socket d1 = v6_socket d \<and> length buf1 = length buf
    \<and> r = Inr (min (length x) (length buf), a)
    \<and> take (min (length x) (length buf)) buf1 = take (length buf) x"
  using assms
  by (auto simp: recv_branch4_def split: option.splits dest!: v4.recv_takes)

lemma branch6_takes:
  assumes "recv_branch6 ob d buf = Some (d1, buf1, r)"
  shows "\<exists>x a. (x, a) \<in># pb (v6_socket d) \<and> pb (v6_socket d1) = pb (v6_socket d) - {#(x, a)#}
    \<and> v4_socket d1 = v4_socket d \<and> length buf1 = length buf
    \<and> r = Inr (min (length x) (length buf), a)
    \<and> take (min (length x) (length buf)) buf1 = take (length buf) x"
  using assms
  by (auto simp: recv_branch6_def split: option.splits dest!: v6.recv_takes)

lemma branches_wait:
  "recv_branch4 oa d buf = None \<longleftrightarrow> pa (v4_socket d) = {#}"
  "recv_branch6 ob d buf = None \<longleftrightarrow> pb (v6_socket d) = {#}"
  by (simp_all add: recv_branch4_def recv_branch6_def v4.recv_waits [symmetric, of _ "replicate (length buf) 0"]
      v6.recv_waits [symmetric, of _ "replicate (length buf) 0"] split: option.split prod.split)

sublocale dual: datagram_socket "dual_socket_ops six_first oa ob"
  "\<lambda>d. pa (v4_socket d) + pb (v6_socket d)" for six_first
proof
  fix d :: "('a, 'b) dual_socket" and buf
  show "bs_recv_from (dual_socket_ops six_first oa ob) d buf = None \<longleftrightarrow>
      pa (v4_socket d) + pb (v6_socket d) = {#}"
    using branches_wait [of d buf]
    by (cases "recv_branch4 oa d buf"; cases "recv_branch6 ob d buf")
      (auto simp: dual_socket_ops_def dual_recv_from_def)
  fix d1 buf1 r
  assume "bs_recv_from (dual_socket_ops six_first oa ob) d buf = Some (d1, buf1, r)"
  then have "recv_branch4 oa d buf = Some (d1, buf1, r) \<or> recv_branch6 ob d buf = Some (d1, buf1, r)"
    by (auto simp: dual_socket_ops_def dual_recv_from_def split: if_splits option.splits)
  then show "\<exists>x a. (x, a) \<in># pa (v4_socket d) + pb (v6_socket d)
      \<and> pa (v4_socket d1) + pb (v6_socket d1) = pa (v4_socket d) + pb (v6_socket d) - {#(x, a)#}
      \<and> length buf1 = length buf \<and> r = Inr (min (length x) (length buf), a)
      \<and> take (min (length x) (length buf)) buf1 = take (length buf) x"
    by (elim disjE) (drule branch4_takes branch6_takes; fastforce)+
qed

lemmas dual_drain = dual.drain_takes_all

end

fun versioned_udp :: "'u versioned_socket \<Rightarrow> 'u" where
  "versioned_udp (SockV4 u) = u"
| "versioned_udp (SockV6 u) = u"

text \<open>From the socket of the operating system to both types of the program.\<close>

locale udp_contract = udp: datagram_socket "udp_socket os" p for os :: "'u udp" and p
begin

sublocale versioned: datagram_socket "versioned_socket_ops os" "\<lambda>k. p (versioned_udp k)"
proof
  fix k :: "'u versioned_socket" and buf
  show "bs_recv_from (versioned_socket_ops os) k buf = None \<longleftrightarrow> p (versioned_udp k) = {#}"
    by (cases k) (simp_all add: versioned_socket_ops_def udp.recv_waits)
  fix k1 buf1 r
  assume "bs_recv_from (versioned_socket_ops os) k buf = Some (k1, buf1, r)"
  then show "\<exists>d a. (d, a) \<in># p (versioned_udp k) \<and> p (versioned_udp k1) = p (versioned_udp k) - {#(d, a)#}
      \<and> length buf1 = length buf \<and> r = Inr (min (length d) (length buf), a)
      \<and> take (min (length d) (length buf)) buf1 = take (length buf) d"
    by (cases k) (auto simp: versioned_socket_ops_def dest!: udp.recv_takes)
qed

sublocale pair: datagram_pair
  "versioned_socket_ops os" "\<lambda>k. p (versioned_udp k)" "versioned_socket_ops os" "\<lambda>k. p (versioned_udp k)" ..

end

text \<open>A concrete UDP socket: what arrived, in order, and what was sent.\<close>

record queue_socket =
  inbox :: "datagram list"
  outbox :: "datagram list"
  ttl :: u32
  bound_to :: socket_addr

definition queue_socket_ops :: "queue_socket bidir_socket" where
  "queue_socket_ops =
     \<lparr>bs_recv_from = (\<lambda>k buf. case inbox k of
          [] \<Rightarrow> None
        | (d, a) # rest \<Rightarrow>
            Some (k\<lparr>inbox := rest\<rparr>, overwrite d buf, Inr (min (length d) (length buf), a))),
      bs_set_ttl = (\<lambda>k n. (k\<lparr>ttl := n\<rparr>, Inr ())),
      bs_send_to = (\<lambda>k buf a. (k\<lparr>outbox := outbox k @ [(buf, a)]\<rparr>, Inr (length buf)))\<rparr>"

lemma take_min_overwrite: "take (min (length d) (length buf)) (overwrite d buf) = take (length buf) d"
  by (simp add: overwrite_def min_def)

interpretation queue_udp: datagram_socket queue_socket_ops "\<lambda>k. mset (inbox k)"
  by unfold_locales
    (auto simp: queue_socket_ops_def take_min_overwrite split: list.splits intro!: exI)

definition demo_queue :: "socket_addr \<Rightarrow> datagram list \<Rightarrow> queue_socket" where
  "demo_queue a ds = \<lparr>inbox = ds, outbox = [], ttl = 64, bound_to = a\<rparr>"

definition demo_udp :: "queue_socket udp" where
  "demo_udp =
     \<lparr>udp_bind = (\<lambda>a. Inr (demo_queue a [])), udp_socket = queue_socket_ops,
      udp_local_addr = (\<lambda>u. Inr (bound_to u)),
      parse_addr = (\<lambda>s. if s = ''0.0.0.0:9'' then Some (SocketAddrV4 0 9) else None)\<rparr>"

text \<open>The sockets of the program on it.\<close>

interpretation program_sockets: udp_contract demo_udp "\<lambda>k. mset (inbox k)"
  using queue_udp.datagram_socket_axioms by (simp add: udp_contract_def demo_udp_def)

section \<open>Properties\<close>

text \<open>C22 (refinement). A \<open>DualSocket\<close> over two sockets that keep the contract keeps it as well, with
  the datagrams of both pending: it waits only when both are empty, and each call takes one
  datagram from one of them, with nothing lost from the other, whichever branch of \<open>select!\<close> is
  looked at first. A receive loop with enough turns therefore gets every datagram exactly once,
  cut to the size of the buffer.\<close>

theorem dual_receives_all:
  assumes "datagram_socket oa pa" and "datagram_socket ob pb"
    and "size (pa (v4_socket d)) + size (pb (v6_socket d)) < fuel"
  shows "\<exists>d1 ds. drain (dual_socket_ops six_first oa ob) n fuel d = Some (d1, ds)
    \<and> pa (v4_socket d1) = {#} \<and> pb (v6_socket d1) = {#}
    \<and> mset ds = image_mset (\<lambda>(x, a). (take n x, a)) (pa (v4_socket d) + pb (v6_socket d))"
proof -
  have "datagram_pair oa pa ob pb" using assms(1,2) by (rule datagram_pair.intro)
  from datagram_pair.dual_drain [OF this, of d fuel six_first n] assms(3) show ?thesis by auto
qed

theorem dual_receives_all_witness:
  "\<exists>d1 ds. drain (dual_socket_ops (\<lambda>_. True) (versioned_socket_ops demo_udp) (versioned_socket_ops demo_udp)) 2 4
        (DualSocket_new
          (SockV4 (demo_queue (SocketAddrV4 0 9) [([1, 2, 3], SocketAddrV4 5 6), ([4], SocketAddrV4 5 7)]))
          (SockV6 (demo_queue (SocketAddrV6 0 9 0 0) [([8], SocketAddrV6 5 6 0 0)]))) = Some (d1, ds)
    \<and> mset (inbox (versioned_udp (v4_socket d1))) = {#} \<and> mset (inbox (versioned_udp (v6_socket d1))) = {#}
    \<and> mset ds = {#([8], SocketAddrV6 5 6 0 0), ([1, 2], SocketAddrV4 5 6), ([4], SocketAddrV4 5 7)#}"
  using dual_receives_all [OF program_sockets.versioned.datagram_socket_axioms
      program_sockets.versioned.datagram_socket_axioms,
      of "DualSocket_new
          (SockV4 (demo_queue (SocketAddrV4 0 9) [([1, 2, 3], SocketAddrV4 5 6), ([4], SocketAddrV4 5 7)]))
          (SockV6 (demo_queue (SocketAddrV6 0 9 0 0) [([8], SocketAddrV6 5 6 0 0)]))" 4 "\<lambda>_. True" 2]
  by (simp add: DualSocket_new_def demo_queue_def)

text \<open>Sending a list of datagrams one after the other, with the results.\<close>

fun send_all :: "'k bidir_socket \<Rightarrow> datagram list \<Rightarrow> 'k \<Rightarrow> 'k \<times> (datagram \<times> (io_error + nat)) list" where
  "send_all ops [] k = (k, [])"
| "send_all ops ((b, a) # ds) k =
     (case bs_send_to ops k b a of (k1, r) \<Rightarrow>
        (case send_all ops ds k1 of (k2, rs) \<Rightarrow> (k2, ((b, a), r) # rs)))"

lemma send_all_Cons:
  "fst (send_all ops ((b, a) # ds) k) = fst (send_all ops ds (fst (bs_send_to ops k b a)))"
  "snd (send_all ops ((b, a) # ds) k) =
     ((b, a), snd (bs_send_to ops k b a)) # snd (send_all ops ds (fst (bs_send_to ops k b a)))"
  by (simp_all split: prod.split)

lemma dual_send_ops:
  "bs_send_to (dual_socket_ops six_first oa ob) d b a =
     (if is_ipv4 a
      then (d\<lparr>v4_socket := fst (bs_send_to oa (v4_socket d) b a)\<rparr>, snd (bs_send_to oa (v4_socket d) b a))
      else (d\<lparr>v6_socket := fst (bs_send_to ob (v6_socket d) b a)\<rparr>, snd (bs_send_to ob (v6_socket d) b a)))"
  by (cases a) (simp_all add: dual_socket_ops_def split: prod.split)

text \<open>Sending through a \<open>DualSocket\<close> is sending the IPv4 datagrams through one socket
  and the IPv6 datagrams through the other: both sockets end as if each had sent its own part
  alone, in order, and every call returns what its socket returns.\<close>

theorem dual_send_splits:
  "v4_socket (fst (send_all (dual_socket_ops six_first oa ob) ds d)) =
      fst (send_all oa (filter (is_ipv4 \<circ> snd) ds) (v4_socket d))
   \<and> v6_socket (fst (send_all (dual_socket_ops six_first oa ob) ds d)) =
      fst (send_all ob (filter (Not \<circ> is_ipv4 \<circ> snd) ds) (v6_socket d))
   \<and> filter (is_ipv4 \<circ> snd \<circ> fst) (snd (send_all (dual_socket_ops six_first oa ob) ds d)) =
      snd (send_all oa (filter (is_ipv4 \<circ> snd) ds) (v4_socket d))
   \<and> filter (Not \<circ> is_ipv4 \<circ> snd \<circ> fst) (snd (send_all (dual_socket_ops six_first oa ob) ds d)) =
      snd (send_all ob (filter (Not \<circ> is_ipv4 \<circ> snd) ds) (v6_socket d))"
proof (induction ds arbitrary: d)
  case (Cons x ds)
  then show ?case
    by (cases x) (simp add: send_all_Cons dual_send_ops del: send_all.simps(2))
qed simp

end
