(* ===== verification/Discovery.thy ===== *)
theory Discovery
  imports Sockets
begin

text \<open>
  \<open>src/src/ip_discovery/mod.rs\<close>: which addresses a socket can be reached at. The list of network
  interfaces, the name resolution and the STUN query are calls of third-party code or of the
  operating system; what each call returns is a field of the record \<open>answers\<close>. A \<open>HashSet\<close> is a
  list without duplicates.
\<close>

section \<open>Sets of addresses\<close>

definition hs_insert :: "'a \<Rightarrow> 'a list \<Rightarrow> 'a list" where
  "hs_insert x xs = (if x \<in> set xs then xs else xs @ [x])"

definition hs_extend :: "'a list \<Rightarrow> 'a list \<Rightarrow> 'a list" where
  "hs_extend ys xs = fold hs_insert ys xs"

definition hs_collect :: "'a list \<Rightarrow> 'a list" where
  "hs_collect ys = hs_extend ys []"

definition hs_retain :: "('a \<Rightarrow> bool) \<Rightarrow> 'a list \<Rightarrow> 'a list" where
  "hs_retain P xs = filter P xs"

lemma set_hs_insert [simp]: "set (hs_insert x xs) = insert x (set xs)"
  by (auto simp: hs_insert_def)

lemma distinct_hs_insert [simp]: "distinct xs \<Longrightarrow> distinct (hs_insert x xs)"
  by (simp add: hs_insert_def)

lemma set_hs_extend [simp]: "set (hs_extend ys xs) = set ys \<union> set xs"
  unfolding hs_extend_def by (induction ys arbitrary: xs) auto

lemma distinct_hs_extend [simp]: "distinct xs \<Longrightarrow> distinct (hs_extend ys xs)"
  unfolding hs_extend_def by (induction ys arbitrary: xs) auto

lemma hs_collect [simp]: "set (hs_collect ys) = set ys" "distinct (hs_collect ys)"
  by (simp_all add: hs_collect_def)

lemma hs_retain [simp]: "set (hs_retain P xs) = {x \<in> set xs. P x}" "distinct xs \<Longrightarrow> distinct (hs_retain P xs)"
  by (auto simp: hs_retain_def)

section \<open>What the calls return\<close>

text \<open>\<open>network_interface::Addr\<close>; the netmask and the broadcast address are never read.\<close>

datatype if_addr = AddrV4 u32 | AddrV6 u128

record network_interface =
  if_name :: string
  if_addrs :: "if_addr list"

datatype setup_error = FromIo io_error | FromInterface string | FromKeys snow_error | FromAddrParse

record 'u answers =
  show_v4 :: "string + network_interface list"
  show_v6 :: "string + network_interface list"
  resolved_v4 :: "io_error + socket_addr list"
  resolved_v6 :: "io_error + socket_addr list"
  stun :: "socket_addr \<Rightarrow> 'u \<Rightarrow> string + socket_addr"

section \<open>The functions\<close>

definition local_ips_v4 :: "string + network_interface list \<Rightarrow> u16 \<Rightarrow> string + socket_addr list" where
  "local_ips_v4 shown port =
     (case shown of
        Inl e \<Rightarrow> Inl e
      | Inr ifs \<Rightarrow>
          Inr (hs_collect (map (\<lambda>ip. SocketAddrV4 ip port)
            (List.map_filter (\<lambda>addr. case addr of AddrV4 ip \<Rightarrow> Some ip | _ \<Rightarrow> None)
              (concat (map if_addrs ifs))))))"

definition local_ips_v6 :: "string + network_interface list \<Rightarrow> u16 \<Rightarrow> string + socket_addr list" where
  "local_ips_v6 shown port =
     (case shown of
        Inl e \<Rightarrow> Inl e
      | Inr ifs \<Rightarrow>
          Inr (hs_collect (map (\<lambda>ip. SocketAddrV6 ip port 0 0)
            (List.map_filter (\<lambda>addr. case addr of AddrV6 ip \<Rightarrow> Some ip | _ \<Rightarrow> None)
              (concat (map if_addrs ifs))))))"

text \<open>\<open>SocketAddr::new\<close> on the address of an interface.\<close>

fun interface_addr :: "u16 \<Rightarrow> if_addr \<Rightarrow> socket_addr" where
  "interface_addr port (AddrV4 ip) = SocketAddrV4 ip port"
| "interface_addr port (AddrV6 ip) = SocketAddrV6 ip port 0 0"

definition local_ips :: "string + network_interface list \<Rightarrow> u16 \<Rightarrow> string + socket_addr list" where
  "local_ips shown port =
     (case shown of
        Inl e \<Rightarrow> Inl e
      | Inr ifs \<Rightarrow> Inr (hs_collect (map (interface_addr port) (concat (map if_addrs ifs)))))"

definition public_v4 :: "'u answers \<Rightarrow> 'u \<Rightarrow> socket_addr list" where
  "public_v4 ans u =
     (case (case resolved_v4 ans of Inl _ \<Rightarrow> None | Inr found \<Rightarrow> find is_ipv4 found) of
        None \<Rightarrow> []
      | Some stun_addr \<Rightarrow>
          (case stun ans stun_addr u of Inl _ \<Rightarrow> [] | Inr addr \<Rightarrow> hs_insert addr []))"

definition public_v6 :: "'u udp \<Rightarrow> 'u answers \<Rightarrow> 'u \<Rightarrow> io_error + socket_addr list" where
  "public_v6 os ans u =
     (case (case resolved_v6 ans of Inl _ \<Rightarrow> None | Inr found \<Rightarrow> find is_ipv6 found) of
        None \<Rightarrow> Inr []
      | Some stun_addr \<Rightarrow>
          (case stun ans stun_addr u of
             Inl _ \<Rightarrow> Inr []
           | Inr addr \<Rightarrow>
               (case udp_local_addr os u of
                  Inl e \<Rightarrow> Inl e
                | Inr local \<Rightarrow> Inr (hs_insert (set_port (addr_port local) addr) (hs_insert addr [])))))"

text \<open>The two blocks of \<open>discover_ips\<close>.\<close>

definition discover_v4 ::
    "'u udp \<Rightarrow> 'u answers \<Rightarrow> 'u option \<Rightarrow> socket_addr list \<Rightarrow> setup_error + socket_addr list" where
  "discover_v4 os ans v4_sock ips =
     (case v4_sock of
        None \<Rightarrow> Inr ips
      | Some u \<Rightarrow>
          (case udp_local_addr os u of
             Inl e \<Rightarrow> Inl (FromIo e)
           | Inr local_addr \<Rightarrow>
               (case local_ips_v4 (show_v4 ans) (addr_port local_addr) of
                  Inl e \<Rightarrow> Inl (FromInterface e)
                | Inr locals \<Rightarrow>
                    Inr (hs_extend (public_v4 ans u) (hs_extend locals (hs_insert local_addr ips))))))"

definition discover_v6 ::
    "'u udp \<Rightarrow> 'u answers \<Rightarrow> 'u option \<Rightarrow> socket_addr list \<Rightarrow> setup_error + socket_addr list" where
  "discover_v6 os ans v6_sock ips =
     (case v6_sock of
        None \<Rightarrow> Inr ips
      | Some u \<Rightarrow>
          (case udp_local_addr os u of
             Inl e \<Rightarrow> Inl (FromIo e)
           | Inr local_addr \<Rightarrow>
               (case local_ips_v6 (show_v6 ans) (addr_port local_addr) of
                  Inl e \<Rightarrow> Inl (FromInterface e)
                | Inr locals \<Rightarrow>
                    (let ips1 = hs_extend locals (hs_insert local_addr ips)
                     in case public_v6 os ans u of
                          Inl _ \<Rightarrow> Inr ips1
                        | Inr ipv6_addrs \<Rightarrow> Inr (hs_extend ipv6_addrs ips1)))))"

definition discover_ips ::
    "'u udp \<Rightarrow> ('k, 'u) maybe_dual \<Rightarrow> 'u answers \<Rightarrow> 'k \<Rightarrow> setup_error + socket_addr list" where
  "discover_ips os md ans sock =
     (case discover_v4 os ans (md_v4 md sock) [] of
        Inl e \<Rightarrow> Inl e
      | Inr ips \<Rightarrow>
          (case discover_v6 os ans (md_v6 md sock) ips of
             Inl e \<Rightarrow> Inl e
           | Inr ips \<Rightarrow> Inr (hs_retain (\<lambda>x. \<not> is_unspecified (addr_ip x)) ips)))"

section \<open>What is found\<close>

text \<open>The addresses of an interface list with a port, as a set.\<close>

definition interface_addrs :: "string + network_interface list \<Rightarrow> u16 \<Rightarrow> socket_addr set" where
  "interface_addrs shown port =
     (case shown of Inl _ \<Rightarrow> {} | Inr ifs \<Rightarrow> {interface_addr port a |i a. i \<in> set ifs \<and> a \<in> set (if_addrs i)})"

text \<open>What the first STUN server of the family \<open>P\<close> answers.\<close>

definition stun_answer :: "'u answers \<Rightarrow> (socket_addr \<Rightarrow> bool) \<Rightarrow> io_error + socket_addr list \<Rightarrow> 'u \<Rightarrow> socket_addr set" where
  "stun_answer ans P resolved u =
     (case resolved of
        Inl _ \<Rightarrow> {}
      | Inr found \<Rightarrow>
          (case find P found of None \<Rightarrow> {} | Some s \<Rightarrow> (case stun ans s u of Inl _ \<Rightarrow> {} | Inr a \<Rightarrow> {a})))"

lemma set_local_ips_v4:
  "local_ips_v4 shown port = Inr xs \<Longrightarrow> set xs = {a \<in> interface_addrs shown port. is_ipv4 a}"
  by (auto simp: local_ips_v4_def interface_addrs_def map_filter_def image_iff
      split: sum.splits if_addr.splits) (metis if_addr.exhaust interface_addr.simps is_ipv4.simps)+

lemma set_local_ips_v6:
  "local_ips_v6 shown port = Inr xs \<Longrightarrow> set xs = {a \<in> interface_addrs shown port. is_ipv6 a}"
  by (auto simp: local_ips_v6_def interface_addrs_def map_filter_def image_iff
      split: sum.splits if_addr.splits) (metis if_addr.exhaust interface_addr.simps is_ipv4.simps)+

lemma set_local_ips: "local_ips shown port = Inr xs \<Longrightarrow> set xs = interface_addrs shown port"
  by (force simp: local_ips_def interface_addrs_def split: sum.splits)

text \<open>Both families together are all addresses of the interfaces.\<close>

lemma local_ips_split:
  "local_ips shown port = Inr xs \<Longrightarrow>
     \<exists>ys zs. local_ips_v4 shown port = Inr ys \<and> local_ips_v6 shown port = Inr zs \<and> set xs = set ys \<union> set zs"
proof -
  assume xs: "local_ips shown port = Inr xs"
  then obtain ys zs where "local_ips_v4 shown port = Inr ys" "local_ips_v6 shown port = Inr zs"
    by (auto simp: local_ips_def local_ips_v4_def local_ips_v6_def split: sum.splits)
  then show ?thesis using set_local_ips [OF xs] set_local_ips_v4 set_local_ips_v6 by blast
qed

text \<open>What a present socket contributes: the address it is bound to, those of the interfaces of
  its family with its port, and what STUN reports, for IPv6 also with the port of the socket.\<close>

definition found_v4 :: "'u udp \<Rightarrow> 'u answers \<Rightarrow> 'u option \<Rightarrow> socket_addr set" where
  "found_v4 os ans sock =
     {a. \<exists>u here. sock = Some u \<and> udp_local_addr os u = Inr here
        \<and> (a = here \<or> a \<in> interface_addrs (show_v4 ans) (addr_port here) \<and> is_ipv4 a
           \<or> a \<in> stun_answer ans is_ipv4 (resolved_v4 ans) u)}"

definition found_v6 :: "'u udp \<Rightarrow> 'u answers \<Rightarrow> 'u option \<Rightarrow> socket_addr set" where
  "found_v6 os ans sock =
     {a. \<exists>u here. sock = Some u \<and> udp_local_addr os u = Inr here
        \<and> (a = here \<or> a \<in> interface_addrs (show_v6 ans) (addr_port here) \<and> is_ipv6 a
           \<or> a \<in> stun_answer ans is_ipv6 (resolved_v6 ans) u
           \<or> a \<in> set_port (addr_port here) ` stun_answer ans is_ipv6 (resolved_v6 ans) u)}"

lemma set_public_v4: "set (public_v4 ans u) = stun_answer ans is_ipv4 (resolved_v4 ans) u"
  by (simp add: public_v4_def stun_answer_def split: sum.split option.split)

lemma set_public_v6:
  assumes "udp_local_addr os u = Inr here"
  shows "\<exists>xs. public_v6 os ans u = Inr xs
    \<and> set xs = stun_answer ans is_ipv6 (resolved_v6 ans) u
      \<union> set_port (addr_port here) ` stun_answer ans is_ipv6 (resolved_v6 ans) u"
  using assms by (auto simp: public_v6_def stun_answer_def split: sum.split option.split)

lemma discover_v4_set:
  assumes "discover_v4 os ans sock ips = Inr xs"
  shows "set xs = set ips \<union> found_v4 os ans sock" and "distinct ips \<Longrightarrow> distinct xs"
proof -
  show "distinct ips \<Longrightarrow> distinct xs"
    using assms by (auto simp: discover_v4_def split: option.splits sum.splits)
  show "set xs = set ips \<union> found_v4 os ans sock"
  proof (cases sock)
    case None
    then show ?thesis using assms by (simp add: discover_v4_def found_v4_def)
  next
    case (Some u)
    then obtain here ls where *: "udp_local_addr os u = Inr here"
        "local_ips_v4 (show_v4 ans) (addr_port here) = Inr ls"
        "xs = hs_extend (public_v4 ans u) (hs_extend ls (hs_insert here ips))"
      using assms by (auto simp: discover_v4_def split: sum.splits)
    then show ?thesis
      using Some set_local_ips_v4 [OF *(2)] by (auto simp: found_v4_def set_public_v4)
  qed
qed

lemma discover_v6_set:
  assumes "discover_v6 os ans sock ips = Inr xs"
  shows "set xs = set ips \<union> found_v6 os ans sock" and "distinct ips \<Longrightarrow> distinct xs"
proof -
  show "distinct ips \<Longrightarrow> distinct xs"
    using assms by (auto simp: discover_v6_def Let_def split: option.splits sum.splits)
  show "set xs = set ips \<union> found_v6 os ans sock"
  proof (cases sock)
    case None
    then show ?thesis using assms by (simp add: discover_v6_def found_v6_def)
  next
    case (Some u)
    then obtain here ls where *: "udp_local_addr os u = Inr here"
        "local_ips_v6 (show_v6 ans) (addr_port here) = Inr ls"
      using assms by (auto simp: discover_v6_def split: sum.splits)
    obtain ys where ys: "public_v6 os ans u = Inr ys"
        "set ys = stun_answer ans is_ipv6 (resolved_v6 ans) u
          \<union> set_port (addr_port here) ` stun_answer ans is_ipv6 (resolved_v6 ans) u"
      using set_public_v6 [OF *(1)] by blast
    have "xs = hs_extend ys (hs_extend ls (hs_insert here ips))"
      using assms Some * ys(1) by (simp add: discover_v6_def)
    then show ?thesis
      using Some *(1) ys(2) set_local_ips_v6 [OF *(2)] by (auto simp: found_v6_def)
  qed
qed

text \<open>Why the block of one socket fails.\<close>

definition block_failure ::
    "'u udp \<Rightarrow> string + network_interface list \<Rightarrow> 'u option \<Rightarrow> setup_error option" where
  "block_failure os shown sock =
     (case sock of
        None \<Rightarrow> None
      | Some u \<Rightarrow>
          (case (udp_local_addr os u, shown) of
             (Inl e, _) \<Rightarrow> Some (FromIo e)
           | (Inr _, Inl e) \<Rightarrow> Some (FromInterface e)
           | (Inr _, Inr _) \<Rightarrow> None))"

lemma discover_blocks_fail:
  "discover_v4 os ans sock ips = Inl e \<longleftrightarrow> block_failure os (show_v4 ans) sock = Some e"
  "discover_v6 os ans sock ips = Inl e \<longleftrightarrow> block_failure os (show_v6 ans) sock = Some e"
  by (auto simp: discover_v4_def discover_v6_def block_failure_def local_ips_v4_def local_ips_v6_def
      Let_def split: option.split sum.split)

text \<open>What is found, as a set.\<close>

lemma discover_ips_set:
  assumes "discover_ips os md ans sock = Inr ips"
  shows "distinct ips
    \<and> set ips = {a \<in> found_v4 os ans (md_v4 md sock) \<union> found_v6 os ans (md_v6 md sock).
        \<not> is_unspecified (addr_ip a)}"
proof -
  obtain xs ys where xs: "discover_v4 os ans (md_v4 md sock) [] = Inr xs"
    and ys: "discover_v6 os ans (md_v6 md sock) xs = Inr ys"
    and ips: "ips = hs_retain (\<lambda>x. \<not> is_unspecified (addr_ip x)) ys"
    using assms by (auto simp: discover_ips_def split: sum.splits)
  show ?thesis
    using discover_v4_set [OF xs] discover_v6_set [OF ys] by (simp add: ips)
qed

section \<open>Properties\<close>

text \<open>C25 (functional). The addresses that a socket advertises are, without repetition, exactly those of
  the specification: of each socket present the address it is bound to, the addresses of the
  interfaces of its family with its port and the answer of the STUN server, for the IPv6 socket
  also that answer with the port replaced by the socket's own, less the unspecified addresses,
  which no peer could use.\<close>

theorem discover_ips_exact:
  assumes "discover_ips os md ans sock = Inr ips"
  shows "distinct ips
    \<and> set ips = {a \<in> found_v4 os ans (md_v4 md sock) \<union> found_v6 os ans (md_v6 md sock).
        \<not> is_unspecified (addr_ip a)}"
  using assms by (rule discover_ips_set)

text \<open>A machine with a loopback and one other interface, behind an address translator.\<close>

definition demo_interfaces :: "network_interface list" where
  "demo_interfaces =
     [\<lparr>if_name = ''lo'', if_addrs = [AddrV4 0x7F000001, AddrV6 1]\<rparr>,
      \<lparr>if_name = ''eth0'', if_addrs = [AddrV4 0x0A000002]\<rparr>]"

definition demo_answers :: "queue_socket answers" where
  "demo_answers =
     \<lparr>show_v4 = Inr demo_interfaces, show_v6 = Inr demo_interfaces,
      resolved_v4 = Inr [SocketAddrV6 8 19302 0 0, SocketAddrV4 8 19302], resolved_v6 = Inl (IoError ''dns''),
      stun = (\<lambda>server u. Inr (SocketAddrV4 0x05060708 4000))\<rparr>"

lemma demo_discovered:
  "discover_ips demo_udp versioned_dual demo_answers (SockV4 (demo_queue (SocketAddrV4 0 9) [])) =
     Inr [SocketAddrV4 0x7F000001 9, SocketAddrV4 0x0A000002 9, SocketAddrV4 0x05060708 4000]"
  by (simp add: discover_ips_def discover_v4_def discover_v6_def versioned_dual_def demo_udp_def
      demo_queue_def demo_answers_def demo_interfaces_def local_ips_v4_def public_v4_def
      hs_collect_def hs_extend_def hs_insert_def hs_retain_def map_filter_def)

theorem discover_ips_exact_witness:
  "distinct [SocketAddrV4 0x7F000001 9, SocketAddrV4 0x0A000002 9, SocketAddrV4 0x05060708 4000]
   \<and> set [SocketAddrV4 0x7F000001 9, SocketAddrV4 0x0A000002 9, SocketAddrV4 0x05060708 4000] =
      {a \<in> found_v4 demo_udp demo_answers (Some (demo_queue (SocketAddrV4 0 9) []))
         \<union> found_v6 demo_udp demo_answers None. \<not> is_unspecified (addr_ip a)}"
  using discover_ips_exact [OF demo_discovered] by (simp only: versioned_dual_def maybe_dual.simps
      versioned_v4.simps versioned_v6.simps)

text \<open>C31 (error). Discovery fails exactly when the address of a socket that is present cannot be read
  or the interfaces cannot be listed, with the error of the first such call; a name that does not
  resolve or a STUN server that does not answer never makes it fail.\<close>

theorem discover_ips_failure:
  "discover_ips os md ans sock = Inl e \<longleftrightarrow>
     (case block_failure os (show_v4 ans) (md_v4 md sock) of
        Some x \<Rightarrow> x = e
      | None \<Rightarrow> block_failure os (show_v6 ans) (md_v6 md sock) = Some e)"
proof -
  have "discover_ips os md ans sock = Inl e \<longleftrightarrow>
      discover_v4 os ans (md_v4 md sock) [] = Inl e
      \<or> (\<exists>xs. discover_v4 os ans (md_v4 md sock) [] = Inr xs
           \<and> discover_v6 os ans (md_v6 md sock) xs = Inl e)"
    by (auto simp: discover_ips_def split: sum.split)
  moreover have "(\<exists>xs. discover_v4 os ans (md_v4 md sock) [] = Inr xs) \<longleftrightarrow>
      block_failure os (show_v4 ans) (md_v4 md sock) = None"
    using discover_blocks_fail(1) [of os ans "md_v4 md sock" "[]"]
    by (metis not_None_eq sum.exhaust sum.distinct(1))
  ultimately show ?thesis
    by (auto simp: discover_blocks_fail split: option.split)
qed

end
