(* ===== verification/Reassembly.thy ===== *)
theory Reassembly
  imports Chunker
begin

text \<open>
  What the receiving half of a \<open>Chunker\<close> (\<open>src/src/transform.rs\<close>) guarantees when the chunks
  of several messages arrive in any order, some of them never: nothing panics, every message
  handed on is one that was sent, none is handed on twice, at most ten groups are kept, and a
  message all of whose chunks arrive is handed on as long as at most ten groups are about. And
  what it does not guarantee: chunks that no honest sender makes, or the same chunk again, panic.
\<close>

section \<open>Feeding chunks\<close>

text \<open>The chunks that reach \<open>add_chunk\<close>, one after the other, until one panics.\<close>

fun feed :: "bool \<Rightarrow> 'd chunker \<Rightarrow> chunked_data list \<Rightarrow> 'd chunker \<times> (unit, veq_error) res" where
  "feed oc c [] = (c, Ok ())"
| "feed oc c (x # xs) =
     (case Chunker_add_chunk oc c x of
        (c', Ok _) \<Rightarrow> feed oc c' xs
      | (c', Err e) \<Rightarrow> (c', Err e)
      | (c', Panic p) \<Rightarrow> (c', Panic p))"

text \<open>
  The sender's side: \<open>sent g\<close> is the message that was sent as group \<open>g\<close> in pieces of at most
  \<open>n\<close> bytes, \<open>chunks_of n sent g\<close> are its chunks.
\<close>

definition chunks_of :: "nat \<Rightarrow> (u64 \<Rightarrow> bytes) \<Rightarrow> u64 \<Rightarrow> chunked_data list" where
  "chunks_of n sent g = make_chunks g (slice_chunks n (sent g))"

definition genuine :: "nat \<Rightarrow> (u64 \<Rightarrow> bytes) \<Rightarrow> chunked_data \<Rightarrow> bool" where
  "genuine n sent x \<longleftrightarrow>
     0 < n \<and> in_memory (sent (cd_group x)) \<and> x \<in> set (chunks_of n sent (cd_group x))"

lemma in_memory_chunks: "0 < n \<Longrightarrow> in_memory d \<Longrightarrow> length (slice_chunks n d) < 2 ^ 63"
  using length_slice_chunks_le [of n d] by (simp add: in_memory_def)

lemma chunks_of_nth:
  assumes "i < length (chunks_of n sent g)"
  shows "chunks_of n sent g ! i =
           \<lparr>cd_group = g, cd_index = of_nat i,
            cd_group_length = of_nat (length (chunks_of n sent g)),
            cd_data = slice_chunks n (sent g) ! i\<rparr>"
  using assms by (simp add: chunks_of_def make_chunks_nth)

lemma genuineE:
  assumes "genuine n sent x"
  obtains i where "i < length (chunks_of n sent (cd_group x))"
    and "chunks_of n sent (cd_group x) ! i = x"
    and "unat (cd_index x) = i"
    and "unat (cd_group_length x) = length (chunks_of n sent (cd_group x))"
proof -
  from assms have n: "0 < n" "in_memory (sent (cd_group x))"
    and "x \<in> set (chunks_of n sent (cd_group x))"
    by (simp_all add: genuine_def)
  then obtain i where i: "i < length (chunks_of n sent (cd_group x))"
      and x: "chunks_of n sent (cd_group x) ! i = x"
    by (metis in_set_conv_nth)
  have "length (chunks_of n sent (cd_group x)) < 2 ^ 63"
    using in_memory_chunks [OF n] by (simp add: chunks_of_def)
  moreover from x have "cd_index x = of_nat i"
    and "cd_group_length x = of_nat (length (chunks_of n sent (cd_group x)))"
    using chunks_of_nth [OF i] by (metis chunked_data.select_convs)+
  ultimately show ?thesis using i x by (intro that) (simp_all add: unat_of_nat_u64)
qed

section \<open>One group\<close>

definition filled :: "chunk_group \<Rightarrow> nat set" where
  "filled grp = {i. i < length (cg_chunks grp) \<and> cg_chunks grp ! i \<noteq> None}"

definition group_inv ::
    "nat \<Rightarrow> (u64 \<Rightarrow> bytes) \<Rightarrow> chunked_data set \<Rightarrow> u64 \<Rightarrow> chunk_group \<Rightarrow> bool" where
  "group_inv n sent S g grp \<longleftrightarrow>
     length (cg_chunks grp) = length (chunks_of n sent g)
     \<and> unat (cg_group_length grp) = length (chunks_of n sent g)
     \<and> unat (cg_size grp) = card (filled grp)
     \<and> (\<forall>i \<in> filled grp. cg_chunks grp ! i = Some (chunks_of n sent g ! i)
                          \<and> chunks_of n sent g ! i \<in> S)"

lemma finite_filled [simp]: "finite (filled grp)"
  by (simp add: filled_def)

lemma filled_bound: "card (filled grp) \<le> length (cg_chunks grp)"
proof -
  have "filled grp \<subseteq> {..< length (cg_chunks grp)}" by (auto simp: filled_def)
  then show ?thesis using card_mono [of "{..< length (cg_chunks grp)}"] by fastforce
qed

lemma group_inv_mono: "group_inv n sent S g grp \<Longrightarrow> S \<subseteq> T \<Longrightarrow> group_inv n sent T g grp"
  by (auto simp: group_inv_def)

lemma group_inv_new:
  assumes "genuine n sent x"
  shows "group_inv n sent S (cd_group x) (ChunkGroup_new (cd_group_length x))"
    and "filled (ChunkGroup_new (cd_group_length x)) = {}"
proof -
  show e: "filled (ChunkGroup_new (cd_group_length x)) = {}"
    by (auto simp: filled_def ChunkGroup_new_def)
  obtain i where "unat (cd_group_length x) = length (chunks_of n sent (cd_group x))"
    using assms by (rule genuineE)
  with e show "group_inv n sent S (cd_group x) (ChunkGroup_new (cd_group_length x))"
    by (simp add: group_inv_def) (simp add: ChunkGroup_new_def)
qed

lemma group_add:
  assumes inv: "group_inv n sent S (cd_group x) grp" and gen: "genuine n sent x" and new: "x \<notin> S"
  shows "\<exists>grp'. ChunkGroup_add_chunk oc grp x = (grp', Ok ())
           \<and> group_inv n sent (insert x S) (cd_group x) grp'
           \<and> filled grp' = insert (unat (cd_index x)) (filled grp)"
proof -
  let ?L = "chunks_of n sent (cd_group x)"
  obtain i where i: "i < length ?L" "?L ! i = x" "unat (cd_index x) = i"
      and "unat (cd_group_length x) = length ?L"
    using gen by (rule genuineE)
  have len: "length (cg_chunks grp) = length ?L" and "unat (cg_size grp) = card (filled grp)"
    using inv by (simp_all add: group_inv_def)
  have free: "i \<notin> filled grp" using inv new i(2) by (metis group_inv_def)
  have "filled grp \<subseteq> {..< length ?L}" unfolding filled_def len by blast
  then have "filled grp \<subset> {..< length ?L}" using free i(1) by blast
  then have "card (filled grp) < length ?L"
    by (metis card_lessThan finite_lessThan psubset_card_mono)
  moreover have "length ?L < 2 ^ 64"
    using inv unat_u64_less [of "cg_group_length grp"] by (simp add: group_inv_def)
  ultimately have size: "unat (cg_size grp) + 1 < 2 ^ 64"
    using \<open>unat (cg_size grp) = card (filled grp)\<close> by simp
  then have not_max: "cg_size grp \<noteq> u64_max" by auto
  define grp' where
    "grp' = grp\<lparr>cg_chunks := (cg_chunks grp)[i := Some x], cg_size := cg_size grp + 1\<rparr>"
  have "ChunkGroup_add_chunk oc grp x = (grp', Ok ())"
    using i(1,3) len not_max by (simp add: ChunkGroup_add_chunk_slot grp'_def)
  moreover have fill: "filled grp' = insert i (filled grp)"
    using i(1) len by (auto simp: filled_def grp'_def nth_list_update split: if_splits)
  moreover have "group_inv n sent (insert x S) (cd_group x) grp'"
    unfolding group_inv_def
  proof (intro conjI ballI)
    show "length (cg_chunks grp') = length ?L" using len by (simp add: grp'_def)
    show "unat (cg_group_length grp') = length ?L"
      using inv by (simp add: group_inv_def grp'_def)
    show "unat (cg_size grp') = card (filled grp')"
      using not_max free \<open>unat (cg_size grp) = card (filled grp)\<close>
      by (simp add: fill) (simp add: grp'_def unat_plus_1)
  next
    fix j assume "j \<in> filled grp'"
    then have j: "j = i \<or> j \<noteq> i \<and> cg_chunks grp ! j = Some (?L ! j) \<and> ?L ! j \<in> S"
      using fill inv unfolding group_inv_def by blast
    then show "?L ! j \<in> insert x S" using i(2) by blast
    have "cg_chunks grp' ! j = (if j = i then Some x else cg_chunks grp ! j)"
      using i(1) len by (simp add: grp'_def)
    then show "cg_chunks grp' ! j = Some (?L ! j)" using i(2) j by presburger
  qed
  ultimately show ?thesis using i(3) by blast
qed

lemma collect_loop_all:
  assumes "\<forall>i < length cs. cs ! i = Some (f i)"
  shows "collect_loop cs out = Ok (out @ concat (map (\<lambda>i. cd_data (f i)) [0 ..< length cs]))"
  using assms
proof (induction cs arbitrary: out f)
  case (Cons c cs)
  from Cons.prems have "c = Some (f 0)" and "\<forall>i < length cs. cs ! i = Some (f (Suc i))"
    by auto
  with Cons.IH [of "\<lambda>i. f (Suc i)"] show ?case
    by (simp add: unwrap_option_def map_upt_Suc del: upt_Suc)
qed simp

lemma group_complete:
  assumes inv: "group_inv n sent S g grp" and "0 < n" and "in_memory (sent g)"
    and "ChunkGroup_is_complete grp"
  shows "ChunkGroup_collect grp = Ok (sent g)" and "set (chunks_of n sent g) \<subseteq> S"
proof -
  let ?L = "chunks_of n sent g"
  have len: "length (cg_chunks grp) = length ?L" and "card (filled grp) = length ?L"
    using assms(1,4) by (auto simp: group_inv_def ChunkGroup_is_complete_def)
  moreover have "filled grp \<subseteq> {..< length ?L}" using len by (auto simp: filled_def)
  ultimately have fill: "filled grp = {..< length ?L}"
    by (metis card_lessThan card_subset_eq finite_lessThan)
  then have all: "\<forall>i < length (cg_chunks grp). cg_chunks grp ! i = Some (?L ! i)"
    using inv len by (auto simp: group_inv_def)
  have "map (\<lambda>i. cd_data (?L ! i)) [0 ..< length ?L] = slice_chunks n (sent g)"
  proof (rule nth_equalityI)
    fix i assume "i < length (map (\<lambda>i. cd_data (?L ! i)) [0 ..< length ?L])"
    then show "map (\<lambda>i. cd_data (?L ! i)) [0 ..< length ?L] ! i = slice_chunks n (sent g) ! i"
      by (simp add: chunks_of_nth)
  qed (simp add: chunks_of_def)
  then show "ChunkGroup_collect grp = Ok (sent g)"
    using collect_loop_all [OF all, of "[]"] len concat_slice_chunks [OF assms(2)]
    by (simp add: ChunkGroup_collect_def)
  show "set ?L \<subseteq> S"
    using inv fill by (auto simp: group_inv_def in_set_conv_nth)
qed

section \<open>The chunker\<close>

lemma evict_frame [frame_simps]:
  "delegate (evict_old_group c) = delegate c"
  "chunk_size (evict_old_group c) = chunk_size c"
  "current_group (evict_old_group c) = current_group c"
  "completed_chunks (evict_old_group c) = completed_chunks c"
  by (simp_all add: evict_old_group_def)

lemma evict_invar:
  "btm_invar (chunk_groups c) \<Longrightarrow> btm_invar (chunk_groups (evict_old_group c))"
  by (simp add: evict_old_group_def btm.invar_pop)

lemma evict_get:
  assumes "btm_invar (chunk_groups c)"
    and "btm_get (chunk_groups (evict_old_group c)) g = Some v"
  shows "btm_get (chunk_groups c) g = Some v"
proof (cases "fst (btm_pop_first (chunk_groups c))")
  case None
  from btm.pop_None [OF assms(1) None]
  have "snd (btm_pop_first (chunk_groups c)) = chunk_groups c" by (rule conjunct2)
  then have "evict_old_group c = c" by (simp add: evict_old_group_def)
  with assms(2) show ?thesis by (simp only:)
next
  case (Some e)
  then obtain k w where kw: "fst (btm_pop_first (chunk_groups c)) = Some (k, w)" by (cases e) simp
  have "btm_get (snd (btm_pop_first (chunk_groups c))) = (btm_get (chunk_groups c))(k := None)"
    using btm.pop_Some [OF assms(1) kw] by (elim conjE)
  with assms(2) show ?thesis by (auto simp: evict_old_group_def split: if_splits)
qed

lemma evict_few: "length (chunk_groups c) \<le> 10 \<Longrightarrow> evict_old_group c = c"
  by (simp add: evict_old_group_def)

lemma evict_bound: "length (chunk_groups c) \<le> 11 \<Longrightarrow> length (chunk_groups (evict_old_group c)) \<le> 10"
  by (auto simp: evict_old_group_def btm_pop_first_def split: list.splits)

text \<open>
  \<open>S\<close> are the chunks that have arrived, \<open>gs\<close> the groups that are complete, in the order in
  which they were completed.
\<close>

definition reassembling ::
    "nat \<Rightarrow> (u64 \<Rightarrow> bytes) \<Rightarrow> chunked_data set \<Rightarrow> u64 list \<Rightarrow> 'd chunker \<Rightarrow> bool" where
  "reassembling n sent S gs c \<longleftrightarrow>
     btm_invar (chunk_groups c)
     \<and> (\<forall>g grp. btm_get (chunk_groups c) g = Some grp \<longrightarrow>
          group_inv n sent S g grp \<and> \<not> ChunkGroup_is_complete grp)
     \<and> completed_chunks c = map sent gs \<and> distinct gs
     \<and> (\<forall>g \<in> set gs. chunks_of n sent g \<noteq> [] \<and> set (chunks_of n sent g) \<subseteq> S)"

lemma reassembling_evict:
  assumes "reassembling n sent S gs c"
  shows "reassembling n sent S gs (evict_old_group c)"
proof -
  have srt: "btm_invar (chunk_groups c)" using assms by (simp add: reassembling_def)
  show ?thesis
    using assms evict_invar [OF srt] evict_get [OF srt]
    unfolding reassembling_def frame_simps by blast
qed

text \<open>The state after a chunk has gone to its group, before the eviction.\<close>

definition after_chunk :: "(u64 \<Rightarrow> bytes) \<Rightarrow> 'd chunker \<Rightarrow> u64 \<Rightarrow> chunk_group \<Rightarrow> 'd chunker" where
  "after_chunk sent c g grp' =
     (if ChunkGroup_is_complete grp'
      then c\<lparr>chunk_groups := btm_remove g (btm_insert g grp' (chunk_groups c)),
             completed_chunks := completed_chunks c @ [sent g]\<rparr>
      else c\<lparr>chunk_groups := btm_insert g grp' (chunk_groups c)\<rparr>)"

lemma reassembling_group_for:
  assumes "reassembling n sent S gs c" and "genuine n sent x"
  shows "group_inv n sent S (cd_group x) (group_for c x)"
  using assms group_inv_new(1) by (auto simp: reassembling_def group_for_def split: option.split)

lemma add_chunk_genuine:
  assumes inv: "reassembling n sent S gs c" and gen: "genuine n sent x" and new: "x \<notin> S"
  obtains grp' where "Chunker_add_chunk oc c x =
      (evict_old_group (after_chunk sent c (cd_group x) grp'), Ok ())"
    and "group_inv n sent (insert x S) (cd_group x) grp'"
    and "filled grp' = insert (unat (cd_index x)) (filled (group_for c x))"
proof -
  obtain grp' where add: "ChunkGroup_add_chunk oc (group_for c x) x = (grp', Ok ())"
      and inv': "group_inv n sent (insert x S) (cd_group x) grp'"
      and fill: "filled grp' = insert (unat (cd_index x)) (filled (group_for c x))"
    using group_add [OF reassembling_group_for [OF inv gen] gen new] by blast
  have "ChunkGroup_collect grp' = Ok (sent (cd_group x))" if "ChunkGroup_is_complete grp'"
    using group_complete(1) [OF inv'] gen that by (simp add: genuine_def)
  then have "Chunker_add_chunk oc c x =
      (evict_old_group (after_chunk sent c (cd_group x) grp'), Ok ())"
    using add_chunk_incomplete [OF add] add_chunk_collected [OF add] by (simp add: after_chunk_def)
  then show ?thesis using inv' fill by (rule that)
qed

lemma after_chunk_get:
  assumes "btm_invar (chunk_groups c)"
  shows "btm_get (chunk_groups (after_chunk sent c g grp')) =
           (btm_get (chunk_groups c))(g := if ChunkGroup_is_complete grp' then None else Some grp')"
  using assms by (simp add: after_chunk_def btm.get_rem btm.get_ins btm.invar_ins)

lemma after_chunk_invar:
  "btm_invar (chunk_groups c) \<Longrightarrow> btm_invar (chunk_groups (after_chunk sent c g grp'))"
  by (simp add: after_chunk_def btm.invar_rem btm.invar_ins)

lemma reassembling_step:
  assumes inv: "reassembling n sent S gs c" and gen: "genuine n sent x" and new: "x \<notin> S"
  obtains grp' where "Chunker_add_chunk oc c x =
      (evict_old_group (after_chunk sent c (cd_group x) grp'), Ok ())"
    and "reassembling n sent (insert x S)
           (if ChunkGroup_is_complete grp' then gs @ [cd_group x] else gs)
           (evict_old_group (after_chunk sent c (cd_group x) grp'))"
    and "filled grp' = insert (unat (cd_index x)) (filled (group_for c x))"
proof -
  obtain grp' where eq: "Chunker_add_chunk oc c x =
      (evict_old_group (after_chunk sent c (cd_group x) grp'), Ok ())"
    and grp': "group_inv n sent (insert x S) (cd_group x) grp'"
    and fill: "filled grp' = insert (unat (cd_index x)) (filled (group_for c x))"
    using inv gen new by (rule add_chunk_genuine)
  let ?c1 = "after_chunk sent c (cd_group x) grp'"
  let ?gs = "if ChunkGroup_is_complete grp' then gs @ [cd_group x] else gs"
  have srt: "btm_invar (chunk_groups c)" using inv by (simp add: reassembling_def)
  have "cd_group x \<notin> set gs"
    using inv gen new by (auto simp: reassembling_def genuine_def)
  moreover have "chunks_of n sent (cd_group x) \<noteq> []" using gen by (auto simp: genuine_def)
  moreover have "set (chunks_of n sent (cd_group x)) \<subseteq> insert x S" if "ChunkGroup_is_complete grp'"
    using group_complete(2) [OF grp'] gen that by (simp add: genuine_def)
  moreover have "group_inv n sent (insert x S) g grp \<and> \<not> ChunkGroup_is_complete grp"
    if "btm_get (chunk_groups ?c1) g = Some grp" for g grp
    using that inv grp' group_inv_mono [of n sent S g grp "insert x S"]
    by (auto simp: after_chunk_get [OF srt] reassembling_def split: if_splits)
  moreover have "completed_chunks ?c1 = map sent ?gs"
    using inv by (simp add: reassembling_def after_chunk_def)
  moreover have "btm_invar (chunk_groups ?c1)" using srt by (rule after_chunk_invar)
  ultimately have "reassembling n sent (insert x S) ?gs ?c1"
    using inv unfolding reassembling_def by auto
  then show ?thesis using eq fill by (intro that) (auto intro: reassembling_evict)
qed

lemma reassembling_new: "reassembling n sent {} [] (Chunker_new d sz)"
  by (simp add: reassembling_def Chunker_new_def btm_get_def)

lemma reassembling_feed:
  assumes "reassembling n sent S gs c" and "\<forall>x \<in> set xs. genuine n sent x"
    and "distinct xs" and "S \<inter> set xs = {}"
  shows "\<exists>c' gs'. feed oc c xs = (c', Ok ()) \<and> reassembling n sent (S \<union> set xs) gs' c'"
  using assms
proof (induction xs arbitrary: S gs c)
  case (Cons x xs)
  obtain c1 gs1 where "Chunker_add_chunk oc c x = (c1, Ok ())"
      and "reassembling n sent (insert x S) gs1 c1"
    using Cons.prems by (auto elim: reassembling_step [where oc = oc])
  with Cons.IH [of "insert x S" gs1 c1] Cons.prems show ?case by auto
qed auto

section \<open>With few groups nothing is evicted\<close>

definition tracking ::
    "nat \<Rightarrow> (u64 \<Rightarrow> bytes) \<Rightarrow> u64 set \<Rightarrow> chunked_data set \<Rightarrow> u64 list \<Rightarrow> 'd chunker \<Rightarrow> bool" where
  "tracking n sent G S gs c \<longleftrightarrow>
     dom (btm_get (chunk_groups c)) \<subseteq> G
     \<and> (\<forall>g i. g \<notin> set gs \<longrightarrow> i < length (chunks_of n sent g) \<longrightarrow> chunks_of n sent g ! i \<in> S \<longrightarrow>
          (\<exists>grp. btm_get (chunk_groups c) g = Some grp \<and> i \<in> filled grp))"

lemma few_groups:
  assumes "btm_invar (chunk_groups c)" and "dom (btm_get (chunk_groups c)) \<subseteq> G"
    and "finite G" and "card G \<le> 10"
  shows "length (chunk_groups c) \<le> 10"
  using btm.len_card [OF assms(1)] card_mono [OF assms(3,2)] assms(4) by simp

lemma trackingE:
  assumes "tracking n sent G S gs c" and "g \<notin> set gs" and "i < length (chunks_of n sent g)"
    and "chunks_of n sent g ! i \<in> S"
  obtains grp where "btm_get (chunk_groups c) g = Some grp" and "i \<in> filled grp"
  using assms unfolding tracking_def by blast

lemma tracked_slot:
  assumes trk: "tracking n sent G S gs c" and gen: "genuine n sent x"
    and g: "g \<notin> set gs" and i: "i < length (chunks_of n sent g)"
    and mem: "chunks_of n sent g ! i \<in> insert x S"
  shows "if g = cd_group x then i \<in> insert (unat (cd_index x)) (filled (group_for c x))
         else \<exists>grp. btm_get (chunk_groups c) g = Some grp \<and> i \<in> filled grp"
proof (cases "chunks_of n sent g ! i = x")
  case True
  then have x: "cd_group x = g" "cd_index x = of_nat i"
    using chunks_of_nth [OF i] by auto
  obtain k where "unat (cd_group_length x) = length (chunks_of n sent (cd_group x))"
    using gen by (rule genuineE)
  then have "i < 2 ^ 64" using i x unat_u64_less [of "cd_group_length x"] by simp
  then show ?thesis using x by (simp add: unat_of_nat_u64)
next
  case False
  with mem have "chunks_of n sent g ! i \<in> S" by simp
  with trk g i obtain grp where "btm_get (chunk_groups c) g = Some grp" and "i \<in> filled grp"
    by (rule trackingE)
  then show ?thesis by (auto simp: group_for_def)
qed

lemma tracking_step:
  assumes inv: "reassembling n sent S gs c" and trk: "tracking n sent G S gs c"
    and gen: "genuine n sent x" and new: "x \<notin> S"
    and G: "finite G" "card G \<le> 10" "cd_group x \<in> G"
  shows "\<exists>c' gs'. Chunker_add_chunk oc c x = (c', Ok ())
           \<and> reassembling n sent (insert x S) gs' c' \<and> tracking n sent G (insert x S) gs' c'"
proof -
  obtain grp' where eq: "Chunker_add_chunk oc c x =
      (evict_old_group (after_chunk sent c (cd_group x) grp'), Ok ())"
    and inv': "reassembling n sent (insert x S)
           (if ChunkGroup_is_complete grp' then gs @ [cd_group x] else gs)
           (evict_old_group (after_chunk sent c (cd_group x) grp'))"
    and fill: "filled grp' = insert (unat (cd_index x)) (filled (group_for c x))"
    using inv gen new by (rule reassembling_step)
  let ?c1 = "after_chunk sent c (cd_group x) grp'"
  let ?gs = "if ChunkGroup_is_complete grp' then gs @ [cd_group x] else gs"
  have srt: "btm_invar (chunk_groups c)" using inv by (simp add: reassembling_def)
  note get = after_chunk_get [OF srt, of sent "cd_group x" grp']
  have dom: "dom (btm_get (chunk_groups ?c1)) \<subseteq> G"
    using trk G(3) by (auto simp: tracking_def get split: if_splits)
  then have same: "evict_old_group ?c1 = ?c1"
    using few_groups [OF after_chunk_invar [OF srt] _ G(1,2)] by (blast intro: evict_few)
  have "\<exists>grp. btm_get (chunk_groups ?c1) g = Some grp \<and> i \<in> filled grp"
    if g: "g \<notin> set ?gs" and i: "i < length (chunks_of n sent g)"
      and mem: "chunks_of n sent g ! i \<in> insert x S" for g i
  proof -
    have "g \<notin> set gs" and "g = cd_group x \<Longrightarrow> \<not> ChunkGroup_is_complete grp'"
      using g by (auto split: if_splits)
    then show ?thesis
      using tracked_slot [OF trk gen _ i mem] by (auto simp: get fill split: if_splits)
  qed
  then have "tracking n sent G (insert x S) ?gs ?c1"
    using dom by (simp add: tracking_def)
  with eq inv' same show ?thesis by auto
qed

lemma tracking_feed:
  assumes "reassembling n sent S gs c" and "tracking n sent G S gs c"
    and "\<forall>x \<in> set xs. genuine n sent x" and "distinct xs" and "S \<inter> set xs = {}"
    and "finite G" and "card G \<le> 10" and "cd_group ` set xs \<subseteq> G"
  shows "\<exists>c' gs'. feed oc c xs = (c', Ok ()) \<and> reassembling n sent (S \<union> set xs) gs' c'
           \<and> tracking n sent G (S \<union> set xs) gs' c'"
  using assms
proof (induction xs arbitrary: S gs c)
  case (Cons x xs)
  obtain c1 gs1 where "Chunker_add_chunk oc c x = (c1, Ok ())"
      and "reassembling n sent (insert x S) gs1 c1" and "tracking n sent G (insert x S) gs1 c1"
    using tracking_step [OF Cons.prems(1,2), of x oc] Cons.prems(3-) by auto
  with Cons.IH [of "insert x S" gs1 c1] Cons.prems show ?case by auto
qed auto

lemma tracking_complete:
  assumes inv: "reassembling n sent S gs c" and trk: "tracking n sent G S gs c"
    and all: "set (chunks_of n sent g) \<subseteq> S" and ne: "chunks_of n sent g \<noteq> []"
  shows "g \<in> set gs"
proof (rule ccontr)
  let ?L = "chunks_of n sent g"
  assume g: "g \<notin> set gs"
  have here: "\<exists>grp. btm_get (chunk_groups c) g = Some grp \<and> i \<in> filled grp" if "i < length ?L" for i
    using trackingE [OF trk g that] all that by (metis nth_mem subsetD)
  obtain grp where grp: "btm_get (chunk_groups c) g = Some grp"
    using here [of 0] ne by auto
  then have gi: "group_inv n sent S g grp" and nc: "\<not> ChunkGroup_is_complete grp"
    using inv by (auto simp: reassembling_def)
  have "filled grp = {..< length ?L}"
    using here grp gi by (auto simp: group_inv_def filled_def)
  then have "unat (cg_size grp) = unat (cg_group_length grp)"
    using gi by (simp add: group_inv_def)
  then show False using nc by (simp add: ChunkGroup_is_complete_def word_unat_eq_iff)
qed

section \<open>Chunks nobody should send\<close>

lemma genuine_chunks:
  assumes "0 < n" and "in_memory (sent g)" and "x \<in> set (chunks_of n sent g)"
  shows "genuine n sent x"
proof -
  obtain i where "i < length (chunks_of n sent g)" and "chunks_of n sent g ! i = x"
    using assms(3) by (metis in_set_conv_nth)
  then have "cd_group x = g" using chunks_of_nth [of i n sent g] by auto
  with assms show ?thesis by (simp add: genuine_def)
qed

lemma distinct_chunks_of:
  assumes "0 < n" and "in_memory (sent g)"
  shows "distinct (chunks_of n sent g)"
proof -
  have "inj_on (of_nat :: nat \<Rightarrow> u64) {0 ..< length (slice_chunks n (sent g))}"
  proof (rule inj_onI)
    fix i j assume "i \<in> {0 ..< length (slice_chunks n (sent g))}"
      and "j \<in> {0 ..< length (slice_chunks n (sent g))}" and "(of_nat i :: u64) = of_nat j"
    moreover from this in_memory_chunks [OF assms] have "i < 2 ^ 64" and "j < 2 ^ 64" by auto
    ultimately show "i = j" using unat_of_nat_u64 by metis
  qed
  then show ?thesis
    by (auto simp: chunks_of_def make_chunks_nth distinct_map inj_on_def)
qed

lemma add_chunk_out_of_range:
  assumes "length (cg_chunks (group_for c x)) \<le> unat (cd_index x)"
  shows "snd (Chunker_add_chunk oc c x) = Panic IndexOutOfBounds"
  using assms
  by (simp add: Chunker_add_chunk_def ChunkGroup_add_chunk_def rust_std Let_def)

text \<open>The group after \<open>k\<close> copies of one chunk.\<close>

definition copies :: "chunked_data \<Rightarrow> nat \<Rightarrow> chunk_group" where
  "copies x k =
     \<lparr>cg_chunks = (replicate (unat (cd_group_length x)) None)
                    [unat (cd_index x) := if k = 0 then None else Some x],
      cg_size = of_nat k, cg_group_length = cd_group_length x\<rparr>"

lemma copies_0: "copies x 0 = ChunkGroup_new (cd_group_length x)"
proof -
  have "(replicate n None)[i := None] = replicate n None" for n i
    by (metis list_update_beyond list_update_id nth_replicate not_less length_replicate)
  then show ?thesis by (simp add: copies_def ChunkGroup_new_def)
qed

lemma copies_add:
  assumes "unat (cd_index x) < unat (cd_group_length x)" and "k < unat (cd_group_length x)"
  shows "ChunkGroup_add_chunk oc (copies x k) x = (copies x (Suc k), Ok ())"
proof -
  have "k < 2 ^ 64 - 1" using assms(2) unat_u64_less [of "cd_group_length x"] by simp
  then have "of_nat k \<noteq> u64_max" using unat_of_nat_u64 [of k] by auto
  with assms(1) show ?thesis by (simp add: ChunkGroup_add_chunk_slot copies_def)
qed

lemma collect_loop_None: "None \<in> set cs \<Longrightarrow> \<exists>p. collect_loop cs out = Panic UnwrapNone"
proof (induction cs arbitrary: out)
  case (Cons c cs)
  then show ?case by (cases c) (auto simp: unwrap_option_def)
qed simp

lemma collect_loop_panic: "collect_loop cs out = Panic p \<Longrightarrow> p = UnwrapNone"
  by (induction cs arbitrary: out) (auto simp: unwrap_option_def split: option.splits)

lemma copies_collect:
  assumes "unat (cd_index x) < unat (cd_group_length x)" and "2 \<le> unat (cd_group_length x)"
  shows "ChunkGroup_collect (copies x k) = Panic UnwrapNone"
proof -
  let ?cs = "cg_chunks (copies x k)"
  define j :: nat where "j = (if unat (cd_index x) = 0 then 1 else 0)"
  have "j < length ?cs" and "?cs ! j = None"
    using assms by (auto simp: copies_def j_def)
  then have "None \<in> set ?cs" by (metis nth_mem)
  then show ?thesis using collect_loop_None by (auto simp: ChunkGroup_collect_def)
qed

lemma feed_append: "feed oc c xs = (c', Ok ()) \<Longrightarrow> feed oc c (xs @ ys) = feed oc c' ys"
  by (induction xs arbitrary: c) (auto split: prod.splits res.splits)

lemma feed_copies:
  assumes c: "btm_invar (chunk_groups c)" "btm_get (chunk_groups c) (cd_group x) = None"
      "length (chunk_groups c) \<le> 9"
    and i: "unat (cd_index x) < unat (cd_group_length x)"
    and "0 < k" "k < unat (cd_group_length x)"
  shows "feed oc c (replicate k x) =
           (c\<lparr>chunk_groups := btm_insert (cd_group x) (copies x k) (chunk_groups c)\<rparr>, Ok ())"
  using assms(5,6)
proof (induction k)
  case (Suc k)
  let ?c = "\<lambda>k. c\<lparr>chunk_groups := btm_insert (cd_group x) (copies x k) (chunk_groups c)\<rparr>"
  define c1 where "c1 = (if k = 0 then c else ?c k)"
  have fed: "feed oc c (replicate k x) = (c1, Ok ())" using Suc by (auto simp: c1_def)
  have grp: "group_for c1 x = copies x k"
    using c by (auto simp: c1_def group_for_def btm.get_ins copies_0)
  have "unat (of_nat (Suc k) :: u64) = Suc k"
    using Suc.prems unat_u64_less [of "cd_group_length x"] by (intro unat_of_nat_u64) simp
  then have "\<not> ChunkGroup_is_complete (copies x (Suc k))"
    using Suc.prems by (auto simp: ChunkGroup_is_complete_def copies_def)
  moreover have "evict_old_group (?c (Suc k)) = ?c (Suc k)"
    using c by (intro evict_few) (simp add: btm.len_ins)
  moreover have "c1\<lparr>chunk_groups := btm_insert (cd_group x) (copies x (Suc k)) (chunk_groups c1)\<rparr>
      = ?c (Suc k)"
    by (simp add: c1_def)
  moreover have "ChunkGroup_add_chunk oc (group_for c1 x) x = (copies x (Suc k), Ok ())"
    using copies_add [OF i] Suc.prems by (simp add: grp)
  ultimately have "Chunker_add_chunk oc c1 x = (?c (Suc k), Ok ())"
    using add_chunk_incomplete [of oc c1 x "copies x (Suc k)"] by simp
  with feed_append [OF fed, of "[x]"] show ?case by (simp add: replicate_append_same)
qed simp

section \<open>At most ten groups\<close>

lemma add_chunk_bounded:
  assumes "btm_invar (chunk_groups c)" and "length (chunk_groups c) \<le> 10"
    and "Chunker_add_chunk oc c x = (c', Ok ())"
  shows "btm_invar (chunk_groups c') \<and> length (chunk_groups c') \<le> 10"
proof -
  have ins: "btm_invar (btm_insert (cd_group x) grp' (chunk_groups c))"
      "length (btm_insert (cd_group x) grp' (chunk_groups c)) \<le> 11" for grp'
    using assms(1,2) by (simp_all add: btm.invar_ins btm.len_ins)
  have rem:
      "btm_invar (btm_remove (cd_group x) (btm_insert (cd_group x) grp' (chunk_groups c)))"
      "length (btm_remove (cd_group x) (btm_insert (cd_group x) grp' (chunk_groups c))) \<le> 11" for grp'
    by (rule btm.invar_rem [OF ins(1)], rule le_trans [OF length_btm_remove_le ins(2)])
  show ?thesis
    using assms(3) by (rule add_chunk_OkE) (simp_all add: evict_invar evict_bound ins rem)
qed

lemma feed_bounded:
  assumes "btm_invar (chunk_groups c)" and "length (chunk_groups c) \<le> 10"
    and "feed oc c xs = (c', Ok ())"
  shows "length (chunk_groups c') \<le> 10"
  using assms
proof (induction xs arbitrary: c)
  case (Cons x xs)
  from Cons.prems(3) obtain c1 where "Chunker_add_chunk oc c x = (c1, Ok ())"
      and "feed oc c1 xs = (c', Ok ())"
    by (auto split: prod.splits res.splits)
  with add_chunk_bounded [OF Cons.prems(1,2)] Cons.IH show ?case by blast
qed simp

section \<open>The properties\<close>

text \<open>Two messages for the concrete instances.\<close>

definition example_sent :: "u64 \<Rightarrow> bytes" where
  "example_sent g = (if g = 0 then [1, 2, 3, 4, 5, 6, 7, 8] else [9, 10, 11, 12])"

lemma example_in_memory: "in_memory (example_sent g)"
  by (simp add: in_memory_def example_sent_def)

lemma example_genuine: "x \<in> set (chunks_of 3 example_sent g) \<Longrightarrow> genuine 3 example_sent x"
  by (rule genuine_chunks) (simp_all add: example_in_memory)

text \<open>
  C6 (safety). Let chunks of any number of messages reach a fresh chunker, in any order and with
  any of them missing, but none twice. Then no call panics, and what the chunker hands on is a
  list of messages that were sent, each at most once and only if all of its chunks arrived.
\<close>

theorem reassembly_sound:
  assumes "distinct xs" and "\<forall>x \<in> set xs. genuine n sent x"
  shows "\<exists>c gs. feed oc (Chunker_new d sz) xs = (c, Ok ())
           \<and> completed_chunks c = map sent gs \<and> distinct gs
           \<and> (\<forall>g \<in> set gs. set (chunks_of n sent g) \<subseteq> set xs)"
  using reassembling_feed [OF reassembling_new [of n sent d sz] assms(2,1), of oc]
  by (fastforce simp: reassembling_def)

text \<open>The chunks of one message and of another one that lost its first.\<close>

theorem reassembly_sound_witness:
  "\<exists>c gs. feed True (Chunker_new () 3) (chunks_of 3 example_sent 1 @ drop 1 (chunks_of 3 example_sent 0))
            = (c, Ok ())
     \<and> completed_chunks c = map example_sent gs \<and> distinct gs \<and> 0 \<notin> set gs"
proof -
  let ?xs = "chunks_of 3 example_sent 1 @ drop 1 (chunks_of 3 example_sent 0)"
  have "distinct ?xs"
    by (simp add: chunks_of_def example_sent_def make_chunks_def slice_chunks.simps)
  moreover have "\<forall>x \<in> set ?xs. genuine 3 example_sent x"
    using example_genuine by (auto dest: in_set_dropD)
  ultimately obtain c gs where "feed True (Chunker_new () 3) ?xs = (c, Ok ())"
      and "completed_chunks c = map example_sent gs" and "distinct gs"
      and "\<forall>g \<in> set gs. set (chunks_of 3 example_sent g) \<subseteq> set ?xs"
    using reassembly_sound [of ?xs 3 example_sent True "()" 3] by blast
  moreover have "\<not> set (chunks_of 3 example_sent 0) \<subseteq> set ?xs"
    by (simp add: chunks_of_def example_sent_def make_chunks_def slice_chunks.simps)
  ultimately show ?thesis by blast
qed

text \<open>
  C15 (functional). If moreover the chunks belong to at most ten groups, then the messages handed
  on are exactly those all of whose chunks arrived, in whatever order they did.
\<close>

theorem reassembly_complete:
  assumes "distinct xs" and "\<forall>x \<in> set xs. genuine n sent x" and "card (cd_group ` set xs) \<le> 10"
  shows "\<exists>c gs. feed oc (Chunker_new d sz) xs = (c, Ok ())
           \<and> completed_chunks c = map sent gs \<and> distinct gs
           \<and> set gs = {g \<in> cd_group ` set xs. set (chunks_of n sent g) \<subseteq> set xs}"
proof -
  let ?G = "cd_group ` set xs"
  have "tracking n sent ?G {} [] (Chunker_new d sz)"
    by (simp add: tracking_def Chunker_new_def btm_get_def)
  then obtain c gs where c: "feed oc (Chunker_new d sz) xs = (c, Ok ())"
      and inv: "reassembling n sent (set xs) gs c" and trk: "tracking n sent ?G (set xs) gs c"
    using tracking_feed [OF reassembling_new [of n sent d sz] _ assms(2,1), of ?G oc] assms(3)
    by auto
  have "g \<in> ?G \<and> set (chunks_of n sent g) \<subseteq> set xs" if "g \<in> set gs" for g
  proof -
    have ne: "chunks_of n sent g \<noteq> []" and sub: "set (chunks_of n sent g) \<subseteq> set xs"
      using inv that by (auto simp: reassembling_def)
    then have "chunks_of n sent g ! 0 \<in> set xs" by (simp add: nth_mem subsetD)
    moreover have "cd_group (chunks_of n sent g ! 0) = g" using ne by (simp add: chunks_of_nth)
    ultimately show ?thesis using sub by (metis imageI)
  qed
  moreover have "g \<in> set gs" if "g \<in> ?G" "set (chunks_of n sent g) \<subseteq> set xs" for g
  proof -
    have "chunks_of n sent g \<noteq> []" using that(1) assms(2) by (force simp: genuine_def)
    with inv trk that(2) show ?thesis by (rule tracking_complete)
  qed
  ultimately have "set gs = {g \<in> ?G. set (chunks_of n sent g) \<subseteq> set xs}" by blast
  then show ?thesis using c inv unfolding reassembling_def by blast
qed

text \<open>All chunks of one message, last first.\<close>

theorem reassembly_complete_witness:
  "\<exists>c. feed True (Chunker_new () 3) (rev (chunks_of 3 example_sent 0)) = (c, Ok ())
     \<and> completed_chunks c = [[1, 2, 3, 4, 5, 6, 7, 8]]"
proof -
  let ?xs = "rev (chunks_of 3 example_sent 0)"
  have "distinct ?xs" using distinct_chunks_of [OF _ example_in_memory] by simp
  moreover have "\<forall>x \<in> set ?xs. genuine 3 example_sent x" using example_genuine by auto
  moreover have G: "cd_group ` set ?xs = {0}"
    by (simp add: chunks_of_def example_sent_def make_chunks_def slice_chunks.simps)
  ultimately obtain c gs where c: "feed True (Chunker_new () 3) ?xs = (c, Ok ())"
      and "completed_chunks c = map example_sent gs" "distinct gs"
      and "set gs = {g \<in> cd_group ` set ?xs. set (chunks_of 3 example_sent g) \<subseteq> set ?xs}"
    using reassembly_complete [of ?xs 3 example_sent True "()" 3] by auto
  moreover from this G have "set gs = {0}" by auto
  ultimately have "gs = [0]" by (cases gs rule: list.exhaust) (auto, metis
      distinct.simps(2) list.set_intros(1) neq_Nil_conv singletonD subset_singletonD
      insert_not_empty set_empty subsetD)
  with c \<open>completed_chunks c = map example_sent gs\<close> show ?thesis
    by (simp add: example_sent_def)
qed

text \<open>
  C30 (bounds). Whatever chunks arrive, genuine or not, a chunker that has not panicked keeps at
  most ten incomplete groups.
\<close>

theorem groups_bounded:
  assumes "feed oc (Chunker_new d sz) xs = (c, Ok ())"
  shows "length (chunk_groups c) \<le> 10"
  using feed_bounded [OF _ _ assms] by (simp add: Chunker_new_def)

theorem groups_bounded_witness:
  "\<exists>c. feed True (Chunker_new () 3) (chunks_of 3 example_sent 1 @ chunks_of 3 example_sent 0)
         = (c, Ok ()) \<and> length (chunk_groups c) \<le> 10"
proof -
  let ?xs = "chunks_of 3 example_sent 1 @ chunks_of 3 example_sent 0"
  have "distinct ?xs"
    by (simp add: chunks_of_def example_sent_def make_chunks_def slice_chunks.simps)
  moreover have "\<forall>x \<in> set ?xs. genuine 3 example_sent x" using example_genuine by auto
  ultimately obtain c where c: "feed True (Chunker_new () 3) ?xs = (c, Ok ())"
    using reassembling_feed [OF reassembling_new [of 3 example_sent "()" 3], of ?xs True] by auto
  with groups_bounded [OF c] show ?thesis by simp
qed

text \<open>
  A chunk panics the receiver with an index out of bounds exactly when its index does
  not lie within the group it is filed under, which it names the length of if it is the first:
  nothing checks the index before \<open>Vec::remove\<close>.
\<close>

theorem add_chunk_index_panic:
  "snd (Chunker_add_chunk oc c x) = Panic IndexOutOfBounds
     \<longleftrightarrow> length (cg_chunks (group_for c x)) \<le> unat (cd_index x)"
proof (cases "length (cg_chunks (group_for c x)) \<le> unat (cd_index x)")
  case True
  then show ?thesis by (simp add: add_chunk_out_of_range)
next
  case False
  then obtain grp' r where "ChunkGroup_add_chunk oc (group_for c x) x = (grp', r)"
      and "r = Ok () \<or> r = Panic ArithmeticOverflow"
    by (cases "oc \<and> cg_size (group_for c x) = u64_max")
      (auto simp: ChunkGroup_add_chunk_slot Let_def)
  moreover have "ChunkGroup_collect grp' \<noteq> Panic IndexOutOfBounds"
    using collect_loop_panic by (force simp: ChunkGroup_collect_def)
  ultimately have "snd (Chunker_add_chunk oc c x) \<noteq> Panic IndexOutOfBounds"
    by (auto simp: Chunker_add_chunk_def Let_def split: res.splits)
  with False show ?thesis by simp
qed

text \<open>
  C40 (error). The size of a group counts arrivals, not slots: a group of at least two chunks to
  which one and the same chunk is added as often as the group is long counts as complete with
  slots that are still empty, and collecting it panics.
\<close>

theorem duplicate_chunk_panics:
  assumes "btm_invar (chunk_groups c)" and "btm_get (chunk_groups c) (cd_group x) = None"
    and "length (chunk_groups c) \<le> 9"
    and "unat (cd_index x) < unat (cd_group_length x)" and "2 \<le> unat (cd_group_length x)"
  shows "snd (feed oc c (replicate (unat (cd_group_length x)) x)) = Panic UnwrapNone"
proof -
  obtain k where k: "unat (cd_group_length x) = Suc k" "0 < k"
    using assms(5) by (cases "unat (cd_group_length x)") auto
  let ?c = "c\<lparr>chunk_groups := btm_insert (cd_group x) (copies x k) (chunk_groups c)\<rparr>"
  have fed: "feed oc c (replicate k x) = (?c, Ok ())"
    using feed_copies [OF assms(1-4), of k] k by simp
  have "group_for ?c x = copies x k" using assms(1) by (simp add: group_for_def btm.get_ins)
  then have "ChunkGroup_add_chunk oc (group_for ?c x) x = (copies x (Suc k), Ok ())"
    using copies_add [OF assms(4), of k] k by simp
  moreover have "ChunkGroup_is_complete (copies x (Suc k))"
    using k(1) by (simp add: ChunkGroup_is_complete_def copies_def flip: k(1))
  ultimately have "snd (Chunker_add_chunk oc ?c x) = Panic UnwrapNone"
    using copies_collect [OF assms(4,5)] by (rule add_chunk_uncollected)
  with feed_append [OF fed, of "[x]"] show ?thesis
    by (auto simp: k(1) replicate_append_same [symmetric] split: prod.splits)
qed

theorem duplicate_chunk_panics_witness:
  "snd (feed True (Chunker_new () 4096)
     (replicate 2 \<lparr>cd_group = 0, cd_index = 0, cd_group_length = 2, cd_data = [7]\<rparr>))
   = Panic UnwrapNone"
  using duplicate_chunk_panics [of "Chunker_new () 4096"
      "\<lparr>cd_group = 0, cd_index = 0, cd_group_length = 2, cd_data = [7]\<rparr>" True]
  by (simp add: Chunker_new_def btm_get_def)

end
