(* ===== verification/Fifo.thy ===== *)
theory Fifo
  imports Reassembly
begin

text \<open>
  \<open>src/src/transform.rs\<close>: the contract of the trait \<open>Bidirectional\<close> for an implementation that
  loses nothing, and the proof that \<open>Chunker\<close> keeps it: over a delegate that carries byte
  strings in order, a chunker carries whole messages in order. The relation \<open>rep d ms\<close> says
  that \<open>ms\<close> are the messages sent and not yet received in state \<open>d\<close>, so the two laws are a
  simulation of the queue of messages.
\<close>

section \<open>The contract\<close>

text \<open>
  Both halves on their own, because the two ends of a connection are different objects. What an
  end accepts is said of the whole list of strings still to be sent, since a counter may run out.
\<close>

locale outbound_channel =
  fixes send :: "'d bidir_send"
    and rep :: "'d \<Rightarrow> bytes list \<Rightarrow> bool"
    and accepts :: "'d \<Rightarrow> bytes list \<Rightarrow> bool"
  assumes send_rep: "rep d ms \<Longrightarrow> accepts d (b # bs) \<Longrightarrow>
    \<exists>d'. send d b = (d', Ok ()) \<and> rep d' (ms @ [b]) \<and> accepts d' bs"
begin

lemma send_each_rep:
  "rep d ms \<Longrightarrow> accepts d (xs @ ys) \<Longrightarrow>
     \<exists>d'. send_each send d xs = (d', Ok ()) \<and> rep d' (ms @ xs) \<and> accepts d' ys"
proof (induction xs arbitrary: d ms)
  case (Cons x xs)
  then obtain d1 where "send d x = (d1, Ok ())" "rep d1 (ms @ [x])" "accepts d1 (xs @ ys)"
    using send_rep [of d ms x "xs @ ys"] by auto
  then show ?case using Cons.IH [of d1 "ms @ [x]"] by simp
qed simp

end

locale inbound_channel =
  fixes recv :: "'d bidir_recv"
    and rep :: "'d \<Rightarrow> bytes list \<Rightarrow> bool"
  assumes recv_rep: "rep d (b # ms) \<Longrightarrow> \<exists>d'. recv d = Some (d', Ok b) \<and> rep d' ms"

text \<open>Receiving \<open>n\<close> messages in a row.\<close>

fun recv_many :: "'d bidir_recv \<Rightarrow> nat \<Rightarrow> 'd \<Rightarrow> ('d \<times> bytes list) option" where
  "recv_many recv 0 d = Some (d, [])"
| "recv_many recv (Suc n) d =
     (case recv d of
        Some (d', Ok b) \<Rightarrow> map_option (\<lambda>(d'', bs). (d'', b # bs)) (recv_many recv n d')
      | _ \<Rightarrow> None)"

context inbound_channel
begin

lemma recv_many_rep:
  "rep d (xs @ ms) \<Longrightarrow> \<exists>d'. recv_many recv (length xs) d = Some (d', xs) \<and> rep d' ms"
proof (induction xs arbitrary: d)
  case (Cons x xs)
  then obtain d1 where "recv d = Some (d1, Ok x)" and "rep d1 (xs @ ms)"
    using recv_rep [of d x "xs @ ms"] by auto
  with Cons.IH show ?case by fastforce
qed simp

end

locale reliable_channel = outbound_channel send rep accepts + inbound_channel recv rep
  for send :: "'d bidir_send" and recv and rep and accepts

interpretation deque: reliable_channel deque_send deque_recv "(=)" "\<lambda>_ _. True"
  by unfold_locales (auto simp: deque_send_def deque_recv_def)

section \<open>Chunks that arrive in order\<close>

definition partial_group :: "chunked_data list \<Rightarrow> nat \<Rightarrow> chunk_group" where
  "partial_group L k =
     \<lparr>cg_chunks = map Some (take k L) @ replicate (length L - k) None, cg_size = of_nat k,
      cg_group_length = of_nat (length L)\<rparr>"

definition open_groups :: "u64 \<Rightarrow> chunked_data list \<Rightarrow> nat \<Rightarrow> (u64, chunk_group) btree_map" where
  "open_groups g L k = (if k = 0 \<or> length L \<le> k then [] else [(g, partial_group L k)])"

lemma partial_slot:
  assumes "k < length L"
  shows "(map Some (take k L) @ replicate (length L - k) None)[k := Some (L ! k)] =
           map Some (take (Suc k) L) @ replicate (length L - Suc k) None"
proof -
  obtain m where "length L - k = Suc m" using assms by (metis Suc_diff_Suc)
  moreover from this have "length L - Suc k = m" by simp
  ultimately show ?thesis using assms by (simp add: list_update_append take_Suc_conv_app_nth)
qed

lemma partial_add:
  assumes L: "L = make_chunks g parts" "length parts < 2 ^ 63" and k: "k < length L"
  shows "ChunkGroup_add_chunk oc (partial_group L k) (L ! k) = (partial_group L (Suc k), Ok ())"
proof -
  have idx: "unat (cd_index (L ! k)) = k"
    using L k by (simp add: make_chunks_nth unat_of_nat_u64)
  have "of_nat k \<noteq> u64_max" using unat_of_nat_u64 [of k] k L by auto
  then show ?thesis
    using k partial_slot [OF k]
    by (simp add: ChunkGroup_add_chunk_slot partial_group_def idx Let_def)
qed

lemma partial_complete:
  assumes "L = make_chunks g parts" and "length parts < 2 ^ 63" and "k \<le> length L"
  shows "ChunkGroup_is_complete (partial_group L k) \<longleftrightarrow> k = length L"
proof -
  have "unat (of_nat k :: u64) = k" "unat (of_nat (length L) :: u64) = length L"
    using assms by (intro unat_of_nat_u64; simp)+
  then have "(of_nat k :: u64) = of_nat (length L) \<longleftrightarrow> k = length L" by metis
  then show ?thesis by (simp add: ChunkGroup_is_complete_def partial_group_def)
qed

lemma partial_collect:
  assumes "L = make_chunks g parts"
  shows "ChunkGroup_collect (partial_group L (length L)) = Ok (concat parts)"
proof -
  have "collect_loop (map Some L) [] = Ok (concat (map (\<lambda>i. cd_data (L ! i)) [0 ..< length L]))"
    using collect_loop_all [of "map Some L" "\<lambda>i. L ! i" "[]"] by simp
  moreover have "map (\<lambda>i. cd_data (L ! i)) [0 ..< length L] = parts"
    using assms by (intro nth_equalityI) (simp_all add: make_chunks_nth)
  ultimately show ?thesis by (simp add: ChunkGroup_collect_def partial_group_def)
qed

lemma in_order_step:
  assumes L: "L = make_chunks g parts" "length parts < 2 ^ 63" and k: "k < length L"
    and c: "chunk_groups c = open_groups g L k"
  shows "Chunker_add_chunk oc c (L ! k) =
    (c\<lparr>chunk_groups := open_groups g L (Suc k),
       completed_chunks := completed_chunks c @ (if Suc k = length L then [concat parts] else [])\<rparr>,
     Ok ())"
proof -
  have chunk: "cd_group (L ! k) = g" "cd_group_length (L ! k) = of_nat (length L)"
    using L k by (simp_all add: make_chunks_nth)
  have "unat (of_nat (length L) :: u64) = length L" using L by (intro unat_of_nat_u64) simp
  then have "group_for c (L ! k) = partial_group L k"
    using k chunk
    by (cases "k = 0") (simp_all add: group_for_def c open_groups_def btm_get_def
        ChunkGroup_new_def partial_group_def)
  then have add: "ChunkGroup_add_chunk oc (group_for c (L ! k)) (L ! k) = (partial_group L (Suc k), Ok ())"
    using partial_add [OF L k] by simp
  have ins: "btm_insert g p (chunk_groups c) = [(g, p)]" for p
    by (simp add: c open_groups_def)
  have few: "evict_old_group c' = c'" if "length (chunk_groups c') \<le> 1" for c' :: "'a chunker"
    using that by (intro evict_few) simp
  show ?thesis
  proof (cases "Suc k = length L")
    case True
    then show ?thesis
      using add_chunk_collected [OF add] partial_complete [OF L, of "Suc k"] partial_collect [OF L(1)]
      by (simp add: chunk ins few open_groups_def)
  next
    case False
    then show ?thesis
      using add_chunk_incomplete [OF add] partial_complete [OF L, of "Suc k"] k
      by (simp add: chunk ins few open_groups_def)
  qed
qed

section \<open>The chunker over a reliable delegate\<close>

text \<open>
  The messages that were sent through a chunker: its delegate holds the serialised chunks of each
  of them, one message after the other. At the receiving end nothing is half assembled.
\<close>

definition encodes :: "chunked_data codec \<Rightarrow> u64 \<Rightarrow> bytes list \<Rightarrow> bytes \<Rightarrow> bool" where
  "encodes cdc n bs m \<longleftrightarrow> m \<noteq> [] \<and> in_memory m
     \<and> (\<exists>g. map (deserialize cdc) bs = map Inr (make_chunks g (slice_chunks (unat n) m)))"

definition sent_messages ::
    "chunked_data codec \<Rightarrow> ('d \<Rightarrow> bytes list \<Rightarrow> bool) \<Rightarrow> 'd chunker \<Rightarrow> bytes list \<Rightarrow> bool" where
  "sent_messages cdc rep c ms \<longleftrightarrow>
     chunk_size c \<noteq> 0
     \<and> (\<exists>bss. rep (delegate c) (concat bss) \<and> list_all2 (encodes cdc (chunk_size c)) bss ms)"

definition holds_messages ::
    "chunked_data codec \<Rightarrow> ('d \<Rightarrow> bytes list \<Rightarrow> bool) \<Rightarrow> 'd chunker \<Rightarrow> bytes list \<Rightarrow> bool" where
  "holds_messages cdc rep c ms \<longleftrightarrow>
     chunk_groups c = [] \<and> completed_chunks c = [] \<and> sent_messages cdc rep c ms"

text \<open>The chunks of several messages, each with the next group number.\<close>

fun all_chunks :: "u64 \<Rightarrow> nat \<Rightarrow> bytes list \<Rightarrow> chunked_data list" where
  "all_chunks g n [] = []"
| "all_chunks g n (m # ms) = make_chunks g (slice_chunks n m) @ all_chunks (g + 1) n ms"

definition sendable ::
    "bool \<Rightarrow> chunked_data codec \<Rightarrow> ('d \<Rightarrow> bytes list \<Rightarrow> bool) \<Rightarrow> 'd chunker \<Rightarrow> bytes list \<Rightarrow> bool" where
  "sendable oc cdc accepts c ms \<longleftrightarrow>
     (\<forall>m \<in> set ms. m \<noteq> [] \<and> in_memory m)
     \<and> (oc \<longrightarrow> unat (current_group c) + length ms < 2 ^ 64)
     \<and> (\<forall>bs. serialize_chunks cdc (all_chunks (current_group c) (unat (chunk_size c)) ms) = Ok bs \<longrightarrow>
          accepts (delegate c) bs)"

abbreviation chunk_fits :: "chunked_data \<Rightarrow> bool" where
  "chunk_fits x \<equiv> in_memory (cd_data x)"

lemma make_chunks_fit:
  assumes "0 < n" and "in_memory m" and "x \<in> set (make_chunks g (slice_chunks n m))"
  shows "chunk_fits x" and "length (cd_data x) \<le> n" and "cd_data x \<noteq> []"
proof -
  from assms(3) have "cd_data x \<in> set (slice_chunks n m)" by (auto simp: make_chunks_nth)
  then show "length (cd_data x) \<le> n" and "cd_data x \<noteq> []"
    using slice_chunks_sizes [OF assms(1)] by blast+
  from \<open>cd_data x \<in> set (slice_chunks n m)\<close>
  obtain ys zs where "slice_chunks n m = ys @ cd_data x # zs" by (meson split_list)
  then have "m = concat ys @ cd_data x @ concat zs"
    using concat_slice_chunks [OF assms(1), of m] by simp
  then have "length (cd_data x) \<le> length m" by (metis length_append le_add1 le_add2 le_trans)
  with assms(2) show "chunk_fits x" by (simp add: in_memory_def)
qed

lemma serialize_chunks_append:
  "serialize_chunks cdc xs = Ok bs \<Longrightarrow> serialize_chunks cdc ys = Ok cs \<Longrightarrow>
     serialize_chunks cdc (xs @ ys) = Ok (bs @ cs)"
  by (induction xs arbitrary: bs)
    (auto simp: unwrap_result_def split: sum.splits res.splits)

lemma all_chunks_fit:
  "0 < n \<Longrightarrow> \<forall>m \<in> set ms. in_memory m \<Longrightarrow> x \<in> set (all_chunks g n ms) \<Longrightarrow>
     chunk_fits x \<and> length (cd_data x) \<le> n"
  by (induction ms arbitrary: g) (auto dest: make_chunks_fit)

locale chunker_outbound = outbound_channel +
  fixes cdc :: "chunked_data codec"
  assumes chunk_codec: "codec_ok chunk_fits cdc"
begin

lemma chunker_sends_chunks:
  assumes rep: "rep (delegate c) xs" and n: "chunk_size c \<noteq> 0"
    and m: "sendable oc cdc accepts c (m # rest)"
  obtains bs d' where "Chunker_send oc cdc send c m =
        (c\<lparr>current_group := current_group c + 1, delegate := d'\<rparr>, Ok ())"
    and "serialize_chunks cdc (make_chunks (current_group c) (slice_chunks (unat (chunk_size c)) m)) = Ok bs"
    and "map (deserialize cdc) bs = map Inr (make_chunks (current_group c) (slice_chunks (unat (chunk_size c)) m))"
    and "rep d' (xs @ bs)"
    and "sendable oc cdc accepts (c\<lparr>current_group := current_group c + 1, delegate := d'\<rparr>) rest"
proof -
  let ?n = "unat (chunk_size c)"
  let ?L = "make_chunks (current_group c) (slice_chunks ?n m)"
  let ?R = "all_chunks (current_group c + 1) ?n rest"
  have n': "0 < ?n" using n by (simp add: unat_gt_0)
  have m': "in_memory m" "\<forall>x \<in> set rest. in_memory x"
    using m by (simp_all add: sendable_def)
  obtain bs where bs: "serialize_chunks cdc ?L = Ok bs" "map (deserialize cdc) bs = map Inr ?L"
    using serialize_chunks_ok [OF chunk_codec] make_chunks_fit(1) [OF n' m'(1)] by blast
  obtain cs where cs: "serialize_chunks cdc ?R = Ok cs"
    using serialize_chunks_ok [OF chunk_codec] all_chunks_fit [OF n' m'(2)] by blast
  have "accepts (delegate c) (bs @ cs)"
    using m serialize_chunks_append [OF bs(1) cs] by (simp add: sendable_def)
  then obtain d' where d': "send_each send (delegate c) bs = (d', Ok ())" "rep d' (xs @ bs)" "accepts d' cs"
    using send_each_rep [OF rep] by blast
  have grp: "current_group c \<noteq> u64_max" if oc
    using that m by (auto simp: sendable_def)
  show ?thesis
  proof (rule that [OF _ bs d'(2)])
    show "sendable oc cdc accepts (c\<lparr>current_group := current_group c + 1, delegate := d'\<rparr>) rest"
      using m d'(3) cs grp by (simp add: sendable_def unat_plus_1)
    show "Chunker_send oc cdc send c m = (c\<lparr>current_group := current_group c + 1, delegate := d'\<rparr>, Ok ())"
      using n grp bs(1) d'(1) by (simp add: Chunker_send_def add_u64_1_cases Let_def)
  qed
qed

lemma chunker_sends:
  assumes c: "sent_messages cdc rep c ms" and m: "sendable oc cdc accepts c (m # rest)"
  shows "\<exists>d'. Chunker_send oc cdc send c m =
            (c\<lparr>current_group := current_group c + 1, delegate := d'\<rparr>, Ok ())
          \<and> sent_messages cdc rep (c\<lparr>current_group := current_group c + 1, delegate := d'\<rparr>) (ms @ [m])
          \<and> sendable oc cdc accepts (c\<lparr>current_group := current_group c + 1, delegate := d'\<rparr>) rest"
proof -
  obtain bss where rep: "rep (delegate c) (concat bss)" and n: "chunk_size c \<noteq> 0"
      and bss: "list_all2 (encodes cdc (chunk_size c)) bss ms"
    using c by (auto simp: sent_messages_def)
  obtain bs d' where bs: "Chunker_send oc cdc send c m =
        (c\<lparr>current_group := current_group c + 1, delegate := d'\<rparr>, Ok ())"
      "map (deserialize cdc) bs = map Inr (make_chunks (current_group c) (slice_chunks (unat (chunk_size c)) m))"
      "rep d' (concat bss @ bs)"
      "sendable oc cdc accepts (c\<lparr>current_group := current_group c + 1, delegate := d'\<rparr>) rest"
    by (rule chunker_sends_chunks [OF rep n m]) (rule that)
  have "m \<noteq> []" "in_memory m" using m by (simp_all add: sendable_def)
  then have "list_all2 (encodes cdc (chunk_size c)) (bss @ [bs]) (ms @ [m])"
    using bss bs(2) by (intro list_all2_appendI) (auto simp: encodes_def)
  then have "sent_messages cdc rep (c\<lparr>current_group := current_group c + 1, delegate := d'\<rparr>) (ms @ [m])"
    using n bs(3) by (auto simp: sent_messages_def intro!: exI [of _ "bss @ [bs]"])
  with bs(1,4) show ?thesis by blast
qed

text \<open>The chunks of a list of messages, as the delegate gets them.\<close>

lemma send_each_chunks:
  assumes "rep (delegate c) xs" and "chunk_size c \<noteq> 0" and "sendable oc cdc accepts c ms"
  shows "\<exists>d' bs. send_each (Chunker_send oc cdc send) c ms =
      (c\<lparr>current_group := current_group c + of_nat (length ms), delegate := d'\<rparr>, Ok ())
    \<and> rep d' (xs @ bs)
    \<and> serialize_chunks cdc (all_chunks (current_group c) (unat (chunk_size c)) ms) = Ok bs
    \<and> map (deserialize cdc) bs = map Inr (all_chunks (current_group c) (unat (chunk_size c)) ms)"
  using assms
proof (induction ms arbitrary: c xs)
  case (Cons m ms)
  obtain bs d1 where bs: "Chunker_send oc cdc send c m =
        (c\<lparr>current_group := current_group c + 1, delegate := d1\<rparr>, Ok ())"
      "serialize_chunks cdc (make_chunks (current_group c) (slice_chunks (unat (chunk_size c)) m)) = Ok bs"
      "map (deserialize cdc) bs = map Inr (make_chunks (current_group c) (slice_chunks (unat (chunk_size c)) m))"
      "rep d1 (xs @ bs)"
      "sendable oc cdc accepts (c\<lparr>current_group := current_group c + 1, delegate := d1\<rparr>) ms"
    by (rule chunker_sends_chunks [OF Cons.prems])
  obtain d' bs' where "send_each (Chunker_send oc cdc send)
        (c\<lparr>current_group := current_group c + 1, delegate := d1\<rparr>) ms =
        (c\<lparr>current_group := current_group c + 1 + of_nat (length ms), delegate := d'\<rparr>, Ok ())"
      "rep d' ((xs @ bs) @ bs')"
      "serialize_chunks cdc (all_chunks (current_group c + 1) (unat (chunk_size c)) ms) = Ok bs'"
      "map (deserialize cdc) bs' = map Inr (all_chunks (current_group c + 1) (unat (chunk_size c)) ms)"
    using Cons.IH [of "c\<lparr>current_group := current_group c + 1, delegate := d1\<rparr>" "xs @ bs"] bs(4,5) Cons.prems(2)
    by auto
  then show ?case
    using bs(1-3) serialize_chunks_append [OF bs(2)]
    by (intro exI [of _ d'] exI [of _ "bs @ bs'"]) (simp add: add.assoc)
next
  case Nil
  then show ?case by (intro exI [of _ "delegate c"] exI [of _ "[]"]) simp
qed

sublocale sent: outbound_channel "Chunker_send oc cdc send" "sent_messages cdc rep"
  "sendable oc cdc accepts" for oc
  using chunker_sends by unfold_locales blast

end

locale chunker_inbound = inbound_channel +
  fixes oc :: bool and cdc :: "chunked_data codec"
begin

lemma recv_in_order:
  assumes L: "L = make_chunks g parts" "length parts < 2 ^ 63"
    and bs: "map (deserialize cdc) bs = map Inr L"
    and "k < length L" and "completed_chunks c = []" and "chunk_groups c = open_groups g L k"
    and "rep (delegate c) (drop k bs @ rest)"
  shows "\<exists>d'. Chunker_recv oc cdc recv c =
           Some (c\<lparr>delegate := d', chunk_groups := [], completed_chunks := []\<rparr>, Ok (concat parts))
         \<and> rep d' rest"
  using assms(4-)
proof (induction "length L - k" arbitrary: k c)
  case (Suc n)
  have len: "length bs = length L" using bs by (metis length_map)
  with Suc.prems(1,4) have "rep (delegate c) (bs ! k # (drop (Suc k) bs @ rest))"
    by (simp add: drop_nth_Cons)
  then obtain d1 where d1: "recv (delegate c) = Some (d1, Ok (bs ! k))"
      and rep1: "rep d1 (drop (Suc k) bs @ rest)"
    using recv_rep by blast
  have "deserialize cdc (bs ! k) = Inr (L ! k)"
    using bs Suc.prems(1) len by (metis nth_map)
  then have step: "recv_step oc cdc recv c =
    Some (c\<lparr>delegate := d1, chunk_groups := open_groups g L (Suc k),
       completed_chunks := if Suc k = length L then [concat parts] else []\<rparr>, None)"
    using d1 Suc.prems(1-3) in_order_step [OF L Suc.prems(1), of "c\<lparr>delegate := d1\<rparr>" oc]
    by (simp add: recv_step_def next_ready_chunk_def unwrap_result_def)
  show ?case
  proof (cases "Suc k = length L")
    case True
    then show ?thesis
      using rep1 len Chunker_recv_continue [OF step]
      by (intro exI [of _ d1]) (simp add: Chunker_recv_ready open_groups_def)
  next
    case False
    then show ?thesis
      using Suc.hyps(1) [of "Suc k" "c\<lparr>delegate := d1, chunk_groups := open_groups g L (Suc k),
        completed_chunks := []\<rparr>"] Suc.hyps(2) Suc.prems(1) rep1 Chunker_recv_continue [OF step]
      by simp
  qed
qed simp

lemma holds_recv:
  assumes "holds_messages cdc rep c (m # ms)"
  shows "\<exists>c'. Chunker_recv oc cdc recv c = Some (c', Ok m) \<and> holds_messages cdc rep c' ms"
proof -
  let ?n = "unat (chunk_size c)"
  obtain bs bss g where rep: "rep (delegate c) (bs @ concat bss)" and m: "m \<noteq> []" "in_memory m"
      and bs: "map (deserialize cdc) bs = map Inr (make_chunks g (slice_chunks ?n m))"
      and rest: "list_all2 (encodes cdc (chunk_size c)) bss ms" and n: "0 < ?n"
    using assms by (auto simp: holds_messages_def sent_messages_def encodes_def list_all2_Cons2 unat_gt_0)
  moreover have "length (slice_chunks ?n m) < 2 ^ 63" using in_memory_chunks [OF n m(2)] .
  ultimately obtain d' where "Chunker_recv oc cdc recv c =
      Some (c\<lparr>delegate := d', chunk_groups := [], completed_chunks := []\<rparr>,
        Ok (concat (slice_chunks ?n m)))"
      and "rep d' (concat bss)"
    using recv_in_order [OF refl _ bs, of 0 c "concat bss"] assms
    by (auto simp: holds_messages_def open_groups_def)
  then show ?thesis using rest assms n
    by (auto simp: holds_messages_def sent_messages_def concat_slice_chunks)
qed

sublocale received: inbound_channel "Chunker_recv oc cdc recv" "holds_messages cdc rep"
  by unfold_locales (rule holds_recv)

end

text \<open>Both halves on one chunker: the other half leaves \<open>chunk_groups\<close> alone.\<close>

locale chunker_over =
  chunker_outbound send rep accepts cdc + inbound_channel recv rep
  for send :: "'d bidir_send" and recv and rep and accepts and cdc
begin

lemma holds_send:
  assumes "holds_messages cdc rep c ms" and "sendable oc cdc accepts c (m # rest)"
  shows "\<exists>c'. Chunker_send oc cdc send c m = (c', Ok ())
    \<and> holds_messages cdc rep c' (ms @ [m]) \<and> sendable oc cdc accepts c' rest"
  using chunker_sends [of c ms oc m rest] assms by (force simp: holds_messages_def)

lemma chunker_inbound: "chunker_inbound recv rep"
  by unfold_locales

sublocale messages: reliable_channel "Chunker_send oc cdc send" "Chunker_recv oc cdc recv"
  "holds_messages cdc rep" "sendable oc cdc accepts" for oc
  using holds_send chunker_inbound.holds_recv [OF chunker_inbound] by unfold_locales blast+

lemmas send_each_held = messages.send_each_rep
lemmas recv_many_held = messages.recv_many_rep

end

text \<open>A codec for chunks in the documented layout.\<close>

definition put_chunk :: "chunked_data \<Rightarrow> bytes" where
  "put_chunk x =
     put_u64 (cd_group x) @ put_u64 (cd_index x) @ put_u64 (cd_group_length x) @ put_bytes (cd_data x)"

definition take_chunk :: "chunked_data reader" where
  "take_chunk bs =
     Option.bind (take_u64 bs) (\<lambda>(g, r1). Option.bind (take_u64 r1) (\<lambda>(i, r2).
     Option.bind (take_u64 r2) (\<lambda>(n, r3). Option.bind (take_bytes r3) (\<lambda>(d, r4).
       Some (\<lparr>cd_group = g, cd_index = i, cd_group_length = n, cd_data = d\<rparr>, r4)))))"

definition chunk_layout :: "chunked_data codec" where
  "chunk_layout = layout_codec put_chunk take_chunk"

lemma chunk_layout_ok: "codec_ok chunk_fits chunk_layout"
  unfolding chunk_layout_def
  by (rule layout_codec_ok) (simp add: put_chunk_def take_chunk_def)

interpretation chunk_wire: wire_format chunk_fits "serialize chunk_layout" "deserialize chunk_layout"
  using chunk_layout_ok by (simp add: codec_ok_iff)

interpretation deque_chunker:
  chunker_over deque_send deque_recv "(=)" "\<lambda>_ _. True" chunk_layout
  by unfold_locales (rule chunk_layout_ok)

section \<open>The properties\<close>

lemma send_each_deque: "send_each deque_send q bs = (q @ bs, Ok ())"
  by (induction bs arbitrary: q) (simp_all add: deque_send_def)

lemma serialize_chunks_map: "serialize_chunks cdc xs = Ok bs \<Longrightarrow> map (serialize cdc) xs = map Inr bs"
  by (induction xs arbitrary: bs) (auto simp: unwrap_result_def split: sum.splits res.splits)

lemma deque_chunker_over:
  "codec_ok chunk_fits cdc \<Longrightarrow> chunker_over deque_send deque_recv (=) (\<lambda>_ _. True) cdc"
  by unfold_locales

lemma fresh_holds: "n \<noteq> 0 \<Longrightarrow> holds_messages cdc (=) (Chunker_new [] n) []"
  by (simp add: holds_messages_def sent_messages_def Chunker_new_def)

lemma add_chunk_delegate: "delegate (fst (Chunker_add_chunk oc c x)) = delegate c"
  by (auto simp: Chunker_add_chunk_def evict_old_group_def Let_def split: prod.splits res.splits)

text \<open>The delegate plays no part in reassembly, and reassembled messages queue up.\<close>

lemma add_chunk_over:
  "Chunker_add_chunk oc (c\<lparr>delegate := q\<rparr>) x =
     (case Chunker_add_chunk oc c x of (c', r) \<Rightarrow> (c'\<lparr>delegate := q\<rparr>, r))"
  by (auto simp: Chunker_add_chunk_def evict_old_group_def group_for_def Let_def
      split: prod.splits res.splits)

lemma feed_over:
  "feed oc (c\<lparr>delegate := q\<rparr>) xs = (case feed oc c xs of (c', r) \<Rightarrow> (c'\<lparr>delegate := q\<rparr>, r))"
  by (induction xs arbitrary: c) (auto simp: add_chunk_over split: prod.splits res.splits)

lemma add_chunk_completed:
  "\<exists>ms. completed_chunks (fst (Chunker_add_chunk oc c x)) = completed_chunks c @ ms"
  by (auto simp: Chunker_add_chunk_def evict_old_group_def Let_def split: prod.splits res.splits)

lemma feed_completed: "\<exists>ms. completed_chunks (fst (feed oc c xs)) = completed_chunks c @ ms"
proof (induction xs arbitrary: c)
  case (Cons x xs)
  obtain c1 r where "Chunker_add_chunk oc c x = (c1, r)" by fastforce
  then show ?case using Cons [of c1] add_chunk_completed [of oc c x] by (cases r) auto
qed simp

lemma add_chunk_no_Err: "snd (Chunker_add_chunk oc c x) \<noteq> Err e"
proof -
  have "collect_loop cs out \<noteq> Err e'" for cs out e'
    by (induction cs arbitrary: out) (auto simp: unwrap_option_def split: option.splits)
  then show ?thesis
    by (auto simp: Chunker_add_chunk_def ChunkGroup_add_chunk_def ChunkGroup_collect_def vec_remove_def
        vec_insert_def add_u64_def Let_def split: prod.splits res.splits if_splits)
qed

text \<open>A message that some of the byte strings at the front of the queue complete: they are
  chunks, they are taken in without a panic, and the message is then the first completed one.\<close>

definition fetches :: "bool \<Rightarrow> chunked_data codec \<Rightarrow> bytes list chunker \<Rightarrow> bytes \<Rightarrow> bool" where
  "fetches oc cdc c m \<longleftrightarrow>
     (\<exists>n xs c1 ms. n \<le> length (delegate c) \<and> map (deserialize cdc) (take n (delegate c)) = map Inr xs
        \<and> feed oc c xs = (c1, Ok ()) \<and> completed_chunks c1 = m # ms)"

lemma fetches_ready: "completed_chunks c = m # ms \<Longrightarrow> fetches oc cdc c m' \<longleftrightarrow> m' = m"
proof
  assume c: "completed_chunks c = m # ms" and "fetches oc cdc c m'"
  then obtain xs c1 ms' where "feed oc c xs = (c1, Ok ())" "completed_chunks c1 = m' # ms'"
    by (auto simp: fetches_def)
  then show "m' = m" using feed_completed [of oc c xs] c by auto
next
  assume "completed_chunks c = m # ms" and "m' = m"
  then show "fetches oc cdc c m'"
    unfolding fetches_def by (intro exI [of _ 0] exI [of _ "[]"] exI [of _ c] exI [of _ ms]) simp
qed

lemma fetches_more:
  assumes "completed_chunks c = []"
  shows "fetches oc cdc c m \<longleftrightarrow>
    (\<exists>b q x c1. delegate c = b # q \<and> deserialize cdc b = Inr x
       \<and> Chunker_add_chunk oc (c\<lparr>delegate := q\<rparr>) x = (c1, Ok ()) \<and> fetches oc cdc c1 m)"
proof
  assume "fetches oc cdc c m"
  then obtain n xs c1 ms where n: "n \<le> length (delegate c)"
      "map (deserialize cdc) (take n (delegate c)) = map Inr xs" "feed oc c xs = (c1, Ok ())"
      "completed_chunks c1 = m # ms"
    by (auto simp: fetches_def)
  have "xs \<noteq> []" using n(3,4) assms by auto
  then obtain x xs' where xs: "xs = x # xs'" by (cases xs) auto
  then obtain b q n' where q: "delegate c = b # q" "n = Suc n'" "deserialize cdc b = Inr x"
      "map (deserialize cdc) (take n' q) = map Inr xs'"
    using n(2) by (cases "delegate c"; cases n) auto
  obtain c2 where c2: "Chunker_add_chunk oc c x = (c2, Ok ())" "feed oc c2 xs' = (c1, Ok ())"
    using n(3) xs by (auto split: prod.splits res.splits)
  then have "feed oc (c2\<lparr>delegate := q\<rparr>) xs' = (c1\<lparr>delegate := q\<rparr>, Ok ())" by (simp add: feed_over)
  then have "fetches oc cdc (c2\<lparr>delegate := q\<rparr>) m"
    using n(1,4) q unfolding fetches_def
    by (intro exI [of _ n'] exI [of _ xs'] exI [of _ "c1\<lparr>delegate := q\<rparr>"] exI [of _ ms]) simp
  then show "\<exists>b q x c1. delegate c = b # q \<and> deserialize cdc b = Inr x
      \<and> Chunker_add_chunk oc (c\<lparr>delegate := q\<rparr>) x = (c1, Ok ()) \<and> fetches oc cdc c1 m"
    using q c2(1) by (auto simp: add_chunk_over)
next
  assume "\<exists>b q x c1. delegate c = b # q \<and> deserialize cdc b = Inr x
      \<and> Chunker_add_chunk oc (c\<lparr>delegate := q\<rparr>) x = (c1, Ok ()) \<and> fetches oc cdc c1 m"
  then obtain b q x c1 where q: "delegate c = b # q" "deserialize cdc b = Inr x"
      "Chunker_add_chunk oc (c\<lparr>delegate := q\<rparr>) x = (c1, Ok ())" "fetches oc cdc c1 m" by blast
  obtain c2 where c2: "Chunker_add_chunk oc c x = (c2, Ok ())" "c1 = c2\<lparr>delegate := q\<rparr>"
    using q(3) by (auto simp: add_chunk_over split: prod.splits)
  obtain n xs c3 ms where n: "n \<le> length q" "map (deserialize cdc) (take n q) = map Inr xs"
      "feed oc c1 xs = (c3, Ok ())" "completed_chunks c3 = m # ms"
    using q(4) c2(2) by (auto simp: fetches_def)
  obtain c4 where "feed oc c2 xs = (c4, Ok ())" "completed_chunks c4 = m # ms"
    using n(3,4) c2(2) by (auto simp: feed_over split: prod.splits)
  then show "fetches oc cdc c m"
    using q(1,2) c2(1) n(1,2) unfolding fetches_def
    by (intro exI [of _ "Suc n"] exI [of _ "x # xs"] exI [of _ c4] exI [of _ ms]) simp
qed

text \<open>
  C7 (refinement). Over any delegate that carries byte strings in order, \<open>Chunker\<close> again is a
  channel that carries messages in order: what \<open>send\<close> accepts is appended to the queue of
  messages, and \<open>recv\<close> returns, terminating, the message at its front.
\<close>

theorem chunker_refines_queue:
  assumes "reliable_channel send recv rep accepts" and "codec_ok chunk_fits cdc"
  shows "reliable_channel (Chunker_send oc cdc send) (Chunker_recv oc cdc recv)
           (holds_messages cdc rep) (sendable oc cdc accepts)"
proof -
  have over: "chunker_over send recv rep accepts cdc"
    using assms
    by (simp add: chunker_over_def chunker_outbound_def chunker_outbound_axioms_def reliable_channel_def)
  then show ?thesis
    using chunker_over.holds_send [OF over] chunker_inbound.holds_recv [OF chunker_over.chunker_inbound [OF over]]
    by (intro reliable_channel.intro outbound_channel.intro inbound_channel.intro) blast+
qed

theorem chunker_refines_queue_witness:
  "reliable_channel (Chunker_send True chunk_layout deque_send) (Chunker_recv True chunk_layout deque_recv)
     (holds_messages chunk_layout (=)) (sendable True chunk_layout (\<lambda>_ _. True))"
  by (rule chunker_refines_queue [OF deque.reliable_channel_axioms chunk_layout_ok])

text \<open>
  Messages that are not empty, sent one after the other through a fresh chunker on
  the in-memory queue, are received back one by one, complete and in order, for every chunk size
  but zero; \<open>recv\<close> returns each time.
\<close>

theorem chunker_roundtrip:
  assumes "codec_ok chunk_fits cdc" and "n \<noteq> 0"
    and "\<forall>m \<in> set ms. m \<noteq> [] \<and> in_memory m" and "oc \<longrightarrow> length ms < 2 ^ 64"
  shows "\<exists>c c'. send_each (Chunker_send oc cdc deque_send) (Chunker_new [] n) ms = (c, Ok ())
           \<and> recv_many (Chunker_recv oc cdc deque_recv) (length ms) c = Some (c', ms)"
proof -
  note over = deque_chunker_over [OF assms(1)]
  have "sendable oc cdc (\<lambda>_ _. True) (Chunker_new [] n) (ms @ [])"
    using assms(3,4) by (simp add: sendable_def Chunker_new_def)
  then obtain c where "send_each (Chunker_send oc cdc deque_send) (Chunker_new [] n) ms = (c, Ok ())"
      and "holds_messages cdc (=) c ([] @ ms)"
    using chunker_over.send_each_held [OF over fresh_holds [OF assms(2)]] by blast
  then show ?thesis using chunker_over.recv_many_held [OF over, of c ms "[]" oc] by auto
qed

theorem chunker_roundtrip_witness:
  "\<exists>c c'. send_each (Chunker_send True chunk_layout deque_send) (Chunker_new [] 3)
            [[1, 2, 3, 4, 5, 6, 7, 8], [9]] = (c, Ok ())
     \<and> recv_many (Chunker_recv True chunk_layout deque_recv) (Suc (Suc 0)) c
         = Some (c', [[1, 2, 3, 4, 5, 6, 7, 8], [9]])"
  using chunker_roundtrip [OF chunk_layout_ok, of 3 "[[1, 2, 3, 4, 5, 6, 7, 8], [9]]" True]
  by (simp add: in_memory_def)

text \<open>
  An empty message has no chunks: \<open>send\<close> reports success, uses up a group
  number and hands nothing to the delegate, so the peer never receives it.
\<close>

lemma send_empty_message:
  assumes "chunk_size c \<noteq> 0" and "oc \<longrightarrow> current_group c \<noteq> u64_max"
  shows "Chunker_send oc cdc dsend c [] = (c\<lparr>current_group := current_group c + 1\<rparr>, Ok ())"
  using assms by (simp add: Chunker_send_def add_u64_1_cases make_chunks_def Let_def)

text \<open>
  Every byte string that \<open>send\<close> hands to the delegate is a serialised chunk of the
  current group with at least one and at most \<open>chunk_size\<close> bytes of the message, and the
  chunks together are the message.
\<close>

theorem send_chunk_sizes:
  assumes "codec_ok chunk_fits cdc" and "chunk_size c \<noteq> 0" and "in_memory m"
    and "Chunker_send oc cdc deque_send c m = (c', Ok ())"
  shows "\<exists>xs bs. delegate c' = delegate c @ bs \<and> map (serialize cdc) xs = map Inr bs
           \<and> concat (map cd_data xs) = m
           \<and> (\<forall>x \<in> set xs. cd_group x = current_group c
                \<and> 0 < length (cd_data x) \<and> length (cd_data x) \<le> unat (chunk_size c))"
proof -
  let ?n = "unat (chunk_size c)"
  let ?xs = "make_chunks (current_group c) (slice_chunks ?n m)"
  have n: "0 < ?n" using assms(2) by (simp add: unat_gt_0)
  obtain bs where bs: "serialize_chunks cdc ?xs = Ok bs"
    using serialize_chunks_ok [OF assms(1)] make_chunks_fit(1) [OF n assms(3)] by blast
  then have "delegate c' = delegate c @ bs"
    using assms(2,4) send_each_deque [of "delegate c" bs]
    by (auto simp: Chunker_send_def Let_def split: res.splits)
  moreover have "map (serialize cdc) ?xs = map Inr bs" using bs by (rule serialize_chunks_map)
  moreover have "map cd_data ?xs = slice_chunks ?n m"
    by (rule nth_equalityI) (simp_all add: make_chunks_nth)
  then have "concat (map cd_data ?xs) = m" using concat_slice_chunks [OF n] by simp
  moreover have "\<forall>x \<in> set ?xs. cd_group x = current_group c
                \<and> 0 < length (cd_data x) \<and> length (cd_data x) \<le> ?n"
    using make_chunks_fit [OF n assms(3)] by (auto simp: make_chunks_nth)
  ultimately show ?thesis by blast
qed

theorem send_chunk_sizes_witness:
  "\<exists>c' xs bs. Chunker_send True chunk_layout deque_send (Chunker_new [] 3) [1, 2, 3, 4] = (c', Ok ())
     \<and> delegate c' = bs \<and> map (serialize chunk_layout) xs = map Inr bs
     \<and> concat (map cd_data xs) = [1, 2, 3, 4]
     \<and> (\<forall>x \<in> set xs. cd_group x = 0 \<and> 0 < length (cd_data x) \<and> length (cd_data x) \<le> 3)"
proof -
  let ?c = "Chunker_new [] 3"
  have "holds_messages chunk_layout (=) ?c []" by (rule fresh_holds) simp
  then obtain c' where c': "Chunker_send True chunk_layout deque_send ?c [1, 2, 3, 4] = (c', Ok ())"
    using deque_chunker.holds_send [of ?c "[]" True "[1, 2, 3, 4]" "[]"]
    by (auto simp: sendable_def in_memory_def Chunker_new_def)
  from send_chunk_sizes [OF chunk_layout_ok _ _ c'] c' show ?thesis
    by (simp add: Chunker_new_def in_memory_def)
qed

text \<open>
  C28 (termination). On the in-memory queue \<open>recv\<close> always comes to an end, whatever byte strings are
  in the queue, and it is exact what it ends with: a message \<open>m\<close> if and only if some of the byte
  strings at the front of the queue are chunks that are taken in without a panic and after which
  \<open>m\<close> is the first completed message. Otherwise - the queue runs empty, a byte string is no chunk,
  or \<open>add_chunk\<close> panics - it ends with a panic. It never returns an error.
\<close>

theorem recv_returns:
  "\<exists>c' r. Chunker_recv oc cdc deque_recv c = Some (c', r)
     \<and> (\<forall>m. r = Ok m \<longleftrightarrow> fetches oc cdc c m) \<and> (\<forall>e. r \<noteq> Err e)"
proof (induction "length (delegate c)" arbitrary: c rule: less_induct)
  case less
  show ?case
  proof (cases "completed_chunks c")
    case (Cons m ms)
    then show ?thesis
      by (subst Chunker_recv.simps) (auto simp: recv_step_def next_ready_chunk_def fetches_ready)
  next
    case Nil
    note step = recv_step_def next_ready_chunk_def deque_recv_def unwrap_result_def
    show ?thesis
    proof (cases "\<exists>b q x. delegate c = b # q \<and> deserialize cdc b = Inr x")
      case False
      then show ?thesis
        using Nil by (subst Chunker_recv.simps) (auto simp: step fetches_more split: list.splits sum.splits)
    next
      case True
      then obtain b q x where q: "delegate c = b # q" "deserialize cdc b = Inr x" by blast
      obtain c1 r where c1: "Chunker_add_chunk oc (c\<lparr>delegate := q\<rparr>) x = (c1, r)" by fastforce
      show ?thesis
      proof (cases r)
        case (Ok u)
        then have go: "recv_step oc cdc deque_recv c = Some (c1, None)" using Nil q c1 by (simp add: step)
        have "delegate c1 = q" using add_chunk_delegate [of oc "c\<lparr>delegate := q\<rparr>" x] c1 by simp
        then have "length (delegate c1) < length (delegate c)" using q by simp
        moreover have "fetches oc cdc c m \<longleftrightarrow> fetches oc cdc c1 m" for m
          using fetches_more [OF Nil] q c1 Ok by auto
        ultimately show ?thesis using less Chunker_recv_continue [OF go] by metis
      next
        case (Err e)
        then show ?thesis using add_chunk_no_Err [of oc "c\<lparr>delegate := q\<rparr>" x e] c1 by simp
      next
        case (Panic p)
        then have "recv_step oc cdc deque_recv c = Some (c1, Some (Panic p))"
          using Nil q c1 by (simp add: step)
        moreover have "\<not> fetches oc cdc c m" for m using fetches_more [OF Nil] q c1 Panic by auto
        ultimately show ?thesis by (subst Chunker_recv.simps) simp
      qed
    qed
  qed
qed

end
