(* ===== verification/Veq.thy ===== *)
theory Veq
  imports HandlerLink Discovery Fifo
begin

text \<open>
  \<open>src/src/veq.rs\<close>: the interface of the library. \<open>VeqSocket\<close> binds a socket, starts the two
  tasks that move datagrams between the socket and the handler, and connects; a connection is a
  \<open>VeqSession\<close>, a \<open>Chunker\<close> over a \<open>BidirectionalSession\<close>, which sends and receives through
  the handler. All clones share the handler, so a record that holds one holds its contents.
\<close>

section \<open>BidirectionalSession\<close>

record ('h, 's) bidirectional_session =
  bd_id :: session_id
  bd_one_time_id :: one_time_id
  bd_handler :: "('h, 's) handler"

definition BidirectionalSession_send ::
    "('b, 'h, 's) env \<Rightarrow> ('h, 's) bidirectional_session bidir_send" where
  "BidirectionalSession_send en d data =
     (case Handler_send en (bd_id d) data (bd_handler d) of
        (st, Ok _) \<Rightarrow> (d\<lparr>bd_handler := st\<rparr>, Ok ())
      | (st, Err _) \<Rightarrow> (d\<lparr>bd_handler := st\<rparr>, Err Disconnected)
      | (st, Panic x) \<Rightarrow> (d\<lparr>bd_handler := st\<rparr>, Panic x))"

text \<open>\<open>recv\<close>: the future is polled once; when it is pending the call waits, \<open>None\<close>. The
  identifier it draws and the waker of the caller are arguments.\<close>

definition BidirectionalSession_recv ::
    "uuid \<Rightarrow> waker \<Rightarrow> ('h, 's) bidirectional_session bidir_recv" where
  "BidirectionalSession_recv fresh w d =
     (case Handler_recv_from (bd_id d) fresh (bd_handler d) of
        (st, None) \<Rightarrow> Some (d\<lparr>bd_handler := st\<rparr>, Err Disconnected)
      | (st, Some (r, f)) \<Rightarrow>
          (case session_poll r f w st of
             (st1, Ready x) \<Rightarrow> Some (d\<lparr>bd_handler := st1\<rparr>, x)
           | (st1, Pending) \<Rightarrow> None))"

definition BidirectionalSession_drop ::
    "('h, 's) bidirectional_session \<Rightarrow> ('h, 's) handler" where
  "BidirectionalSession_drop d = close_session (bd_id d) (bd_one_time_id d) (bd_handler d)"

section \<open>VeqSession\<close>

record 't veq_session =
  vs_delegate :: 't
  vs_remote_addr :: socket_addr

type_synonym ('h, 's) veq_session_alias = "('h, 's) bidirectional_session chunker veq_session"

definition VeqSession_send :: "'t bidir_send \<Rightarrow> 't veq_session bidir_send" where
  "VeqSession_send dsend v data =
     (case dsend (vs_delegate v) data of (d, r) \<Rightarrow> (v\<lparr>vs_delegate := d\<rparr>, r))"

definition VeqSession_recv :: "'t bidir_recv \<Rightarrow> 't veq_session bidir_recv" where
  "VeqSession_recv drecv v =
     map_option (\<lambda>(d, r). (v\<lparr>vs_delegate := d\<rparr>, r)) (drecv (vs_delegate v))"

definition VeqSession_remote_addr :: "'t veq_session \<Rightarrow> socket_addr" where
  "VeqSession_remote_addr v = vs_remote_addr v"

section \<open>VeqSocket\<close>

record ('h, 's) veq_socket =
  sock_info :: connection_info
  sock_keypair :: snow_keypair
  sock_handler :: "('h, 's) handler"

text \<open>The two tasks of \<open>from_socket\<close>, with the socket they share. A panic ends the receiving
  task; nothing in the sending task can panic.\<close>

record ('k, 'h, 's) node =
  node_socket :: 'k
  node_handler :: "('h, 's) handler"
  receiving_runs :: bool

definition from_socket ::
    "'u udp \<Rightarrow> ('k, 'u) maybe_dual \<Rightarrow> 'u answers \<Rightarrow> 'k \<Rightarrow> snow_keypair \<Rightarrow>
       (('h, 's) veq_socket \<times> ('k, 'h, 's) node, setup_error) res" where
  "from_socket os md ans sock kp =
     (case question id (discover_ips os md ans sock) of
        Ok addrs \<Rightarrow>
          (let info = \<lparr>addresses = addrs, public_key = keypair_public kp\<rparr>;
               st = Handler_new kp
           in Ok (\<lparr>sock_info = info, sock_keypair = kp, sock_handler = st\<rparr>,
                  \<lparr>node_socket = sock, node_handler = st, receiving_runs = True\<rparr>))
      | Err e \<Rightarrow> Err e
      | Panic x \<Rightarrow> Panic x)"

text \<open>One turn of the receiving task: \<open>None\<close> while \<open>recv_from\<close> waits.\<close>

definition receive_turn ::
    "('b, 'h, 's) env \<Rightarrow> 'k bidir_socket \<Rightarrow> ('k, 'h, 's) node \<Rightarrow> ('k, 'h, 's) node option" where
  "receive_turn en ops nd =
     (if \<not> receiving_runs nd then None
      else case bs_recv_from ops (node_socket nd) (replicate 65536 0) of
             None \<Rightarrow> None
           | Some (k, buf, Inl _) \<Rightarrow> Some (nd\<lparr>node_socket := k\<rparr>)
           | Some (k, buf, Inr (len, src)) \<Rightarrow>
               (case slice_to buf len of
                  Ok data \<Rightarrow>
                    (case Handler_handle_incoming en src data (node_handler nd) of
                       (st, Panic _) \<Rightarrow>
                         Some (nd\<lparr>node_socket := k, node_handler := st, receiving_runs := False\<rparr>)
                     | (st, _) \<Rightarrow> Some (nd\<lparr>node_socket := k, node_handler := st\<rparr>))
                | Err (_ :: unit) \<Rightarrow> Some (nd\<lparr>node_socket := k\<rparr>)
                | Panic _ \<Rightarrow> Some (nd\<lparr>node_socket := k, receiving_runs := False\<rparr>)))"

text \<open>One turn of the sending task: \<open>None\<close> while the channel is empty. A failing \<open>set_ttl\<close> or
  \<open>send_to\<close> is only logged. (The channel cannot close, since the socket's handler sends on it.)\<close>

definition send_turn ::
    "('b, 'h, 's) env \<Rightarrow> 'k bidir_socket \<Rightarrow> ('k, 'h, 's) node \<Rightarrow> ('k, 'h, 's) node option" where
  "send_turn en ops nd =
     (case chan_queue (outgoing (rt (node_handler nd))) of
        [] \<Rightarrow> None
      | (dest, packet, n) # rest \<Rightarrow>
          (let st = (node_handler nd)\<lparr>rt := (rt (node_handler nd))\<lparr>outgoing :=
                      (outgoing (rt (node_handler nd)))\<lparr>chan_queue := rest\<rparr>\<rparr>\<rparr>
           in case serialize (packet_codec en) packet of
                Inl _ \<Rightarrow> Some (nd\<lparr>node_handler := st\<rparr>)
              | Inr serialized \<Rightarrow>
                  (let k1 = fst (bs_set_ttl ops (node_socket nd) n);
                       k2 = fst (bs_send_to ops k1 serialized dest)
                   in Some (nd\<lparr>node_socket := k2, node_handler := st\<rparr>))))"

definition bind_with_keypair ::
    "'u udp \<Rightarrow> 'u answers \<Rightarrow> string \<Rightarrow> snow_keypair \<Rightarrow>
       (('h, 's) veq_socket \<times> ('u versioned_socket, 'h, 's) node, setup_error) res" where
  "bind_with_keypair os ans addr kp =
     (case question FromIo (VersionedSocket_bind os addr) of
        Ok sock \<Rightarrow> from_socket os versioned_dual ans sock kp
      | Err e \<Rightarrow> Err e
      | Panic x \<Rightarrow> Panic x)"

text \<open>\<open>bind\<close> draws a key pair; \<open>seed\<close> is the randomness.\<close>

definition VeqSocket_bind ::
    "('b, 'h, 's) snow \<Rightarrow> bytes \<Rightarrow> 'u udp \<Rightarrow> 'u answers \<Rightarrow> string \<Rightarrow>
       (('h, 's) veq_socket \<times> ('u versioned_socket, 'h, 's) node, setup_error) res" where
  "VeqSocket_bind sn seed os ans addr =
     (case SnowKeypair_new sn seed of
        Ok kp \<Rightarrow>
          (case question FromIo (VersionedSocket_bind os addr) of
             Ok sock \<Rightarrow> from_socket os versioned_dual ans sock kp
           | Err e \<Rightarrow> Err e
           | Panic x \<Rightarrow> Panic x)
      | Err e \<Rightarrow> Err (FromKeys e)
      | Panic x \<Rightarrow> Panic x)"

definition dualstack_with_keypair ::
    "'u udp \<Rightarrow> 'u answers \<Rightarrow> socket_addr \<Rightarrow> socket_addr \<Rightarrow> snow_keypair \<Rightarrow>
       (('h, 's) veq_socket \<times> (('u versioned_socket, 'u versioned_socket) dual_socket, 'h, 's) node,
        setup_error) res" where
  "dualstack_with_keypair os ans a4 a6 kp =
     (case question FromIo (DualSocket_dualstack os a4 a6) of
        Ok sock \<Rightarrow> from_socket os (dual_maybe_dual versioned_dual) ans sock kp
      | Err e \<Rightarrow> Err e
      | Panic x \<Rightarrow> Panic x)"

text \<open>\<open>parse\<close> to an address of one family, from the parser for both.\<close>

definition parse_family :: "'u udp \<Rightarrow> bool \<Rightarrow> string \<Rightarrow> socket_addr option" where
  "parse_family os v4 s =
     (case parse_addr os s of Some a \<Rightarrow> if is_ipv4 a = v4 then Some a else None | None \<Rightarrow> None)"

definition VeqSocket_dualstack ::
    "('b, 'h, 's) snow \<Rightarrow> bytes \<Rightarrow> 'u udp \<Rightarrow> 'u answers \<Rightarrow> string \<Rightarrow> string \<Rightarrow>
       (('h, 's) veq_socket \<times> (('u versioned_socket, 'u versioned_socket) dual_socket, 'h, 's) node,
        setup_error) res" where
  "VeqSocket_dualstack sn seed os ans v4_addr v6_addr =
     (case SnowKeypair_new sn seed of
        Ok kp \<Rightarrow>
          (case (parse_family os True v4_addr, parse_family os False v6_addr) of
             (Some a4, Some a6) \<Rightarrow> dualstack_with_keypair os ans a4 a6 kp
           | _ \<Rightarrow> Err FromAddrParse)
      | Err e \<Rightarrow> Err (FromKeys e)
      | Panic x \<Rightarrow> Panic x)"

definition VeqSocket_connection_info :: "('h, 's) veq_socket \<Rightarrow> connection_info" where
  "VeqSocket_connection_info sock = sock_info sock"

definition is_initiator :: "('h, 's) veq_socket \<Rightarrow> connection_info \<Rightarrow> bool" where
  "is_initiator sock info \<longleftrightarrow> public_key (sock_info sock) < public_key info"

definition VeqSocket_keypair :: "('h, 's) veq_socket \<Rightarrow> snow_keypair" where
  "VeqSocket_keypair sock = sock_keypair sock"

subsection \<open>connect\<close>

text \<open>Up to the first \<open>await\<close> that can suspend: the future returned is then polled. \<open>fresh\<close> is
  the one-time identifier drawn.\<close>

definition connect_start ::
    "('b, 'h, 's) env \<Rightarrow> uuid \<Rightarrow> session_id \<Rightarrow> connection_info \<Rightarrow> ('h, 's) veq_socket \<Rightarrow>
       ('h, 's) veq_socket \<times> (session_ready, anyhow_error) res" where
  "connect_start en fresh sid info sock =
     (case (if is_initiator sock info then Handler_initiate en fresh sid info (sock_handler sock)
            else Handler_respond en fresh sid info (sock_handler sock)) of
        (st, Ok sr) \<Rightarrow> (sock\<lparr>sock_handler := st\<rparr>, Ok sr)
      | (st, Err e) \<Rightarrow> (sock\<lparr>sock_handler := st\<rparr>, Err (FromSnow e))
      | (st, Panic x) \<Rightarrow> (sock\<lparr>sock_handler := st\<rparr>, Panic x))"

text \<open>The rest of \<open>connect\<close>, once the future is ready.\<close>

definition connect_finish ::
    "session_id \<Rightarrow> one_time_id \<Rightarrow> ('h, 's) veq_socket \<Rightarrow> (('h, 's) veq_session_alias, anyhow_error) res" where
  "connect_finish sid otid sock =
     (case Handler_remote_addr sid (sock_handler sock) of
        None \<Rightarrow> Err (Anyhow ''Failed to get remote addr'')
      | Some addr \<Rightarrow>
          Ok \<lparr>vs_delegate = Chunker_new \<lparr>bd_id = sid, bd_one_time_id = otid,
                bd_handler = sock_handler sock\<rparr> 4096,
              vs_remote_addr = addr\<rparr>)"

text \<open>A poll of \<open>connect\<close>: a ready future is dropped before the rest runs.\<close>

definition connect_poll ::
    "waker \<Rightarrow> session_ready \<Rightarrow> ('h, 's) veq_socket \<Rightarrow>
       session_ready \<times> ('h, 's) veq_socket \<times> (('h, 's) veq_session_alias, anyhow_error) res poll" where
  "connect_poll w sr sock =
     (case SessionReady_poll w sr (sock_handler sock) of
        (sr1, st, Pending) \<Rightarrow> (sr1, sock\<lparr>sock_handler := st\<rparr>, Pending)
      | (sr1, st, Ready (sid, otid)) \<Rightarrow>
          (let sock1 = sock\<lparr>sock_handler := SessionReady_drop sr1 st\<rparr>
           in (sr1, sock1, Ready (connect_finish sid otid sock1))))"

section \<open>What the sending task makes of an item\<close>

definition item_datagram :: "('b, 'h, 's) env \<Rightarrow> outgoing_item \<Rightarrow> datagram option" where
  "item_datagram en it =
     (case it of (dest, p, _) \<Rightarrow>
        (case serialize (packet_codec en) p of Inl _ \<Rightarrow> None | Inr d \<Rightarrow> Some (d, dest)))"

end
