(* ===== verification/InOrder.thy ===== *)
theory InOrder
  imports Fifo
begin

text \<open>
  \<open>Chunker\<close> (\<open>src/src/transform.rs\<close>) behind a link that keeps the order but loses chunks, which
  is what an established session is: its replay window drops whatever comes late. A group that lost
  a chunk stays in the map until it is evicted as the oldest; the group that is being received is
  the newest and is never evicted. So exactly the messages all of whose chunks arrive are handed
  on, in order, however many are incomplete.
\<close>

section \<open>A message in the course of arriving\<close>

text \<open>Nothing is complete and all groups are older than \<open>g\<close>.\<close>

definition settled :: "u64 \<Rightarrow> 'd chunker \<Rightarrow> bool" where
  "settled g c \<longleftrightarrow>
     completed_chunks c = [] \<and> btm_invar (chunk_groups c) \<and> (\<forall>h \<in> dom (btm_get (chunk_groups c)). h < g)"

text \<open>The chunks \<open>K\<close> of the message \<open>m\<close>, sent as group \<open>g\<close> in pieces of \<open>n\<close> bytes, have arrived.\<close>

definition midway :: "nat \<Rightarrow> bytes \<Rightarrow> u64 \<Rightarrow> chunked_data list \<Rightarrow> 'd chunker \<Rightarrow> bool" where
  "midway n m g K c \<longleftrightarrow>
     completed_chunks c = [] \<and> btm_invar (chunk_groups c)
     \<and> (\<forall>h \<in> dom (btm_get (chunk_groups c)). h \<le> g)
     \<and> (if K = [] then btm_get (chunk_groups c) g = None
        else \<exists>grp. btm_get (chunk_groups c) g = Some grp \<and> group_inv n (\<lambda>_. m) (set K) g grp
               \<and> card (filled grp) = length K)"

lemma settled_midway:
  assumes "settled g c"
  shows "midway n m g [] c"
proof -
  have "g \<notin> dom (btm_get (chunk_groups c))" using assms by (auto simp only: settled_def)
  then show ?thesis using assms by (auto simp: settled_def midway_def domIff intro: less_imp_le)
qed

lemma midway_settled:
  assumes "midway n m g K c" and "g \<noteq> u64_max"
  shows "settled (g + 1) c"
proof -
  have "h < g + 1" if "h \<le> g" for h
    using that unat_plus_1 [OF assms(2)] by (simp add: word_le_nat_alt word_less_nat_alt)
  then show ?thesis using assms(1) by (simp add: settled_def midway_def)
qed

lemma evict_keeps_newest:
  assumes "btm_invar (chunk_groups c)" and "\<forall>h \<in> dom (btm_get (chunk_groups c)). h \<le> g"
    and "btm_get (chunk_groups c) g = Some grp"
  shows "btm_get (chunk_groups (evict_old_group c)) g = Some grp"
proof (rule ccontr)
  assume gone: "btm_get (chunk_groups (evict_old_group c)) g \<noteq> Some grp"
  then have many: "10 < length (chunk_groups c)"
    using assms(3) evict_few [of c] by (cases "10 < length (chunk_groups c)") simp_all
  have "btm_get (chunk_groups (evict_old_group c)) g = None"
    using gone evict_get [OF assms(1), of g] assms(3)
    by (cases "btm_get (chunk_groups (evict_old_group c)) g") simp_all
  then have "btm_get (snd (btm_pop_first (chunk_groups c))) g = None"
    using many by (simp add: evict_old_group_def)
  then have "\<forall>h \<in> dom (btm_get (chunk_groups c)). g \<le> h"
    using btm.pop_min [OF assms(1,3)] by blast
  then have "dom (btm_get (chunk_groups c)) \<subseteq> {g}" using assms(2) by force
  then have "card (dom (btm_get (chunk_groups c))) \<le> card {g}" by (rule card_mono [rotated]) simp
  then show False using btm.len_card [OF assms(1)] many by simp
qed

lemma evict_newest_dom:
  "btm_invar (chunk_groups c) \<Longrightarrow> dom (btm_get (chunk_groups (evict_old_group c))) \<subseteq> dom (btm_get (chunk_groups c))"
  using evict_get [of c] by blast

lemma midway_group:
  assumes "midway n m g K c" and "genuine n (\<lambda>_. m) x" and "cd_group x = g"
  shows "group_inv n (\<lambda>_. m) (set K) g (group_for c x)" and "card (filled (group_for c x)) = length K"
  using assms group_inv_new(1) [OF assms(2), of "set K"] group_inv_new(2) [OF assms(2)]
  by (auto simp: midway_def group_for_def split: if_splits)

lemma midway_step:
  assumes mid: "midway n m g K c" and gen: "genuine n (\<lambda>_. m) x" and g: "cd_group x = g" and new: "x \<notin> set K"
  shows "\<exists>c'. Chunker_add_chunk oc c x = (c', Ok ()) \<and> delegate c' = delegate c
    \<and> (if Suc (length K) = length (chunks_of n (\<lambda>_. m) g)
       then completed_chunks c' = [m] \<and> settled g (c'\<lparr>completed_chunks := []\<rparr>)
       else midway n m g (K @ [x]) c')"
proof -
  let ?L = "chunks_of n (\<lambda>_. m) g"
  note inv = midway_group(1) [OF mid gen g] and card = midway_group(2) [OF mid gen g]
  have mem: "0 < n" "in_memory m" using gen by (simp_all add: genuine_def)
  obtain grp where add: "ChunkGroup_add_chunk oc (group_for c x) x = (grp, Ok ())"
      and inv': "group_inv n (\<lambda>_. m) (insert x (set K)) g grp"
      and fill: "filled grp = insert (unat (cd_index x)) (filled (group_for c x))"
    using group_add [OF inv [folded g] gen new] g by blast
  obtain i where i: "?L ! i = x" "unat (cd_index x) = i" using gen g by (metis genuineE)
  then have "unat (cd_index x) \<notin> filled (group_for c x)" using inv new by (metis group_inv_def)
  then have size: "card (filled grp) = Suc (length K)" using fill card by simp
  then have complete: "ChunkGroup_is_complete grp \<longleftrightarrow> Suc (length K) = length ?L"
    using inv' by (simp add: group_inv_def ChunkGroup_is_complete_def word_unat_eq_iff)
  let ?c = "after_chunk (\<lambda>_. m) c g grp"
  have "Chunker_add_chunk oc c x = (evict_old_group ?c, Ok ())"
    using add_chunk_incomplete [OF add] add_chunk_collected [OF add] group_complete(1) [OF inv' mem(1)] mem(2) g
    by (simp add: after_chunk_def)
  moreover have srt: "btm_invar (chunk_groups c)" and old: "\<forall>h \<in> dom (btm_get (chunk_groups c)). h \<le> g"
      and empty: "completed_chunks c = []"
    using mid by (simp_all add: midway_def)
  note get = after_chunk_get [OF srt, of "\<lambda>_. m" g grp] and srt' = after_chunk_invar [OF srt, of "\<lambda>_. m" g grp]
  have old': "\<forall>h \<in> dom (btm_get (chunk_groups (evict_old_group ?c))). h \<le> g \<and> btm_get (chunk_groups ?c) h \<noteq> None"
    using old evict_newest_dom [OF srt'] by (force simp: get split: if_splits)
  have "if Suc (length K) = length ?L
       then completed_chunks (evict_old_group ?c) = [m] \<and> settled g ((evict_old_group ?c)\<lparr>completed_chunks := []\<rparr>)
       else midway n m g (K @ [x]) (evict_old_group ?c)"
  proof (cases "Suc (length K) = length ?L")
    case True
    then have "\<forall>h \<in> dom (btm_get (chunk_groups (evict_old_group ?c))). h < g"
      using old' complete by (force simp: get le_less split: if_splits)
    then show ?thesis
      using True complete empty evict_invar [OF srt'] by (simp add: settled_def frame_simps) (simp add: after_chunk_def)
  next
    case False
    then have "btm_get (chunk_groups (evict_old_group ?c)) g = Some grp"
      using evict_keeps_newest [OF srt'] old complete by (force simp: get split: if_splits)
    then show ?thesis
      using False complete empty evict_invar [OF srt'] old' inv' size
      by (simp add: midway_def frame_simps) (simp add: after_chunk_def)
  qed
  ultimately show ?thesis by (auto simp: frame_simps after_chunk_def)
qed

section \<open>The loop of recv\<close>

text \<open>Those of the messages whose chunks are all among the positions \<open>I\<close> that arrive.\<close>

fun arrived_messages :: "nat \<Rightarrow> nat set \<Rightarrow> bytes list \<Rightarrow> bytes list" where
  "arrived_messages n I [] = []"
| "arrived_messages n I (m # ms) =
     (if \<forall>i < length (slice_chunks n m). i \<in> I then [m] else [])
     @ arrived_messages n {i. i + length (slice_chunks n m) \<in> I} ms"

text \<open>When all positions arrive, so do all messages.\<close>

lemma arrived_all:
  "{i. i < length (all_chunks g n ms)} \<subseteq> I \<Longrightarrow> arrived_messages n I ms = ms"
proof (induction ms arbitrary: g I)
  case (Cons m ms)
  then have "{i. i < length (all_chunks (g + 1) n ms)} \<subseteq> {i. i + length (slice_chunks n m) \<in> I}"
    by auto
  with Cons show ?case by auto
qed simp

lemma arrived_append:
  "arrived_messages n I (ms @ ms') =
    arrived_messages n I ms @ arrived_messages n {i. i + length (all_chunks g n ms) \<in> I} ms'"
proof (induction ms arbitrary: g I)
  case (Cons m ms)
  show ?case
    using Cons.IH [of "{i. i + length (slice_chunks n m) \<in> I}" "g + 1"]
    by (simp add: add.assoc add.commute add.left_commute)
qed simp

lemma arrived_cong:
  "(\<And>i. i < length (all_chunks g n ms) \<Longrightarrow> i \<in> I \<longleftrightarrow> i \<in> J) \<Longrightarrow> arrived_messages n I ms = arrived_messages n J ms"
proof (induction ms arbitrary: g I J)
  case (Cons m ms)
  have "arrived_messages n {i. i + length (slice_chunks n m) \<in> I} ms
      = arrived_messages n {i. i + length (slice_chunks n m) \<in> J} ms"
    using Cons.prems by (intro Cons.IH [of "g + 1"]) simp
  then show ?case using Cons.prems by simp
qed simp

lemma nths_cong_below: "(\<And>i. i < length xs \<Longrightarrow> i \<in> I \<longleftrightarrow> i \<in> J) \<Longrightarrow> nths xs I = nths xs J"
  unfolding nths_def by (intro arg_cong [of _ _ "map fst"] filter_cong) (auto dest: set_zip_rightD)

lemma all_chunks_append:
  "all_chunks g n (ms @ ms') = all_chunks g n ms @ all_chunks (g + of_nat (length ms)) n ms'"
  by (induction ms arbitrary: g) (simp_all add: add.assoc)

text \<open>
  What is left when all that arrived before group \<open>g\<close> was received: the queue \<open>bs\<close> may still hold
  chunks of messages that are not complete.
\<close>

definition leftover :: "chunked_data codec \<Rightarrow> nat \<Rightarrow> u64 \<Rightarrow> bytes list \<Rightarrow> 'd chunker \<Rightarrow> bool" where
  "leftover cdc n g bs c \<longleftrightarrow>
     (\<exists>h ms I. settled h c \<and> g = h + of_nat (length ms) \<and> unat h + length ms < 2 ^ 64
        \<and> (\<forall>m \<in> set ms. m \<noteq> [] \<and> in_memory m)
        \<and> map (deserialize cdc) bs = map Inr (nths (all_chunks h n ms) I) \<and> arrived_messages n I ms = [])"

lemma settled_leftover: "settled g c \<Longrightarrow> leftover cdc n g [] c"
  unfolding leftover_def
  using unsigned_less [of g, where 'a = nat]
  by (intro exI [of _ g] exI [of _ "[]"] exI [of _ "{}"]) simp

lemma length_nths_full: "length (nths xs I) = length xs \<longleftrightarrow> (\<forall>i < length xs. i \<in> I)"
proof
  assume "length (nths xs I) = length xs"
  then have "card {i. i < length xs \<and> i \<in> I} = card {..< length xs}" by (simp add: length_nths)
  then have "{i. i < length xs \<and> i \<in> I} = {..< length xs}" by (intro card_subset_eq) auto
  then show "\<forall>i < length xs. i \<in> I" by blast
next
  assume "\<forall>i < length xs. i \<in> I"
  then have "{i. i < length xs \<and> i \<in> I} = {..< length xs}" by blast
  then show "length (nths xs I) = length xs" by (simp add: length_nths)
qed

lemma make_chunks_genuine:
  assumes "0 < n" and "in_memory m" and "x \<in> set (make_chunks g (slice_chunks n m))"
  shows "genuine n (\<lambda>_. m) x" and "cd_group x = g"
proof -
  show "cd_group x = g" using assms(3) by (auto simp: make_chunks_nth)
  then show "genuine n (\<lambda>_. m) x" using assms by (simp add: genuine_def chunks_of_def)
qed

context chunker_inbound
begin

text \<open>The rest \<open>R\<close> of what arrives of one message.\<close>

lemma recv_rest_of_message:
  assumes "0 < n" and "in_memory m" and "midway n m g K c"
    and "distinct (K @ R)" and "set R \<subseteq> set (make_chunks g (slice_chunks n m))"
    and "length K < length (slice_chunks n m)" and "length (K @ R) \<le> length (slice_chunks n m)"
    and "map (deserialize cdc) bs = map Inr R" and "rep (delegate c) (bs @ rest)"
  shows "\<exists>c'. rep (delegate c') rest \<and>
    (if length (K @ R) = length (slice_chunks n m)
     then Chunker_recv oc cdc recv c = Some (c', Ok m) \<and> settled g c'
     else Chunker_recv oc cdc recv c = Chunker_recv oc cdc recv c' \<and> midway n m g (K @ R) c')"
  using assms(3-)
proof (induction R arbitrary: K c bs)
  case Nil
  then show ?case by (intro exI [of _ c]) simp
next
  case (Cons x R)
  obtain b bs' where bs: "bs = b # bs'" "deserialize cdc b = Inr x" "map (deserialize cdc) bs' = map Inr R"
    using Cons.prems(6) by (cases bs) auto
  obtain d where d: "recv (delegate c) = Some (d, Ok b)" "rep d (bs' @ rest)"
    using recv_rep [of "delegate c" b "bs' @ rest"] Cons.prems(7) bs(1) by auto
  have x: "genuine n (\<lambda>_. m) x" "cd_group x = g" "x \<notin> set K"
    using make_chunks_genuine [OF assms(1,2)] Cons.prems(2,3) by auto
  have mid: "midway n m g K (c\<lparr>delegate := d\<rparr>)" using Cons.prems(1) by (simp add: midway_def)
  obtain c1 where c1: "Chunker_add_chunk oc (c\<lparr>delegate := d\<rparr>) x = (c1, Ok ())" "delegate c1 = d"
      "if Suc (length K) = length (chunks_of n (\<lambda>_. m) g)
       then completed_chunks c1 = [m] \<and> settled g (c1\<lparr>completed_chunks := []\<rparr>) else midway n m g (K @ [x]) c1"
    using midway_step [OF mid x, of oc] by auto
  have len: "length (chunks_of n (\<lambda>_. m) g) = length (slice_chunks n m)" by (simp add: chunks_of_def)
  have "completed_chunks c = []" using Cons.prems(1) by (simp add: midway_def)
  then have "recv_step oc cdc recv c = Some (c1, None)"
    using d(1) bs(2) c1(1) by (simp add: recv_step_def next_ready_chunk_def unwrap_result_def)
  note go = Chunker_recv_continue [OF this]
  show ?case
  proof (cases "Suc (length K) = length (slice_chunks n m)")
    case True
    then have "R = []" using Cons.prems(5) by (cases R) simp_all
    then show ?thesis
      using True c1(2,3) len d(2) bs(3) go Chunker_recv_ready [of c1 m "[]" oc cdc recv]
      by (intro exI [of _ "c1\<lparr>completed_chunks := []\<rparr>"]) simp
  next
    case False
    then show ?thesis
      using Cons.IH [of "K @ [x]" c1 bs'] c1(2,3) len d(2) bs(3) go Cons.prems
      by (simp cong: if_cong split del: if_split)
  qed
qed

lemma recv_lossy:
  assumes "0 < n" and "settled g c" and "unat g + length ms < 2 ^ 64"
    and "\<forall>m \<in> set ms. m \<noteq> [] \<and> in_memory m"
    and "map (deserialize cdc) bs = map Inr (nths (all_chunks g n ms) I)" and "rep (delegate c) bs"
    and blocks: "\<And>d. rep d [] \<Longrightarrow> recv d = None"
  shows "\<exists>c' bs'. recv_many (Chunker_recv oc cdc recv) (length (arrived_messages n I ms)) c
      = Some (c', arrived_messages n I ms) \<and> Chunker_recv oc cdc recv c' = None
    \<and> rep (delegate c') bs' \<and> leftover cdc n (g + of_nat (length ms)) bs' c'"
  using assms(2-6)
proof (induction ms arbitrary: g c bs I)
  case Nil
  then have "Chunker_recv oc cdc recv c = None"
    by (intro Chunker_recv_waits) (simp_all add: settled_def blocks)
  moreover have "bs = []" using Nil.prems(4) by simp
  ultimately show ?case using Nil.prems(1,5) by (auto intro: settled_leftover)
next
  case (Cons m ms)
  let ?L = "make_chunks g (slice_chunks n m)" and ?J = "{i. i + length (slice_chunks n m) \<in> I}"
  have m: "m \<noteq> []" "in_memory m" and g: "g \<noteq> u64_max" using Cons.prems(2,3) by auto
  obtain bs1 bs2 where bs: "bs = bs1 @ bs2" "map (deserialize cdc) bs1 = map Inr (nths ?L I)"
      "map (deserialize cdc) bs2 = map Inr (nths (all_chunks (g + 1) n ms) ?J)"
    using Cons.prems(4) by (auto simp: nths_append map_eq_append_conv)
  have "distinct ?L" using distinct_chunks_of [of n "\<lambda>_. m" g] assms(1) m(2) by (simp add: chunks_of_def)
  then have dist: "distinct ([] @ nths ?L I)" by (simp add: distinct_nthsI)
  have sub: "set (nths ?L I) \<subseteq> set ?L" by (rule set_nths_subset)
  have pos: "length [] < length (slice_chunks n m)" using m(1) assms(1) by simp
  have le: "length ([] @ nths ?L I) \<le> length (slice_chunks n m)"
    using length_nths [of ?L I] card_mono [of "{..< length ?L}" "{i. i < length ?L \<and> i \<in> I}"] by fastforce
  obtain c1 where c1: "rep (delegate c1) bs2"
      "if length (nths ?L I) = length (slice_chunks n m)
       then Chunker_recv oc cdc recv c = Some (c1, Ok m) \<and> settled g c1
       else Chunker_recv oc cdc recv c = Chunker_recv oc cdc recv c1 \<and> midway n m g (nths ?L I) c1"
    using recv_rest_of_message [OF assms(1) m(2) settled_midway [OF Cons.prems(1)] dist sub pos le bs(2)
        Cons.prems(5) [unfolded bs(1)]]
    unfolding append_Nil by blast
  have whole: "length (nths ?L I) = length (slice_chunks n m) \<longleftrightarrow> (\<forall>i < length (slice_chunks n m). i \<in> I)"
    using length_nths_full [of ?L I] by simp
  have "settled (g + 1) c1"
    using c1(2) midway_settled [OF _ g] midway_settled [OF settled_midway g] by (metis (full_types))
  moreover have "unat (g + 1) + length ms < 2 ^ 64" using Cons.prems(2) unat_plus_1 [OF g] by simp
  ultimately obtain c' bs' where IH:
      "recv_many (Chunker_recv oc cdc recv) (length (arrived_messages n ?J ms)) c1 = Some (c', arrived_messages n ?J ms)"
      "Chunker_recv oc cdc recv c' = None" "rep (delegate c') bs'"
      "leftover cdc n (g + 1 + of_nat (length ms)) bs' c'"
    using Cons.IH [of "g + 1" c1 bs2 ?J] Cons.prems(3) bs(3) c1(1) by auto
  show ?case
  proof (cases "length (nths ?L I) = length (slice_chunks n m)")
    case True
    then show ?thesis
      using IH c1(2) whole by (intro exI [of _ c'] exI [of _ bs']) (simp add: add.assoc)
  next
    case False
    then have eq: "Chunker_recv oc cdc recv c = Chunker_recv oc cdc recv c1"
      and none: "arrived_messages n I (m # ms) = arrived_messages n ?J ms"
      using c1(2) whole by auto
    show ?thesis
    proof (cases "arrived_messages n ?J ms")
      case Nil
      then have "leftover cdc n (g + of_nat (length (m # ms))) bs c"
        using Cons.prems none unfolding leftover_def
        by (intro exI [of _ g] exI [of _ "m # ms"] exI [of _ I]) simp
      then show ?thesis
        using Nil IH(1,2) eq Cons.prems(5) unfolding none by (intro exI [of _ c] exI [of _ bs]) simp
    next
      case (Cons x xs)
      then show ?thesis
        unfolding none using IH eq by (intro exI [of _ c'] exI [of _ bs']) (simp add: add.assoc)
    qed
  qed
qed

text \<open>The same from a state with something left over.\<close>

lemma recv_after_leftover:
  assumes "0 < n" and "leftover cdc n g bs0 c" and "unat g + length ms < 2 ^ 64"
    and "\<forall>m \<in> set ms. m \<noteq> [] \<and> in_memory m"
    and "map (deserialize cdc) bs = map Inr (nths (all_chunks g n ms) I)" and "rep (delegate c) (bs0 @ bs)"
    and blocks: "\<And>d. rep d [] \<Longrightarrow> recv d = None"
  shows "\<exists>c' bs'. recv_many (Chunker_recv oc cdc recv) (length (arrived_messages n I ms)) c
      = Some (c', arrived_messages n I ms) \<and> Chunker_recv oc cdc recv c' = None
    \<and> rep (delegate c') bs' \<and> leftover cdc n (g + of_nat (length ms)) bs' c'"
proof -
  obtain h ms0 J where old: "settled h c" "g = h + of_nat (length ms0)" "unat h + length ms0 < 2 ^ 64"
      "\<forall>m \<in> set ms0. m \<noteq> [] \<and> in_memory m"
      "map (deserialize cdc) bs0 = map Inr (nths (all_chunks h n ms0) J)" "arrived_messages n J ms0 = []"
    using assms(2) unfolding leftover_def by blast
  let ?N = "length (all_chunks h n ms0)"
  let ?I = "{i \<in> J. i < ?N} \<union> (\<lambda>i. i + ?N) ` I"
  have "unat g = unat h + length ms0" using old(2,3) by (simp add: unat_word_ariths unat_of_nat)
  then have room: "unat h + length (ms0 @ ms) < 2 ^ 64" using assms(3) by simp
  have shift: "{i. i + ?N \<in> ?I} = I" by auto
  have "arrived_messages n ?I ms0 = arrived_messages n J ms0" by (rule arrived_cong [of h]) auto
  then have got: "arrived_messages n ?I (ms0 @ ms) = arrived_messages n I ms"
    unfolding arrived_append [of n ?I ms0 ms h] shift by (simp only: old(6) append_Nil)
  have "nths (all_chunks h n ms0) ?I = nths (all_chunks h n ms0) J" by (rule nths_cong_below) auto
  then have "map (deserialize cdc) (bs0 @ bs) = map Inr (nths (all_chunks h n (ms0 @ ms)) ?I)"
    unfolding all_chunks_append nths_append shift using old(2,5) assms(5) by simp
  from recv_lossy [OF assms(1) old(1) room _ this assms(6) blocks]
  show ?thesis using old(2,4) assms(4) unfolding got by (simp add: add.assoc ball_Un)
qed

end

end
