(* ===== verification/VeqEnds.thy ===== *)
theory VeqEnds
  imports Veq InOrder
begin

text \<open>
  The two ends of a connection (\<open>VeqSession\<close> of \<open>src/src/veq.rs\<close> over the chunker, the handler and the
  session): what it takes to send and to receive, that the session keeps the two halves of the
  contract in \<open>Fifo\<close>, and what sending and receiving leave as it was, so that the two directions do
  not disturb each other.
\<close>

section \<open>The sending end\<close>

text \<open>An item of the outgoing channel that carries the payload \<open>x\<close> to \<open>addr\<close>.\<close>

definition item_bears ::
    "('b, 'h, 's) env \<Rightarrow> 's \<Rightarrow> session_id \<Rightarrow> socket_addr \<Rightarrow> u64 \<Rightarrow> bytes \<Rightarrow> outgoing_item \<Rightarrow> bool" where
  "item_bears en b i addr k x it \<longleftrightarrow>
     (\<exists>p d. it = (addr, p, 64) \<and> serialize (packet_codec en) p = Inr d
        \<and> wire_message en b i k (Payload x) d \<and> length d \<le> length x + 88)"

text \<open>The session after \<open>n\<close> messages: its nonce has moved on.\<close>

definition advance :: "nat \<Rightarrow> 's session \<Rightarrow> 's session" where
  "advance n s = s\<lparr>transport := (transport s)\<lparr>next_nonce := next_nonce (transport s) + of_nat n\<rparr>\<rparr>"

text \<open>The strings \<open>xs\<close> were handed to the session since it was \<open>s\<close> and its channel held \<open>q\<close>.\<close>

definition has_sent ::
    "('b, 'h, 's) env \<Rightarrow> 's \<Rightarrow> session_id \<Rightarrow> 's session \<Rightarrow> one_time_id \<Rightarrow> nat \<Rightarrow> outgoing_item list \<Rightarrow>
       ('h, 's) bidirectional_session \<Rightarrow> bytes list \<Rightarrow> bool" where
  "has_sent en b i s n r q d xs \<longleftrightarrow>
     bd_id d = i \<and> bd_one_time_id d = n \<and> established_at i (advance (length xs) s) n r (bd_handler d)
     \<and> unat (next_nonce (transport s)) + length xs < 2 ^ 64
     \<and> chan_open (outgoing (rt (bd_handler d)))
     \<and> (\<exists>its. chan_queue (outgoing (rt (bd_handler d))) = q @ its \<and> length its = length xs
          \<and> borne_from (item_bears en b i (remote_addr s)) (next_nonce (transport s)) (zip xs its))"

definition session_of :: "session_id \<Rightarrow> ('h, 's) handler \<Rightarrow> 's session option" where
  "session_of i st = Option.bind (established st i) (\<lambda>(_, r). sessions st r)"

definition may_send :: "('h, 's) bidirectional_session \<Rightarrow> bytes list \<Rightarrow> bool" where
  "may_send d xs \<longleftrightarrow>
     (\<exists>s. session_of (bd_id d) (bd_handler d) = Some s
        \<and> unat (next_nonce (transport s)) + length xs < 2 ^ 64 \<and> (\<forall>x \<in> set xs. length x \<le> 65491))"

lemma session_of_established: "established_at i s n r st \<Longrightarrow> session_of i st = Some s"
  by (simp add: session_of_def established_at_def)

lemma borne_from_snoc:
  "borne_from P k xs \<Longrightarrow> unat k + length xs < 2 ^ 64 - 1 \<Longrightarrow> P (k + of_nat (length xs)) (fst x) (snd x) \<Longrightarrow>
     borne_from P k (xs @ [x])"
proof (induction xs arbitrary: k)
  case Nil
  then show ?case by (cases x) auto
next
  case (Cons y ys)
  obtain m p where "y = (m, p)" by (cases y)
  with Cons.prems have y: "P k m p" "k \<noteq> u64_max" "borne_from P (k + 1) ys" "y = (m, p)" by auto
  have "unat (k + 1) + length ys < 2 ^ 64 - 1" using Cons.prems(2) unat_plus_1 [OF y(2)] by simp
  moreover have "P (k + 1 + of_nat (length ys)) (fst x) (snd x)"
    using Cons.prems(3) by (simp add: add.assoc)
  ultimately have "borne_from P (k + 1) (ys @ [x])" by (rule Cons.IH [OF y(3)])
  then show ?case using y by simp
qed

lemma session_outbound:
  assumes "handler_codecs en" and s: "\<not> dead s" "sess_id s = i"
    and pair: "noise_pair (snow_of en) (stateless (transport s)) b"
  shows "outbound_channel (BidirectionalSession_send en) (has_sent en b i s n r q) may_send"
proof
  fix d :: "('b, 'c) bidirectional_session" and xs ys :: "bytes list" and x
  let ?s = "advance (length xs) s" and ?k = "next_nonce (transport s)"
  let ?k' = "?k + of_nat (length xs)"
  assume "has_sent en b i s n r q d xs" and may: "may_send d (x # ys)"
  then obtain its where est: "established_at i ?s n r (bd_handler d)" and id: "bd_id d = i" and once: "bd_one_time_id d = n"
    and ch: "chan_open (outgoing (rt (bd_handler d)))"
      "chan_queue (outgoing (rt (bd_handler d))) = q @ its" "length its = length xs"
    and k: "unat ?k + length xs < 2 ^ 64"
    and borne: "borne_from (item_bears en b i (remote_addr s)) ?k (zip xs its)"
    unfolding has_sent_def by blast
  have k': "unat ?k' = unat ?k + length xs" using k by (simp add: unat_word_ariths unat_of_nat)
  have cur: "next_nonce (transport ?s) = ?k'" "\<not> dead ?s" "sess_id ?s = i" "remote_addr ?s = remote_addr s"
      "noise_pair (snow_of en) (stateless (transport ?s)) b"
    using s pair by (simp_all add: advance_def)
  have room: "unat ?k' + length (x # ys) < 2 ^ 64" "length x \<le> 65491" "\<forall>y \<in> set ys. length y \<le> 65491"
    using may id session_of_established [OF est] cur(1) by (auto simp: may_send_def)
  then have nonce: "next_nonce (transport ?s) \<noteq> u64_max" using cur(1) by auto
  obtain st p w where st: "Handler_send en i x (bd_handler d) = (st, Ok ())"
      "serialize (packet_codec en) p = Inr w"
      "wire_message en b i (next_nonce (transport ?s)) (Payload x) w" "length w \<le> length x + 88"
      "outgoing (rt st) = (outgoing (rt (bd_handler d)))\<lparr>chan_queue :=
         chan_queue (outgoing (rt (bd_handler d))) @ [(remote_addr ?s, p, 64)]\<rparr>"
      "established_at i (?s\<lparr>transport := (transport ?s)\<lparr>next_nonce := next_nonce (transport ?s) + 1\<rparr>\<rparr>) n r st"
    by (rule handler_sends [OF assms(1) est cur(2,3,5) nonce room(2) ch(1)])
  have onward: "?s\<lparr>transport := (transport ?s)\<lparr>next_nonce := next_nonce (transport ?s) + 1\<rparr>\<rparr>
      = advance (length (xs @ [x])) s"
    by (simp add: advance_def algebra_simps)
  have "item_bears en b i (remote_addr s) ?k' x (remote_addr s, p, 64)"
    using st(2-4) cur(1) by (auto simp: item_bears_def)
  then have "borne_from (item_bears en b i (remote_addr s)) ?k (zip (xs @ [x]) (its @ [(remote_addr s, p, 64)]))"
    using borne_from_snoc [OF borne, of "(x, remote_addr s, p, 64)"] ch(3) k' room(1) by simp
  then have "has_sent en b i s n r q (d\<lparr>bd_handler := st\<rparr>) (xs @ [x])"
    unfolding has_sent_def
    using st(5,6) id once ch k' room(1) cur(4) unfolding onward by auto
  moreover have "may_send (d\<lparr>bd_handler := st\<rparr>) ys"
    using room session_of_established [OF st(6)] id unat_plus_1 [OF nonce] cur(1) by (simp add: may_send_def)
  moreover have "BidirectionalSession_send en d x = (d\<lparr>bd_handler := st\<rparr>, Ok ())"
    using st(1) id by (simp add: BidirectionalSession_send_def)
  ultimately show "\<exists>d'. BidirectionalSession_send en d x = (d', Ok ())
      \<and> has_sent en b i s n r q d' (xs @ [x]) \<and> may_send d' ys"
    by blast
qed

section \<open>The receiving end\<close>

text \<open>The session \<open>s\<close> but for its queue, which is \<open>xs\<close>, and those who wait for it.\<close>

definition has_queued ::
    "session_id \<Rightarrow> 's session \<Rightarrow> one_time_id \<Rightarrow> nat \<Rightarrow> runtime \<Rightarrow>
       ('h, 's) bidirectional_session \<Rightarrow> bytes list \<Rightarrow> bool" where
  "has_queued i s n r rt0 d xs \<longleftrightarrow>
     bd_id d = i \<and> bd_one_time_id d = n \<and> rt (bd_handler d) = rt0 \<and> \<not> dead s
     \<and> (\<exists>ws. established_at i (s\<lparr>messages := xs, wakers := ws\<rparr>) n r (bd_handler d))"

interpretation session_inbound:
  inbound_channel "BidirectionalSession_recv fresh w" "has_queued i s n r rt0" for fresh w i s n r rt0
proof
  fix d :: "('a, 'b) bidirectional_session" and x xs
  assume "has_queued i s n r rt0 d (x # xs)"
  then obtain ws where d: "bd_id d = i" "bd_one_time_id d = n" "rt (bd_handler d) = rt0" "\<not> dead s"
      "established_at i (s\<lparr>messages := x # xs, wakers := ws\<rparr>) n r (bd_handler d)"
    by (auto simp: has_queued_def)
  let ?s = "s\<lparr>messages := xs, wakers := btm_remove fresh ws\<rparr>"
  let ?d = "d\<lparr>bd_handler := (bd_handler d)\<lparr>sessions := (sessions (bd_handler d))(r \<mapsto> ?s)\<rparr>\<rparr>"
  have "BidirectionalSession_recv fresh w d = Some (?d, Ok x)"
    using d by (simp add: BidirectionalSession_recv_def Handler_recv_from_def established_at_def
        Session_is_dead_def Session_recv_def session_poll_def)
  moreover have "has_queued i s n r rt0 ?d xs"
    using d by (auto simp: has_queued_def established_at_def)
  ultimately show "\<exists>d'. BidirectionalSession_recv fresh w d = Some (d', Ok x) \<and> has_queued i s n r rt0 d' xs"
    by blast
qed

lemma session_recv_blocks: "has_queued i s n r rt0 d [] \<Longrightarrow> BidirectionalSession_recv fresh w d = None"
  by (auto simp: has_queued_def BidirectionalSession_recv_def Handler_recv_from_def established_at_def
      Session_is_dead_def Session_recv_def session_poll_def)

interpretation session_chunks_in:
  chunker_inbound "BidirectionalSession_recv fresh w" "has_queued i s n r rt0" oc cdc
  for fresh w i s n r rt0 oc cdc
  by unfold_locales

section \<open>In between\<close>

text \<open>The receiving handler takes in datagrams one after the other.\<close>

definition take_in :: "('b, 'h, 's) env \<Rightarrow> socket_addr \<Rightarrow> bytes \<Rightarrow> ('h, 's) handler \<Rightarrow> ('h, 's) handler" where
  "take_in en src d st = fst (Handler_handle_incoming en src d st)"

definition expects :: "'s \<Rightarrow> session_id \<Rightarrow> u64 \<Rightarrow> ('h, 's) handler \<Rightarrow> bool" where
  "expects b i k st \<longleftrightarrow>
     (\<exists>t n r. established_at i t n r st \<and> \<not> dead t \<and> fresh_below b k (transport t))"

definition queued_of :: "session_id \<Rightarrow> ('h, 's) handler \<Rightarrow> bytes list" where
  "queued_of i st = (case session_of i st of None \<Rightarrow> [] | Some s \<Rightarrow> messages s)"

text \<open>Everything before the number \<open>k\<close> is out of date.\<close>

definition beyond :: "'s \<Rightarrow> session_id \<Rightarrow> u64 \<Rightarrow> ('h, 's) handler \<Rightarrow> bool" where
  "beyond b i k st \<longleftrightarrow>
     (\<exists>t n r. established_at i t n r st \<and> \<not> dead t \<and> read_up_to b k (transport t))"

interpretation handler_link: ordered_link
  "\<lambda>k x d. wire_message en b i k (Payload x) d" "expects b i" "take_in en src" "queued_of i"
  "\<lambda>x xs. xs @ [x]" "beyond b i" for en b i src
proof
  fix k j x d and st :: "('b, 'c) handler"
  show "expects b i k st" if "beyond b i k st" using that by (auto simp: beyond_def expects_def)
  show "take_in en src d st = st" if "beyond b i k st" "j < k" "wire_message en b i j (Payload x) d"
    using that established_late by (fastforce simp: beyond_def take_in_def)
  assume st: "expects b i k st" and k: "k \<noteq> u64_max"
  then obtain t n r where t: "established_at i t n r st" "\<not> dead t" "fresh_below b k (transport t)"
    by (auto simp: expects_def)
  show "expects b i (k + 1) st"
    using t fresh_below_Suc [OF t(3) k] by (auto simp: expects_def)
  assume "wire_message en b i k (Payload x) d"
  then obtain st1 lt where st1: "Handler_handle_incoming en src d st = (st1, Ok ())"
      "established_at i (fst (taken_in (Payload x) lt t)) n r st1" "read_up_to b (k + 1) lt"
    by (rule established_receives [OF t(1,3) k])
  show later: "beyond b i (k + 1) (take_in en src d st)"
    using t(2) st1 unfolding beyond_def take_in_def
    by (intro exI [of _ "fst (taken_in (Payload x) lt t)"] exI [of _ n] exI [of _ r]) (simp add: taken_in_def)
  then show "expects b i (k + 1) (take_in en src d st)" by (auto simp: beyond_def expects_def)
  show "queued_of i (take_in en src d st) = queued_of i st @ [x]"
    using st1(1) session_of_established [OF st1(2)] session_of_established [OF t(1)]
    by (simp add: take_in_def queued_of_def taken_in_def)
qed

section \<open>An end of a connection\<close>

definition veq_handler :: "('h, 's) veq_session_alias \<Rightarrow> ('h, 's) handler" where
  "veq_handler v = bd_handler (delegate (vs_delegate v))"

definition with_handler :: "('h, 's) handler \<Rightarrow> ('h, 's) veq_session_alias \<Rightarrow> ('h, 's) veq_session_alias" where
  "with_handler st v =
     v\<lparr>vs_delegate := (vs_delegate v)\<lparr>delegate := (delegate (vs_delegate v))\<lparr>bd_handler := st\<rparr>\<rparr>\<rparr>"

text \<open>What is needed to send to the holder of the cipher \<open>b\<close>, the next nonce being \<open>k\<close>.\<close>

definition can_send ::
    "('b, 'h, 's) env \<Rightarrow> 's \<Rightarrow> session_id \<Rightarrow> u64 \<Rightarrow> ('h, 's) veq_session_alias \<Rightarrow> bool" where
  "can_send en b i k v \<longleftrightarrow>
     (\<exists>s n r. established_at i s n r (veq_handler v) \<and> can_transmit en s \<and> heartbeat_runs s \<and> sess_id s = i
        \<and> bd_one_time_id (delegate (vs_delegate v)) = n
        \<and> remote_addr s = vs_remote_addr v \<and> noise_pair (snow_of en) (stateless (transport s)) b
        \<and> next_nonce (transport s) = k)
     \<and> chan_open (outgoing (rt (veq_handler v)))
     \<and> bd_id (delegate (vs_delegate v)) = i \<and> chunk_size (vs_delegate v) = 4096"

text \<open>What is needed to receive what comes under the nonces from \<open>k\<close> and in the groups from \<open>g\<close>.\<close>

definition can_receive ::
    "chunked_data codec \<Rightarrow> 's \<Rightarrow> session_id \<Rightarrow> u64 \<Rightarrow> u64 \<Rightarrow> ('h, 's) veq_session_alias \<Rightarrow> bool" where
  "can_receive cdc b i k g v \<longleftrightarrow>
     (\<exists>t n r. established_at i t n r (veq_handler v) \<and> \<not> dead t \<and> fresh_below b k (transport t)
        \<and> bd_one_time_id (delegate (vs_delegate v)) = n \<and> leftover cdc 4096 g (messages t) (vs_delegate v))
     \<and> bd_id (delegate (vs_delegate v)) = i"

text \<open>Two ends of one connection, the first about to send under the nonce \<open>k\<close>.\<close>

definition connected_ends ::
    "('b, 'h, 's) env \<Rightarrow> chunked_data codec \<Rightarrow> session_id \<Rightarrow> u64 \<Rightarrow>
       ('h, 's) veq_session_alias \<Rightarrow> ('h, 's) veq_session_alias \<Rightarrow> bool" where
  "connected_ends en cdc i k va vb \<longleftrightarrow>
     (\<exists>b. can_send en b i k va \<and> can_receive cdc b i k (current_group (vs_delegate va)) vb)"

lemma established_at_unique:
  "established_at i s n r st \<Longrightarrow> established_at i t m z st \<Longrightarrow> t = s \<and> m = n \<and> z = r"
  by (simp add: established_at_def)

lemma leftover_cong:
  "chunk_groups c' = chunk_groups c \<Longrightarrow> completed_chunks c' = completed_chunks c \<Longrightarrow>
     leftover cdc n g bs c' = leftover cdc n g bs c"
  by (simp add: leftover_def settled_def)

lemma with_handler_once [simp]:
  "bd_one_time_id (delegate (vs_delegate (with_handler st v))) = bd_one_time_id (delegate (vs_delegate v))"
  by (simp add: with_handler_def)

lemma with_handler_sel [simp]:
  "veq_handler (with_handler st v) = st" "bd_id (delegate (vs_delegate (with_handler st v))) = bd_id (delegate (vs_delegate v))"
  "chunk_size (vs_delegate (with_handler st v)) = chunk_size (vs_delegate v)"
  "current_group (vs_delegate (with_handler st v)) = current_group (vs_delegate v)"
  "chunk_groups (vs_delegate (with_handler st v)) = chunk_groups (vs_delegate v)"
  "completed_chunks (vs_delegate (with_handler st v)) = completed_chunks (vs_delegate v)"
  "vs_remote_addr (with_handler st v) = vs_remote_addr v"
  by (simp_all add: with_handler_def veq_handler_def)

text \<open>Three numbers, a length and the bytes.\<close>

definition chunk_sizes :: "chunked_data codec \<Rightarrow> bool" where
  "chunk_sizes cdc \<longleftrightarrow> (\<forall>x out. serialize cdc x = Inr out \<longrightarrow> length out = length (cd_data x) + 32)"

lemma send_each_VeqSession:
  "send_each (VeqSession_send f) v xs =
     (v\<lparr>vs_delegate := fst (send_each f (vs_delegate v) xs)\<rparr>, snd (send_each f (vs_delegate v) xs))"
  by (induction xs arbitrary: v)
    (simp_all add: VeqSession_send_def split: prod.split res.split)

lemma recv_many_VeqSession:
  "recv_many f n (vs_delegate v) = Some (d, xs) \<Longrightarrow>
     recv_many (VeqSession_recv f) n v = Some (v\<lparr>vs_delegate := d\<rparr>, xs)"
proof (induction n arbitrary: v xs)
  case (Suc n)
  then obtain d1 b ys where "f (vs_delegate v) = Some (d1, Ok b)" "recv_many f n d1 = Some (d, ys)"
      "xs = b # ys"
    by (auto split: option.splits res.splits prod.splits)
  then show ?case using Suc.IH [of "v\<lparr>vs_delegate := d1\<rparr>" ys] by (simp add: VeqSession_recv_def)
qed simp

lemma serialize_chunks_length:
  "serialize_chunks cdc xs = Ok bs \<Longrightarrow> length bs = length xs"
  using serialize_chunks_map by (metis length_map)

lemma serialize_chunks_sizes:
  assumes "serialize_chunks cdc xs = Ok bs" and "chunk_sizes cdc" and "\<forall>x \<in> set xs. length (cd_data x) \<le> n"
  shows "\<forall>b \<in> set bs. length b \<le> n + 32"
proof
  fix b assume "b \<in> set bs"
  then have "Inr b \<in> set (map (serialize cdc) xs)"
    using serialize_chunks_map [OF assms(1)] by (simp only: set_map image_eqI)
  then show "length b \<le> n + 32" using assms(2,3) by (force simp: chunk_sizes_def)
qed

section \<open>Sending\<close>

lemma end_sendable:
  assumes "can_send en b i k v" and "chunk_sizes cdc"
    and ms: "\<forall>m \<in> set ms. m \<noteq> [] \<and> in_memory m"
    and "unat (current_group (vs_delegate v)) + length ms < 2 ^ 64"
    and "unat k + length (all_chunks (current_group (vs_delegate v)) 4096 ms) < 2 ^ 64"
  shows "sendable oc cdc may_send (vs_delegate v) ms"
  unfolding sendable_def
proof (intro conjI allI impI ms assms(4))
  obtain s n r where s: "established_at i s n r (veq_handler v)" "next_nonce (transport s) = k"
      and c: "bd_id (delegate (vs_delegate v)) = i" "chunk_size (vs_delegate v) = 4096"
    using assms(1) unfolding can_send_def by blast
  fix bs
  assume "serialize_chunks cdc (all_chunks (current_group (vs_delegate v))
    (unat (chunk_size (vs_delegate v))) ms) = Ok bs"
  then have bs: "serialize_chunks cdc (all_chunks (current_group (vs_delegate v)) 4096 ms) = Ok bs"
    by (simp add: c)
  moreover have "\<forall>x \<in> set (all_chunks (current_group (vs_delegate v)) 4096 ms). length (cd_data x) \<le> 4096"
    using all_chunks_fit [of 4096 ms] ms by auto
  ultimately have "\<forall>b \<in> set bs. length b \<le> 4096 + 32"
    using serialize_chunks_sizes assms(2) by blast
  then show "may_send (delegate (vs_delegate v)) bs"
    using session_of_established [OF s(1)] s(2) c(1) assms(5) serialize_chunks_length [OF bs]
    by (force simp: may_send_def veq_handler_def)
qed

lemma items_datagrams:
  "borne_from (item_bears en b i addr) k (zip xs its) \<Longrightarrow> length its = length xs \<Longrightarrow>
     \<exists>ds. map (item_datagram en) its = map (\<lambda>d. Some (d, addr)) ds \<and> length ds = length xs
       \<and> borne_from (\<lambda>k x d. wire_message en b i k (Payload x) d) k (zip xs ds)
       \<and> list_all2 (\<lambda>x d. length d \<le> length x + 88) xs ds"
proof (induction xs arbitrary: its k)
  case (Cons x xs)
  obtain it its1 where split: "its = it # its1" using Cons.prems(2) by (cases its) auto
  then have "item_bears en b i addr k x it" and rest: "k \<noteq> u64_max"
      "borne_from (item_bears en b i addr) (k + 1) (zip xs its1)" "length its1 = length xs"
    using Cons.prems by auto
  then obtain p d where it: "it = (addr, p, 64)" "serialize (packet_codec en) p = Inr d"
      "wire_message en b i k (Payload x) d" "length d \<le> length x + 88"
    by (auto simp: item_bears_def)
  obtain ds where "map (item_datagram en) its1 = map (\<lambda>d. Some (d, addr)) ds" "length ds = length xs"
      "borne_from (\<lambda>k x d. wire_message en b i k (Payload x) d) (k + 1) (zip xs ds)"
      "list_all2 (\<lambda>x d. length d \<le> length x + 88) xs ds"
    using Cons.IH [OF rest(2,3)] by blast
  moreover have "item_datagram en it = Some (d, addr)" using it by (simp add: item_datagram_def)
  ultimately show ?case using split it(3,4) rest(1) by (intro exI [of _ "d # ds"]) simp
qed simp

text \<open>The datagrams \<open>ds\<close> carry the chunks of the messages \<open>ms\<close> under the nonces from \<open>k\<close>.\<close>

definition carry_messages ::
    "('b, 'h, 's) env \<Rightarrow> chunked_data codec \<Rightarrow> 's \<Rightarrow> session_id \<Rightarrow> u64 \<Rightarrow> u64 \<Rightarrow> bytes list \<Rightarrow> bytes list \<Rightarrow> bool" where
  "carry_messages en cdc b i k g ms ds \<longleftrightarrow>
     (\<exists>bs. map (deserialize cdc) bs = map Inr (all_chunks g 4096 ms) \<and> length ds = length bs
        \<and> borne_from (\<lambda>k x d. wire_message en b i k (Payload x) d) k (zip bs ds))"

lemma carry_messages_length: "carry_messages en cdc b i k g ms ds \<Longrightarrow> length ds = length (all_chunks g 4096 ms)"
  unfolding carry_messages_def by (metis length_map)

lemma end_sends_items:
  assumes "handler_codecs en" and "codec_ok chunk_fits cdc" and "chunk_sizes cdc"
    and v: "can_send en b i k v" "established_at i s n r (veq_handler v)"
    and ms: "\<forall>m \<in> set ms. m \<noteq> [] \<and> in_memory m"
      "unat (current_group (vs_delegate v)) + length ms < 2 ^ 64"
      "unat k + length (all_chunks (current_group (vs_delegate v)) 4096 ms) < 2 ^ 64"
  obtains d bs where
    "send_each (VeqSession_send (Chunker_send oc cdc (BidirectionalSession_send en))) v ms =
      (v\<lparr>vs_delegate := (vs_delegate v)\<lparr>current_group := current_group (vs_delegate v) + of_nat (length ms),
         delegate := d\<rparr>\<rparr>, Ok ())"
    and "has_sent en b i s n r (chan_queue (outgoing (rt (veq_handler v)))) d bs"
    and "map (deserialize cdc) bs = map Inr (all_chunks (current_group (vs_delegate v)) 4096 ms)"
    and "\<forall>b \<in> set bs. length b \<le> 4128"
proof -
  let ?c = "vs_delegate v" and ?rep = "has_sent en b i s n r (chan_queue (outgoing (rt (veq_handler v))))"
  have s: "\<not> dead s" "sess_id s = i" "noise_pair (snow_of en) (stateless (transport s)) b" "next_nonce (transport s) = k"
    and c: "chan_open (outgoing (rt (veq_handler v)))" "bd_id (delegate ?c) = i" "chunk_size ?c = 4096"
      "bd_one_time_id (delegate ?c) = n"
    using v(1) established_at_unique [OF v(2)] unfolding can_send_def can_transmit_def by blast+
  have out: "chunker_outbound (BidirectionalSession_send en) ?rep may_send cdc"
    using session_outbound [OF assms(1) s(1-3)] assms(2)
    by (simp add: chunker_outbound_def chunker_outbound_axioms_def)
  have "advance 0 s = s" by (simp add: advance_def)
  then have rep: "?rep (delegate ?c) []"
    using v(2) c(1,2,4) unsigned_less [of "next_nonce (transport s)", where 'a = nat]
    by (simp add: has_sent_def veq_handler_def)
  have "chunk_size ?c \<noteq> 0" and size: "unat (chunk_size ?c) = 4096" by (simp_all add: c(3))
  then obtain d bs where
      d: "send_each (Chunker_send oc cdc (BidirectionalSession_send en)) ?c ms =
        (?c\<lparr>current_group := current_group ?c + of_nat (length ms), delegate := d\<rparr>, Ok ())"
      and sent: "?rep d ([] @ bs)"
      and ser: "serialize_chunks cdc (all_chunks (current_group ?c) 4096 ms) = Ok bs"
      and bs: "map (deserialize cdc) bs = map Inr (all_chunks (current_group ?c) 4096 ms)"
    using chunker_outbound.send_each_chunks [OF out rep _ end_sendable [OF v(1) assms(3) ms]]
    unfolding size by blast
  have "\<forall>b \<in> set bs. length b \<le> 4096 + 32"
    using all_chunks_fit [of 4096 ms] ms(1) by (intro serialize_chunks_sizes [OF ser assms(3)]) auto
  then show ?thesis
    using that [OF _ _ bs, of d] d sent by (simp add: send_each_VeqSession)
qed

text \<open>Sending messages leaves the end able to send and to receive.\<close>

lemma end_sends:
  assumes "handler_codecs en" and "codec_ok chunk_fits cdc" and "chunk_sizes cdc" and v: "can_send en b i k v"
    and "\<forall>m \<in> set ms. m \<noteq> [] \<and> in_memory m" and "unat (current_group (vs_delegate v)) + length ms < 2 ^ 64"
    and "unat k + length (all_chunks (current_group (vs_delegate v)) 4096 ms) < 2 ^ 64"
  obtains v' its ds where
    "send_each (VeqSession_send (Chunker_send oc cdc (BidirectionalSession_send en))) v ms = (v', Ok ())"
    and "chan_queue (outgoing (rt (veq_handler v'))) = chan_queue (outgoing (rt (veq_handler v))) @ its"
    and "map (item_datagram en) its = map (\<lambda>d. Some (d, vs_remote_addr v)) ds"
    and "\<forall>d \<in> set ds. length d \<le> 4216"
    and "carry_messages en cdc b i k (current_group (vs_delegate v)) ms ds"
    and "can_send en b i (k + of_nat (length ds)) v'"
    and "current_group (vs_delegate v') = current_group (vs_delegate v) + of_nat (length ms)"
    and "vs_remote_addr v' = vs_remote_addr v"
    and "\<forall>cdc a l g. can_receive cdc a i l g v \<longrightarrow> can_receive cdc a i l g v'"
proof -
  obtain s n r where est: "established_at i s n r (veq_handler v)"
    and s: "can_transmit en s" "sess_id s = i" "remote_addr s = vs_remote_addr v" "next_nonce (transport s) = k"
      "noise_pair (snow_of en) (stateless (transport s)) b" "heartbeat_runs s" and c: "chunk_size (vs_delegate v) = 4096"
    using v unfolding can_send_def by blast
  let ?g = "current_group (vs_delegate v) + of_nat (length ms)"
  obtain d bs where
    sends: "send_each (VeqSession_send (Chunker_send oc cdc (BidirectionalSession_send en))) v ms =
      (v\<lparr>vs_delegate := (vs_delegate v)\<lparr>current_group := ?g, delegate := d\<rparr>\<rparr>, Ok ())"
    and sent: "has_sent en b i s n r (chan_queue (outgoing (rt (veq_handler v)))) d bs"
    and bs: "map (deserialize cdc) bs = map Inr (all_chunks (current_group (vs_delegate v)) 4096 ms)"
    and short: "\<forall>b \<in> set bs. length b \<le> 4128"
    by (rule end_sends_items [OF assms(1-4) est assms(5-7)])
  let ?v = "v\<lparr>vs_delegate := (vs_delegate v)\<lparr>current_group := ?g, delegate := d\<rparr>\<rparr>"
  obtain its where its: "chan_queue (outgoing (rt (bd_handler d))) = chan_queue (outgoing (rt (veq_handler v))) @ its"
      "length its = length bs" "borne_from (item_bears en b i (vs_remote_addr v)) k (zip bs its)"
    and d: "bd_id d = i" "established_at i (advance (length bs) s) n r (bd_handler d)"
      "chan_open (outgoing (rt (bd_handler d)))" "bd_one_time_id d = n"
    using sent unfolding has_sent_def s(3,4) by blast
  obtain ds where ds: "map (item_datagram en) its = map (\<lambda>d. Some (d, vs_remote_addr v)) ds" "length ds = length bs"
      "borne_from (\<lambda>k x d. wire_message en b i k (Payload x) d) k (zip bs ds)"
      "list_all2 (\<lambda>x d. length d \<le> length x + 88) bs ds"
    using items_datagrams [OF its(3,2)] by blast
  have small: "\<forall>d \<in> set ds. length d \<le> 4216"
  proof
    fix d assume "d \<in> set ds"
    then obtain j where j: "j < length bs" "d = ds ! j" using ds(2) by (auto simp: in_set_conv_nth)
    then have "length d \<le> length (bs ! j) + 88" using list_all2_nthD [OF ds(4)] by simp
    moreover have "length (bs ! j) \<le> 4128" using short j(1) by simp
    ultimately show "length d \<le> 4216" by simp
  qed
  have carry: "carry_messages en cdc b i k (current_group (vs_delegate v)) ms ds"
    using bs ds(2,3) by (auto simp: carry_messages_def)
  have still: "can_send en b i (k + of_nat (length ds)) ?v"
    unfolding can_send_def
    by (rule conjI, rule exI [of _ "advance (length bs) s"])
      (use d s c ds(2) in \<open>auto simp: veq_handler_def advance_def can_transmit_def\<close>)
  have "can_receive cdc' a i l g ?v" if recv: "can_receive cdc' a i l g v" for cdc' a l g
  proof -
    have t: "fresh_below a l (transport s)" "leftover cdc' 4096 g (messages s) (vs_delegate v)"
      using recv established_at_unique [OF est] unfolding can_receive_def by blast+
    have "leftover cdc' 4096 g (messages s) (vs_delegate ?v)"
      using t(2) by (subst leftover_cong [of _ "vs_delegate v"]) simp_all
    then show ?thesis
      unfolding can_receive_def
      by (intro conjI exI [of _ "advance (length bs) s"] exI [of _ n] exI [of _ r])
        (use d s(1) t(1) in \<open>auto simp: veq_handler_def advance_def fresh_below_def can_transmit_def\<close>)
  qed
  then show ?thesis
    by (intro that [OF sends _ ds(1) small carry still]) (use its(1) in \<open>simp_all add: veq_handler_def\<close>)
qed

section \<open>Receiving\<close>

lemma nths_nth: "nths xs A = map ((!) xs) (filter (\<lambda>i. i \<in> A) [0 ..< length xs])"
  by (induction xs rule: rev_induct) (auto simp: nths_append nth_append intro!: map_cong)

lemma nths_strict:
  assumes "sorted_wrt (<) js" and "\<forall>j \<in> set js. j < length xs"
  shows "nths xs (set js) = map ((!) xs) js"
proof -
  have "filter (\<lambda>i. i \<in> set js) [0 ..< length xs] = js"
    using assms by (intro sorted_distinct_set_unique) (auto simp: strict_sorted_iff sorted_wrt_filter)
  then show ?thesis by (simp add: nths_nth)
qed

lemma fold_snoc: "fold (\<lambda>x xs. xs @ [x]) ys xs = xs @ ys"
  by (induction ys arbitrary: xs) auto

text \<open>Arrivals, each a position in what was sent and the address it seems to come from.\<close>

definition arrive ::
    "('b, 'h, 's) env \<Rightarrow> bytes list \<Rightarrow> (nat \<times> socket_addr) list \<Rightarrow> ('h, 's) handler \<Rightarrow> ('h, 's) handler" where
  "arrive en ds arr st = fold (\<lambda>(j, src). take_in en src (ds ! j)) arr st"

text \<open>What a session needs for sending does not change when it receives.\<close>

definition outward :: "'s session \<Rightarrow> bool \<times> session_id \<times> socket_addr \<times> 's \<times> u64 \<times> bool \<times> bytes \<times> bool" where
  "outward s = (dead s, sess_id s, remote_addr s, stateless (transport s), next_nonce (transport s),
     keepalive_runs s, keepalive_serialized s, heartbeat_runs s)"

lemma unseal_outward:
  "unseal ncd sn lt x = (lt1, r) \<Longrightarrow> stateless lt1 = stateless lt \<and> next_nonce lt1 = next_nonce lt"
  by (auto simp: unseal_def read_message_def Let_def split: sum.splits nonced.splits if_splits)

lemma handle_incoming_outward: "Session_handle_incoming en p s = (s1, ws, r) \<Longrightarrow> outward s1 = outward s"
  by (auto simp: Session_handle_incoming_def outward_def Let_def dest!: unseal_outward
      split: sum.splits raw_message.splits prod.splits res.splits message.splits)

lemma take_in_established:
  assumes "wire_message en b i k m d" and est: "established_at i t n r st"
  shows "take_in en src d st = take_in en src' d st"
    and "\<exists>t1. established_at i t1 n r (take_in en src d st) \<and> outward t1 = outward t"
    and "outgoing (rt (take_in en src d st)) = outgoing (rt st)"
proof -
  obtain p where p: "deserialize (packet_codec en) d = Inr p" "packet_id p = i"
    using assms(1) by (rule wire_messageE)
  then have in_est: "Handler_handle_incoming en a d st = incoming_established en p st" for a
    using est by (simp add: Handler_handle_incoming_def established_at_def)
  then show "take_in en src d st = take_in en src' d st" by (simp add: take_in_def)
  obtain t1 ws x where "Session_handle_incoming en p t = (t1, ws, x)" by (cases "Session_handle_incoming en p t")
  then show "\<exists>t1. established_at i t1 n r (take_in en src d st) \<and> outward t1 = outward t"
    and "outgoing (rt (take_in en src d st)) = outgoing (rt st)"
    using est p(2) handle_incoming_outward [of en p t]
    by (auto simp: in_est take_in_def incoming_established_def established_at_def wake_def)
qed

lemma arrive_established:
  assumes ds: "\<forall>d \<in> set ds. \<exists>k m. wire_message en b i k m d" and "established_at i t n r st"
    and "\<forall>a \<in> set arr. fst a < length ds"
  shows "arrive en ds arr st = fold (take_in en src) (map ((!) ds) (map fst arr)) st
    \<and> (\<exists>t1. established_at i t1 n r (arrive en ds arr st) \<and> outward t1 = outward t)
    \<and> outgoing (rt (arrive en ds arr st)) = outgoing (rt st)"
  using assms(2,3)
proof (induction arr arbitrary: t st)
  case Nil
  then show ?case by (auto simp: arrive_def)
next
  case (Cons a arr)
  obtain j from_addr where a: "a = (j, from_addr)" by (cases a)
  obtain k m where d: "wire_message en b i k m (ds ! j)"
    using ds Cons.prems(2) a by (metis fst_conv list.set_intros(1) nth_mem)
  note tk = take_in_established [OF d Cons.prems(1)]
  obtain t1 where t1: "established_at i t1 n r (take_in en src (ds ! j) st)" "outward t1 = outward t"
    using tk(2) by blast
  have "arrive en ds (a # arr) st = arrive en ds arr (take_in en src (ds ! j) st)"
    using tk(1) [of from_addr src] by (simp add: a arrive_def)
  then show ?case using Cons.IH [OF t1(1)] Cons.prems(2) t1(2) tk(3) [of src] by (simp only: a) auto
qed

text \<open>What arrives is queued behind what was left.\<close>

lemma end_takes_in:
  assumes v: "can_receive cdc b i k g v" and est: "established_at i t n r (veq_handler v)"
    and "carry_messages en cdc b i k g ms ds" and "\<forall>a \<in> set arr. fst a < length ds"
    and "I = set (newest 0 (map fst arr))"
  obtains t1 bs where "established_at i t1 n r (arrive en ds arr (veq_handler v))" and "outward t1 = outward t"
    and "fresh_below b (k + of_nat (length ds)) (transport t1)" and "messages t1 = messages t @ bs"
    and "map (deserialize cdc) bs = map Inr (nths (all_chunks g 4096 ms) I)"
    and "outgoing (rt (arrive en ds arr (veq_handler v))) = outgoing (rt (veq_handler v))"
proof -
  obtain bs where bs: "map (deserialize cdc) bs = map Inr (all_chunks g 4096 ms)" and len: "length ds = length bs"
    and ds: "borne_from (\<lambda>k x d. wire_message en b i k (Payload x) d) k (zip bs ds)"
    using assms(3) unfolding carry_messages_def by blast
  define js where "js = map fst arr"
  let ?st = "arrive en ds arr (veq_handler v)" and ?src = "vs_remote_addr v"
  have js: "\<forall>j \<in> set js. j < length ds" "\<forall>j \<in> set js. j < length (zip bs ds)" and I: "I = set (newest 0 js)"
    using assms(4,5) len by (simp_all add: js_def)
  have "\<forall>d \<in> set ds. \<exists>k m. wire_message en b i k m d"
    using borne_from_nth [OF ds] len by (force simp: in_set_conv_nth)
  note arrive = arrive_established [OF this est assms(4), of ?src, folded js_def]
  then have st: "?st = fold (take_in en ?src) (map ((!) ds) js) (veq_handler v)" by blast
  obtain t1 where t1: "established_at i t1 n r ?st" "outward t1 = outward t" using arrive by blast
  have new: "\<forall>j \<in> set (newest 0 js). j < length bs" using js len newest_subset by force
  have pos: "map (\<lambda>j. snd (zip bs ds ! j)) js = map ((!) ds) js"
      "map (\<lambda>j. fst (zip bs ds ! j)) (newest 0 js) = nths bs I"
    using js new len nths_strict [OF newest_sorted, of 0 js bs] by (simp_all add: I)
  have t: "\<not> dead t" "fresh_below b k (transport t)"
    using v established_at_unique [OF est] unfolding can_receive_def by blast+
  then have start: "handler_link.from_position b i k 0 (veq_handler v)"
    using est by (auto simp: handler_link.from_position_def expects_def)
  have k: "unat k + 0 < 2 ^ 64" using unsigned_less [of k, where 'a = nat] by simp
  have "queued_of i ?st = queued_of i (veq_handler v) @ nths bs I" "expects b i (k + of_nat (length ds)) ?st"
    using handler_link.delivery_any_order [OF ds js(2) start k le0, of ?src] len
    unfolding st by (simp_all add: pos fold_snoc)
  then have "messages t1 = messages t @ nths bs I" "fresh_below b (k + of_nat (length ds)) (transport t1)"
    using session_of_established [OF est] session_of_established [OF t1(1)] established_at_unique [OF t1(1)]
    by (auto simp: queued_of_def expects_def)
  moreover have "map (deserialize cdc) (nths bs I) = map Inr (nths (all_chunks g 4096 ms) I)"
    using bs by (simp flip: nths_map)
  ultimately show ?thesis using that t1 arrive by blast
qed

lemma recv_many_sending_side:
  "recv_many (Chunker_recv oc cdc drecv) n c = Some (c', xs) \<Longrightarrow>
     chunk_size c' = chunk_size c \<and> current_group c' = current_group c"
proof (induction n arbitrary: c xs)
  case (Suc n)
  then obtain c1 x ys where c1: "Chunker_recv oc cdc drecv c = Some (c1, Ok x)"
      "recv_many (Chunker_recv oc cdc drecv) n c1 = Some (c', ys)"
    by (auto split: option.splits res.splits prod.splits)
  show ?case using Suc.IH [OF c1(2)] Chunker_recv_sending_side [OF c1(1)] by simp
qed simp

text \<open>
  Whatever sequence of arrivals the network makes of the datagrams, the calls of \<open>recv\<close> return the
  messages all of whose datagrams were newer than all before them, the next call waits, and the end is
  still able to send and to receive.
\<close>

lemma end_hears:
  assumes v: "can_receive cdc b i k g v" and "carry_messages en cdc b i k g ms ds"
    and "\<forall>m \<in> set ms. m \<noteq> [] \<and> in_memory m" and "unat g + length ms < 2 ^ 64"
    and "\<forall>a \<in> set arr. fst a < length ds" and got: "got = arrived_messages 4096 (set (newest 0 (map fst arr))) ms"
  obtains v' where
    "recv_many (VeqSession_recv (Chunker_recv oc cdc (BidirectionalSession_recv fresh w))) (length got)
      (with_handler (arrive en ds arr (veq_handler v)) v) = Some (v', got)"
    and "VeqSession_recv (Chunker_recv oc cdc (BidirectionalSession_recv fresh w)) v' = None"
    and "can_receive cdc b i (k + of_nat (length ds)) (g + of_nat (length ms)) v'"
    and "current_group (vs_delegate v') = current_group (vs_delegate v)"
    and "\<forall>a l. can_send en a i l v \<longrightarrow> can_send en a i l v'"
    and "outgoing (rt (veq_handler v')) = outgoing (rt (veq_handler v))"
proof -
  let ?st = "arrive en ds arr (veq_handler v)"
  let ?v = "with_handler ?st v"
  obtain t n r where est: "established_at i t n r (veq_handler v)"
    and t: "\<not> dead t" "leftover cdc 4096 g (messages t) (vs_delegate v)"
    and id: "bd_id (delegate (vs_delegate v)) = i" "bd_one_time_id (delegate (vs_delegate v)) = n"
    using v unfolding can_receive_def by blast
  obtain t1 bs where t1: "established_at i t1 n r ?st" "outward t1 = outward t"
      "fresh_below b (k + of_nat (length ds)) (transport t1)" "messages t1 = messages t @ bs"
      "map (deserialize cdc) bs = map Inr (nths (all_chunks g 4096 ms) (set (newest 0 (map fst arr))))"
      "outgoing (rt ?st) = outgoing (rt (veq_handler v))"
    by (rule end_takes_in [OF v est assms(2,5) refl])
  let ?rep = "has_queued i t1 n r (rt ?st)"
  have alive: "\<not> dead t1" using t(1) t1(2) by (simp add: outward_def)
  have "t1\<lparr>messages := messages t @ bs, wakers := wakers t1\<rparr> = t1" using t1(4) by simp
  then have rep: "?rep (delegate (vs_delegate ?v)) (messages t @ bs)"
    unfolding has_queued_def using t1(1) alive id
    by (metis with_handler_once with_handler_sel(1,2) veq_handler_def)
  have left: "leftover cdc 4096 g (messages t) (vs_delegate ?v)"
    using t(2) by (subst leftover_cong [of _ "vs_delegate v"]) simp_all
  obtain c' bs' where c': "recv_many (Chunker_recv oc cdc (BidirectionalSession_recv fresh w)) (length got) (vs_delegate ?v)
        = Some (c', got)" "Chunker_recv oc cdc (BidirectionalSession_recv fresh w) c' = None"
      "?rep (delegate c') bs'" "leftover cdc 4096 (g + of_nat (length ms)) bs' c'"
    using session_chunks_in.recv_after_leftover
      [OF _ left assms(4,3) t1(5) rep session_recv_blocks [of i t1 n r "rt ?st" _ fresh w], where oc = oc]
    unfolding got by auto
  obtain ws where d: "established_at i (t1\<lparr>messages := bs', wakers := ws\<rparr>) n r (bd_handler (delegate c'))"
      "bd_id (delegate c') = i" "rt (bd_handler (delegate c')) = rt ?st" "bd_one_time_id (delegate c') = n"
    using c'(3) unfolding has_queued_def by blast
  let ?v' = "?v\<lparr>vs_delegate := c'\<rparr>"
  have kept: "chunk_size c' = chunk_size (vs_delegate v)" "current_group c' = current_group (vs_delegate v)"
    using recv_many_sending_side [OF c'(1)] by simp_all
  have "can_receive cdc b i (k + of_nat (length ds)) (g + of_nat (length ms)) ?v'"
    unfolding can_receive_def
    by (rule conjI, rule exI [of _ "t1\<lparr>messages := bs', wakers := ws\<rparr>"], rule exI [of _ n], rule exI [of _ r])
      (use d c'(4) alive t1(3) in \<open>simp_all add: veq_handler_def\<close>)
  moreover have "can_send en a i l ?v'" if send: "can_send en a i l v" for a l
  proof -
    have "can_transmit en t" "heartbeat_runs t" "sess_id t = i" "remote_addr t = vs_remote_addr v"
        "noise_pair (snow_of en) (stateless (transport t)) a" "next_nonce (transport t) = l"
      and "chan_open (outgoing (rt (veq_handler v)))" "chunk_size (vs_delegate v) = 4096"
      using send established_at_unique [OF est] unfolding can_send_def by blast+
    then show ?thesis
      unfolding can_send_def
      by (intro conjI exI [of _ "t1\<lparr>messages := bs', wakers := ws\<rparr>"] exI [of _ n] exI [of _ r])
        (use d kept t1(2,6) in \<open>simp_all add: veq_handler_def outward_def can_transmit_def\<close>)
  qed
  moreover have "recv_many (VeqSession_recv (Chunker_recv oc cdc (BidirectionalSession_recv fresh w))) (length got) ?v
      = Some (?v', got)"
    by (rule recv_many_VeqSession [OF c'(1)])
  ultimately show ?thesis
    by (intro that [of ?v'])
      (use c'(2) kept t1(6) d(3) in \<open>simp_all add: VeqSession_recv_def veq_handler_def\<close>)
qed

section \<open>A small example\<close>

definition demo_end :: "(unit, u8) veq_session_alias" where
  "demo_end =
     \<lparr>vs_delegate = Chunker_new \<lparr>bd_id = 5, bd_one_time_id = 11,
        bd_handler = (Handler_new demo_keypair)\<lparr>established := [5 \<mapsto> (11, 0)],
          sessions := [0 \<mapsto> demo_session], next_session := 1\<rparr>\<rparr> 4096,
      vs_remote_addr = SocketAddrV4 1 2\<rparr>"

lemma settled_new: "settled g (Chunker_new d n)"
  by (simp add: settled_def Chunker_new_def btm_get_def)

lemma demo_end_connected: "connected_ends (layout_env tag_snow) cdc 5 0 demo_end demo_end"
proof -
  have "established_at 5 demo_session 11 0 (veq_handler demo_end)"
    by (simp add: established_at_def demo_end_def veq_handler_def Chunker_new_def Handler_new_def)
  moreover have "can_transmit (layout_env tag_snow) demo_session" "\<not> dead demo_session" "heartbeat_runs demo_session"
    by (simp_all add: can_transmit_def demo_session_def layout_env_def layout_codec_def)
  moreover have "sess_id demo_session = 5" "messages demo_session = []"
      "remote_addr demo_session = vs_remote_addr demo_end" "next_nonce (transport demo_session) = 0"
    by (simp_all add: demo_session_def demo_end_def from_stateless_sel)
  moreover have "leftover cdc 4096 (current_group (vs_delegate demo_end)) [] (vs_delegate demo_end)"
    by (simp add: settled_leftover settled_new demo_end_def)
  ultimately show ?thesis
    unfolding connected_ends_def can_send_def can_receive_def using demo_linked unfolding linked_def
    by (intro exI [of _ "stateless (transport demo_session)"] conjI exI [of _ demo_session] exI [of _ 11] exI [of _ 0])
      (simp_all add: demo_end_def veq_handler_def Chunker_new_def Handler_new_def)
qed

lemma chunk_layout_sizes: "chunk_sizes chunk_layout"
  by (auto simp: chunk_sizes_def chunk_layout_def layout_codec_def put_chunk_def)

end
