(* ===== verification/VeqLink.thy ===== *)
theory VeqLink
  imports VeqEnds
begin

text \<open>
  The life of a connection (\<open>VeqSocket::connect\<close> and the drop of \<open>BidirectionalSession\<close> in
  \<open>src/src/veq.rs\<close>): who initiates; both calls of \<open>connect\<close> return, with two ends that are connected
  in both directions; and what is left after a drop.
\<close>

section \<open>Connecting\<close>

lemma connect_poll_ready:
  assumes "established_at i s n r (sock_handler sock)" and "0 < notices (cells (sock_handler sock) c)"
    and "sr_id sr = i" and "sr_one_time_id sr = n" and "sr_cell sr = c"
  obtains st1 where "connect_poll w sr sock = (sr\<lparr>completed := True\<rparr>, sock\<lparr>sock_handler := st1\<rparr>,
       Ready (Ok \<lparr>vs_delegate = Chunker_new \<lparr>bd_id = i, bd_one_time_id = n, bd_handler = st1\<rparr> 4096,
                  vs_remote_addr = remote_addr s\<rparr>))"
    and "established_at i s n r st1" and "rt st1 = rt (sock_handler sock)"
proof -
  let ?st = "sock_handler sock"
  let ?cell = "(cells ?st c)\<lparr>notices := notices (cells ?st c) - 1, receiver_alive := False\<rparr>"
  have "connect_poll w sr sock =
      (sr\<lparr>completed := True\<rparr>, sock\<lparr>sock_handler := ?st\<lparr>cells := (cells ?st)(c := ?cell)\<rparr>\<rparr>,
       Ready (Ok \<lparr>vs_delegate = Chunker_new \<lparr>bd_id = i, bd_one_time_id = n,
            bd_handler = ?st\<lparr>cells := (cells ?st)(c := ?cell)\<rparr>\<rparr> 4096,
          vs_remote_addr = remote_addr s\<rparr>))"
    using assms by (simp add: connect_poll_def SessionReady_poll_def
        SessionReady_drop_def connect_finish_def Handler_remote_addr_def established_at_def Let_def)
  then show ?thesis
    by (rule that) (use assms(1) in \<open>simp_all add: established_at_def\<close>)
qed

lemma connect_ready:
  assumes "established_at i s n r st" and "0 < notices (cells st c)"
  obtains sr st1 where "connect_poll w (SessionReady_new i n c) (sock\<lparr>sock_handler := st\<rparr>) =
      (sr, sock\<lparr>sock_handler := st1\<rparr>,
       Ready (Ok \<lparr>vs_delegate = Chunker_new \<lparr>bd_id = i, bd_one_time_id = n, bd_handler = st1\<rparr> 4096,
                  vs_remote_addr = remote_addr s\<rparr>))"
    and "established_at i s n r st1" and "rt st1 = rt st"
  by (rule connect_poll_ready [of i s n r "sock\<lparr>sock_handler := st\<rparr>" c "SessionReady_new i n c" w])
    (use assms in \<open>simp_all add: SessionReady_new_def that\<close>)

text \<open>The session that \<open>connect\<close> returns.\<close>

abbreviation new_end ::
    "session_id \<Rightarrow> one_time_id \<Rightarrow> ('h, 's) handler \<Rightarrow> socket_addr \<Rightarrow> ('h, 's) veq_session_alias" where
  "new_end i n st addr \<equiv>
     \<lparr>vs_delegate = Chunker_new \<lparr>bd_id = i, bd_one_time_id = n, bd_handler = st\<rparr> 4096, vs_remote_addr = addr\<rparr>"

lemma connected_endsI:
  assumes "established_at i s n r sta" and "established_at i t m z stb" and "linked (snow_of en) s t"
    and "newborn en i addr s" and "newborn en i addr' t" and "chan_open (outgoing (rt sta))"
  shows "connected_ends en cdc i (next_nonce (transport s)) (new_end i n sta addr) (new_end i m stb addr')"
proof -
  have "leftover cdc 4096 0 [] (Chunker_new \<lparr>bd_id = i, bd_one_time_id = m, bd_handler = stb\<rparr> 4096)"
    by (intro settled_leftover settled_new)
  then show ?thesis
    unfolding connected_ends_def can_send_def can_receive_def
    by (intro exI [of _ "stateless (transport t)"] conjI exI [of _ s] exI [of _ n] exI [of _ r]
        exI [of _ t] exI [of _ m] exI [of _ z])
      (use assms in \<open>simp_all add: newborn_def linked_def veq_handler_def Chunker_new_def can_transmit_def\<close>)
qed

lemma session_keepalive_open:
  "chan_open (outgoing (rt (session_keepalive en r st))) = chan_open (outgoing (rt st))"
  by (simp add: session_keepalive_def keepalive_tick_def chan_send_def Let_def
      split: option.split prod.split res.split sum.split bool.split)

lemma with_handler_new: "with_handler st1 (new_end i n st addr) = new_end i n st1 addr"
  by (simp add: with_handler_def Chunker_new_def)

lemma connect_confirmed:
  assumes "handler_codecs en" and "established_at i s0 na r a3" and opened: "chan_open (outgoing (rt a3))"
    and "Session_new en i addrb (from_stateless ti) = Ok s0"
    and "responding_at i addra (from_stateless tr) nb cb b2" and "receiver_alive (cells b2 cb)"
    and b2: "chan_open (outgoing (rt b2))"
    and pair: "noise_pair (snow_of en) ti tr" "noise_pair (snow_of en) tr ti"
  obtains p3 d3 b3 fb b4 where
    "chan_queue (outgoing (rt (session_keepalive en r a3))) = chan_queue (outgoing (rt a3)) @ [(addrb, p3, 64)]"
    and "serialize (packet_codec en) p3 = Inr d3" and "Handler_handle_incoming en addra d3 b2 = (b3, Ok ())"
    and "connect_poll w (SessionReady_new i nb cb) (sock\<lparr>sock_handler := b3\<rparr>) =
      (fb, sock\<lparr>sock_handler := b4\<rparr>, Ready (Ok (new_end i nb b4 addra)))"
    and "connected_ends en cdc i 1 (new_end i na (session_keepalive en r a3) addrb) (new_end i nb b4 addra)"
    and "connected_ends en cdc i 0 (new_end i nb b4 addra) (new_end i na (session_keepalive en r a3) addrb)"
proof -
  obtain p3 d3 b3 q s t where y:
    "chan_queue (outgoing (rt (session_keepalive en r a3))) = chan_queue (outgoing (rt a3)) @ [(addrb, p3, 64)]"
    "serialize (packet_codec en) p3 = Inr d3" "Handler_handle_incoming en addra d3 b2 = (b3, Ok ())"
    and est: "established_at i s na r (session_keepalive en r a3)" "established_at i t nb q b3"
      "newborn en i addrb s" "newborn en i addra t"
      "next_nonce (transport s) = 1" "next_nonce (transport t) = 0"
      "linked (snow_of en) s t" "linked (snow_of en) t s"
    and b3: "notices (cells b3 cb) = Suc (notices (cells b2 cb))" "outgoing (rt b3) = outgoing (rt b2)"
    by (rule handshake_confirmed [OF assms(1-6) pair])
  have "0 < notices (cells b3 cb)" "remote_addr t = addra"
    using b3(1) est(4) by (simp_all add: newborn_def)
  then obtain fb b4 where b4: "connect_poll w (SessionReady_new i nb cb) (sock\<lparr>sock_handler := b3\<rparr>) =
        (fb, sock\<lparr>sock_handler := b4\<rparr>, Ready (Ok (new_end i nb b4 addra)))"
      "established_at i t nb q b4" "rt b4 = rt b3"
    using connect_ready [OF est(2)] by metis
  have ch: "chan_open (outgoing (rt (session_keepalive en r a3)))" "chan_open (outgoing (rt b4))"
    using opened b2 b4(3) b3(2) by (simp_all add: session_keepalive_open)
  show ?thesis
    using that [OF y b4(1)] connected_endsI [OF est(1) b4(2) est(7) est(3,4) ch(1)]
      connected_endsI [OF b4(2) est(1) est(8) est(4,3) ch(2)] est(5,6) by simp
qed

lemma connect_start_roles:
  assumes "public_key (sock_info a) < public_key (sock_info b)"
    and "Handler_initiate en na i (sock_info b) (sock_handler a) = (a1, Ok fa)"
    and "Handler_respond en nb i (sock_info a) (sock_handler b) = (b1, Ok fb)"
  shows "connect_start en na i (VeqSocket_connection_info b) a = (a\<lparr>sock_handler := a1\<rparr>, Ok fa)"
    and "connect_start en nb i (VeqSocket_connection_info a) b = (b\<lparr>sock_handler := b1\<rparr>, Ok fb)"
  using assms less_not_sym [OF assms(1)]
  by (simp_all add: connect_start_def is_initiator_def VeqSocket_connection_info_def)

text \<open>The shortest run of connecting. Two sockets call \<open>connect\<close> with each other's connection
  information and the same identifier; the one with the smaller key initiates. When the packet that
  its task announces reaches the other, the answer announced there comes back, and the first
  keepalive follows, both calls return a session with the other's address, and the two sessions are
  the ends of a connection in both directions.\<close>

theorem veq_connects:
  assumes "handler_codecs en" and "kk_completes (snow_of en) hi hr"
    and "public_key (sock_info a) < public_key (sock_info b)"
    and "build_with (snow_of en) (build_initiator (snow_of en)) (keypair (sock_handler a))
      (public_key (sock_info b)) = Ok hi"
    and "build_with (snow_of en) (build_responder (snow_of en)) (keypair (sock_handler b))
      (public_key (sock_info a)) = Ok hr"
    and "chan_open (outgoing (rt (sock_handler a)))" and "chan_open (outgoing (rt (sock_handler b)))"
  shows "\<exists>a1 fa b1 fb ini d1 b2 resp d2 a2 fa' a3 va r p3 d3 b3 fb' b4 vb.
    connect_start en na i (VeqSocket_connection_info b) a = (a1, Ok fa)
    \<and> connect_start en nb i (VeqSocket_connection_info a) b = (b1, Ok fb)
    \<and> announces en (sock_handler a1) i (addresses (sock_info b)) (HandshakeInitiation ini) d1
    \<and> Handler_handle_incoming en addra d1 (sock_handler b1) = (b2, Ok ())
    \<and> announces en b2 i [addra] (HandshakeResponse resp) d2
    \<and> Handler_handle_incoming en addrb d2 (sock_handler a1) = (a2, Ok ())
    \<and> connect_poll w fa (a1\<lparr>sock_handler := a2\<rparr>) = (fa', a3, Ready (Ok va))
    \<and> chan_queue (outgoing (rt (session_keepalive en r (sock_handler a3)))) =
        chan_queue (outgoing (rt (sock_handler a3))) @ [(addrb, p3, 64)]
    \<and> serialize (packet_codec en) p3 = Inr d3
    \<and> Handler_handle_incoming en addra d3 b2 = (b3, Ok ())
    \<and> connect_poll w fb (b1\<lparr>sock_handler := b3\<rparr>) = (fb', b4, Ready (Ok vb))
    \<and> VeqSession_remote_addr va = addrb \<and> VeqSession_remote_addr vb = addra
    \<and> connected_ends en cdc i 1 (with_handler (session_keepalive en r (sock_handler a3)) va) vb
    \<and> connected_ends en cdc i 0 vb (with_handler (session_keepalive en r (sock_handler a3)) va)"
proof -
  obtain a1 ca b1 cb ini d1 b2 resp d2 a2 r s0 ti tr where
    start: "Handler_initiate en na i (sock_info b) (sock_handler a) = (a1, Ok (SessionReady_new i na ca))"
      "Handler_respond en nb i (sock_info a) (sock_handler b) = (b1, Ok (SessionReady_new i nb cb))"
    and x: "announces en a1 i (addresses (sock_info b)) (HandshakeInitiation ini) d1"
      "Handler_handle_incoming en addra d1 b1 = (b2, Ok ())"
      "announces en b2 i [addra] (HandshakeResponse resp) d2"
      "Handler_handle_incoming en addrb d2 a1 = (a2, Ok ())"
    and a2: "established_at i s0 na r a2" "notices (cells a2 ca) = 1" "chan_open (outgoing (rt a2))"
      "Session_new en i addrb (from_stateless ti) = Ok s0"
    and b2: "responding_at i addra (from_stateless tr) nb cb b2" "receiver_alive (cells b2 cb)"
      "chan_open (outgoing (rt b2))"
    and pair: "noise_pair (snow_of en) ti tr" "noise_pair (snow_of en) tr ti"
    by (rule handshake_exchange [OF assms(1,2,4-7)])
  have one: "0 < notices (cells a2 ca)" and addr: "remote_addr s0 = addrb"
    using a2(2) Session_new_Ok [OF a2(4)] by simp_all
  let ?a1 = "a\<lparr>sock_handler := a1\<rparr>" and ?b1 = "b\<lparr>sock_handler := b1\<rparr>"
  obtain fa a3 where a3: "connect_poll w (SessionReady_new i na ca) (?a1\<lparr>sock_handler := a2\<rparr>) =
        (fa, ?a1\<lparr>sock_handler := a3\<rparr>, Ready (Ok (new_end i na a3 (remote_addr s0))))"
      "established_at i s0 na r a3" "rt a3 = rt a2"
    by (rule connect_ready [OF a2(1) one])
  have opened: "chan_open (outgoing (rt a3))" using a2(3) a3(3) by simp
  obtain p3 d3 b3 fb b4 where y:
    "chan_queue (outgoing (rt (session_keepalive en r a3))) = chan_queue (outgoing (rt a3)) @ [(addrb, p3, 64)]"
    "serialize (packet_codec en) p3 = Inr d3" "Handler_handle_incoming en addra d3 b2 = (b3, Ok ())"
    "connect_poll w (SessionReady_new i nb cb) (?b1\<lparr>sock_handler := b3\<rparr>) =
      (fb, ?b1\<lparr>sock_handler := b4\<rparr>, Ready (Ok (new_end i nb b4 addra)))"
    "connected_ends en cdc i 1 (new_end i na (session_keepalive en r a3) addrb) (new_end i nb b4 addra)"
    "connected_ends en cdc i 0 (new_end i nb b4 addra) (new_end i na (session_keepalive en r a3) addrb)"
    by (rule connect_confirmed [OF assms(1) a3(2) opened a2(4) b2 pair])
  show ?thesis
    by (rule exI [of _ ?a1], rule exI [of _ "SessionReady_new i na ca"], rule exI [of _ ?b1],
        rule exI [of _ "SessionReady_new i nb cb"], rule exI [of _ ini], rule exI [of _ d1],
        rule exI [of _ b2], rule exI [of _ resp], rule exI [of _ d2], rule exI [of _ a2],
        rule exI [of _ fa], rule exI [of _ "a\<lparr>sock_handler := a3\<rparr>"], rule exI [of _ "new_end i na a3 addrb"],
        rule exI [of _ r], rule exI [of _ p3], rule exI [of _ d3], rule exI [of _ b3], rule exI [of _ fb],
        rule exI [of _ "b\<lparr>sock_handler := b4\<rparr>"], rule exI [of _ "new_end i nb b4 addra"])
      (use connect_start_roles [OF assms(3) start] x a3(1) y
       in \<open>simp add: with_handler_new addr VeqSession_remote_addr_def\<close>)
qed

definition demo_socket :: "bytes \<Rightarrow> socket_addr \<Rightarrow> (unit, u8) veq_socket" where
  "demo_socket k addr =
     \<lparr>sock_info = \<lparr>addresses = [addr], public_key = SnowPublicKey k\<rparr>,
      sock_keypair = SnowKeypair (SnowPublicKey k) (SnowPrivateKey k),
      sock_handler = Handler_new (SnowKeypair (SnowPublicKey k) (SnowPrivateKey k))\<rparr>"

theorem veq_connects_witness:
  "\<exists>(va :: (unit, u8) veq_session_alias) vb st.
     VeqSession_remote_addr va = SocketAddrV4 3 4 \<and> VeqSession_remote_addr vb = SocketAddrV4 1 2
     \<and> connected_ends (layout_env tag_snow) chunk_layout 5 1 (with_handler st va) vb
     \<and> connected_ends (layout_env tag_snow) chunk_layout 5 0 vb (with_handler st va)"
proof -
  have "public_key (sock_info (demo_socket [1] (SocketAddrV4 1 2)))
      < public_key (sock_info (demo_socket [9] (SocketAddrV4 3 4)))"
    by (simp add: demo_socket_def)
  moreover have "chan_open (outgoing (rt (sock_handler (demo_socket k addr))))" for k addr
    by (simp add: demo_socket_def Handler_new_def)
  moreover have "kk_completes (snow_of (layout_env tag_snow)) () ()"
    using tag_snow_completes by (simp add: layout_env_def)
  ultimately show ?thesis
    using veq_connects [OF layout_env_handler_codecs _ _ tag_built(1) tag_built(2),
      where na = 11 and i = 5 and nb = 12 and addra = "SocketAddrV4 1 2" and addrb = "SocketAddrV4 3 4"
        and a = "demo_socket [1] (SocketAddrV4 1 2)" and b = "demo_socket [9] (SocketAddrV4 3 4)" and w = 0 and cdc = chunk_layout]
    by (elim meta_impE exE conjE) blast+
qed

section \<open>Disconnecting\<close>

lemma closed_entry:
  assumes "established_at i s n r st"
  shows "established (closer_tick (length (closing st)) (close_session i n st)) i = None"
    and "sessions (closer_tick (length (closing st)) (close_session i n st)) r = Some (Session_close s)"
  using assms
  by (simp_all add: closer_tick_def close_session_def established_at_def remove_session_def
      remove_if_established_def remove_if_responder_def remove_if_poker_def remove_if_initiator_def
      id_matches_def remove_established_def drop_session_def)

text \<open>C27 (error). After the last handle of a connection is dropped and the removal that it spawned has
  run, the identifier is free and the session is closed: a call of \<open>send\<close> or \<open>recv\<close> through it
  returns \<open>Disconnected\<close> and changes nothing, and a receiver that was still waiting gets
  \<open>Disconnected\<close> at its next poll.\<close>

theorem dropped_session_disconnects:
  assumes "established_at i s n r (bd_handler d)" and "bd_id d = i" and "bd_one_time_id d = n"
    and "st = closer_tick (length (closing (bd_handler d))) (BidirectionalSession_drop d)"
  shows "BidirectionalSession_send en (d\<lparr>bd_handler := st\<rparr>) x = (d\<lparr>bd_handler := st\<rparr>, Err Disconnected)
    \<and> BidirectionalSession_recv fresh w (d\<lparr>bd_handler := st\<rparr>) = Some (d\<lparr>bd_handler := st\<rparr>, Err Disconnected)
    \<and> snd (session_poll r (Receiving j) w st) = Ready (Err Disconnected)"
  using closed_entry [OF assms(1)] assms(2-)
  by (simp add: BidirectionalSession_drop_def BidirectionalSession_send_def BidirectionalSession_recv_def
      Handler_send_def Handler_recv_from_def session_poll_def Session_close_def)

theorem dropped_session_disconnects_witness:
  "\<exists>st. BidirectionalSession_recv 1 0 ((delegate (vs_delegate demo_end))\<lparr>bd_handler := st\<rparr>)
     = Some ((delegate (vs_delegate demo_end))\<lparr>bd_handler := st\<rparr>, Err Disconnected)"
proof -
  let ?d = "delegate (vs_delegate demo_end)"
  have "established_at 5 demo_session 11 0 (bd_handler ?d)" "bd_id ?d = 5" "bd_one_time_id ?d = 11"
    by (simp_all add: established_at_def demo_end_def Chunker_new_def Handler_new_def)
  from dropped_session_disconnects [OF this refl, of demo_env "[]" 1 0 2] show ?thesis by blast
qed

end
