(* ===== verification/VeqTasks.thy ===== *)
theory VeqTasks
  imports Veq
begin

text \<open>
  The two tasks of \<open>VeqSocket::from_socket\<close> (\<open>src/src/veq.rs\<close>): no datagram can make
  \<open>Handler::handle_incoming\<close> panic, so the receiving task never ends; the sending task hands the
  packets of the channel to the socket, each once and in order.
\<close>

section \<open>No datagram panics the handler\<close>

text \<open>What the package returns fits the buffer it was given; it reports an error otherwise.\<close>

definition outputs_fit :: "('b, 'h, 's) snow \<Rightarrow> bool" where
  "outputs_fit sn \<longleftrightarrow>
     (\<forall>h m cap h1 out. hs_write_message sn h m cap = (h1, Inr out) \<longrightarrow> length out \<le> cap)
     \<and> (\<forall>s n c cap out. st_read_message sn s n c cap = Inr out \<longrightarrow> length out \<le> cap)"

lemma unseal_no_panic: "outputs_fit sn \<Longrightarrow> unseal ncd sn lt x \<noteq> (lt1, Panic p)"
  by (auto simp: unseal_def read_message_def outputs_fit_def slice_overwrite Let_def
      split: sum.splits nonced.splits if_splits)

lemma responder_response_no_panic: "outputs_fit sn \<Longrightarrow> responder_response sn rsp i \<noteq> Panic p"
  by (cases rsp; cases i)
    (auto simp: outputs_fit_def slice_overwrite question_def split: sum.splits prod.splits)

lemma receive_response_no_panic: "receive_response sn ini r \<noteq> Panic p"
  by (cases ini; cases r) (auto simp: question_def split: sum.splits prod.splits)

lemma Session_new_no_panic: "Session_new en i addr lt \<noteq> Panic p"
  by (auto simp: Session_new_def question_def split: sum.splits)

lemma incoming_poker_no_panic:
  "outputs_fit (snow_of en) \<Longrightarrow> incoming_poker en src packet entry st \<noteq> (st1, Panic p)"
  using responder_response_no_panic [of "snow_of en"]
  by (auto simp: incoming_poker_def poker_into_responder_def Let_def
      split: prod.splits if_splits option.splits res.splits)

lemma incoming_initiator_no_panic: "incoming_initiator en src packet entry st \<noteq> (st1, Panic p)"
  using receive_response_no_panic [of "snow_of en"] Session_new_no_panic [of en]
  by (auto simp: incoming_initiator_def initiator_session_def Let_def
      split: prod.splits if_splits option.splits res.splits receive_response_result.splits session_result.splits)

lemma responder_handle_incoming_no_panic:
  "outputs_fit (snow_of en) \<Longrightarrow> responder_handle_incoming en src packet rt0 r \<noteq> (rt1, r1, Panic p)"
  using unseal_no_panic [of "snow_of en"]
  by (auto simp: responder_handle_incoming_def Let_def
      split: prod.splits option.splits res.splits sum.splits raw_message.splits message.splits)

lemma incoming_responder_no_panic:
  "outputs_fit (snow_of en) \<Longrightarrow> incoming_responder en src packet entry st \<noteq> (st1, Panic p)"
  using responder_handle_incoming_no_panic [of en] Session_new_no_panic [of en]
  by (auto simp: incoming_responder_def responder_session_def
      split: prod.splits if_splits res.splits)

lemma incoming_established_no_panic:
  "outputs_fit (snow_of en) \<Longrightarrow> incoming_established en packet st \<noteq> (st1, Panic p)"
  using unseal_no_panic [of "snow_of en"]
  by (auto simp: incoming_established_def Session_handle_incoming_def Let_def
      split: prod.splits option.splits res.splits sum.splits raw_message.splits message.splits)

lemma handle_incoming_no_panic:
  "outputs_fit (snow_of en) \<Longrightarrow> \<not> is_Panic (snd (Handler_handle_incoming en src d st))"
  using incoming_poker_no_panic [of en] incoming_initiator_no_panic [of en]
    incoming_responder_no_panic [of en] incoming_established_no_panic [of en]
  by (cases "Handler_handle_incoming en src d st"; cases "snd (Handler_handle_incoming en src d st)")
    (auto simp: Handler_handle_incoming_def Let_def split: sum.splits option.splits)

section \<open>Turns of the tasks\<close>

lemma receive_turn_waits:
  "datagram_socket ops pending \<Longrightarrow> pending (node_socket nd) = {#} \<Longrightarrow> receive_turn en ops nd = None"
  using datagram_socket.recv_waits [of ops pending "node_socket nd" "replicate 65536 0"]
  by (simp add: receive_turn_def)

lemma receive_turn_takes:
  assumes "datagram_socket ops pending" and "outputs_fit (snow_of en)" and "receiving_runs nd"
    and "pending (node_socket nd) \<noteq> {#}"
  obtains d a nd1 where "(d, a) \<in># pending (node_socket nd)" and "receive_turn en ops nd = Some nd1"
    and "pending (node_socket nd1) = pending (node_socket nd) - {#(d, a)#}"
    and "node_handler nd1 = fst (Handler_handle_incoming en a (take 65536 d) (node_handler nd))"
    and "receiving_runs nd1"
proof -
  obtain k buf r where recv: "bs_recv_from ops (node_socket nd) (replicate 65536 0) = Some (k, buf, r)"
    using datagram_socket.recv_waits [OF assms(1)] assms(4) by (metis not_None_eq prod_cases3)
  obtain d a where da: "(d, a) \<in># pending (node_socket nd)" "pending k = pending (node_socket nd) - {#(d, a)#}"
      "length buf = 65536" "r = Inr (min (length d) 65536, a)"
      "take (min (length d) 65536) buf = take 65536 d"
    using datagram_socket.recv_takes [OF assms(1) recv] by auto
  obtain st res where h: "Handler_handle_incoming en a (take 65536 d) (node_handler nd) = (st, res)"
    by fastforce
  then have "\<not> is_Panic res"
    using handle_incoming_no_panic [OF assms(2), of a "take 65536 d" "node_handler nd"] by simp
  then have "receive_turn en ops nd = Some (nd\<lparr>node_socket := k, node_handler := st\<rparr>)"
    using recv da(3-5) h assms(3)
    by (cases res) (simp_all add: receive_turn_def slice_to_def)
  then show ?thesis
    using da(1,2) h assms(3)
    by (intro that [of d a "nd\<lparr>node_socket := k, node_handler := st\<rparr>"]) simp_all
qed

text \<open>Turns of the receiving task while there is something to take; \<open>None\<close> when they are not enough.\<close>

fun receive_turns ::
    "('b, 'h, 's) env \<Rightarrow> 'k bidir_socket \<Rightarrow> nat \<Rightarrow> ('k, 'h, 's) node \<Rightarrow> ('k, 'h, 's) node option" where
  "receive_turns en ops 0 nd = None"
| "receive_turns en ops (Suc n) nd =
     (case receive_turn en ops nd of None \<Rightarrow> Some nd | Some nd1 \<Rightarrow> receive_turns en ops n nd1)"

text \<open>All that is pending reaches the handler, in some order.\<close>

lemma receive_turns_take_all:
  assumes "datagram_socket ops pending" and "outputs_fit (snow_of en)" and "receiving_runs nd"
    and "size (pending (node_socket nd)) < n"
  shows "\<exists>nd1 ps. receive_turns en ops n nd = Some nd1 \<and> mset ps = pending (node_socket nd)
    \<and> pending (node_socket nd1) = {#} \<and> receiving_runs nd1
    \<and> node_handler nd1 =
        fold (\<lambda>(d, a) st. fst (Handler_handle_incoming en a (take 65536 d) st)) ps (node_handler nd)"
  using assms(3,4)
proof (induction n arbitrary: nd)
  case (Suc n)
  show ?case
  proof (cases "pending (node_socket nd) = {#}")
    case True
    then show ?thesis using receive_turn_waits [OF assms(1) True, of en] Suc.prems(1) by (intro exI [of _ nd] exI [of _ "[]"]) simp
  next
    case False
    obtain d a nd1 where x: "(d, a) \<in># pending (node_socket nd)" "receive_turn en ops nd = Some nd1"
        "pending (node_socket nd1) = pending (node_socket nd) - {#(d, a)#}"
        "node_handler nd1 = fst (Handler_handle_incoming en a (take 65536 d) (node_handler nd))"
        "receiving_runs nd1"
      by (rule receive_turn_takes [OF assms(1,2) Suc.prems(1) False])
    then have "size (pending (node_socket nd1)) < n" using Suc.prems(2) by (auto dest!: multi_member_split)
    then obtain nd2 ps where "receive_turns en ops n nd1 = Some nd2" "mset ps = pending (node_socket nd1)"
        "pending (node_socket nd2) = {#}" "receiving_runs nd2"
        "node_handler nd2 =
          fold (\<lambda>(d, a) st. fst (Handler_handle_incoming en a (take 65536 d) st)) ps (node_handler nd1)"
      using Suc.IH [OF x(5)] by blast
    then show ?thesis using x by (intro exI [of _ nd2] exI [of _ "(d, a) # ps"]) simp
  qed
qed simp

text \<open>The socket's record of what was sent.\<close>

definition logs_sends :: "'k bidir_socket \<Rightarrow> ('k \<Rightarrow> datagram list) \<Rightarrow> bool" where
  "logs_sends ops log \<longleftrightarrow>
     (\<forall>k n. log (fst (bs_set_ttl ops k n)) = log k)
     \<and> (\<forall>k b a. log (fst (bs_send_to ops k b a)) = log k @ [(b, a)])"

fun send_turns ::
    "('b, 'h, 's) env \<Rightarrow> 'k bidir_socket \<Rightarrow> nat \<Rightarrow> ('k, 'h, 's) node \<Rightarrow> ('k, 'h, 's) node" where
  "send_turns en ops 0 nd = nd"
| "send_turns en ops (Suc n) nd =
     (case send_turn en ops nd of None \<Rightarrow> nd | Some nd1 \<Rightarrow> send_turns en ops n nd1)"

definition node_queue :: "('k, 'h, 's) node \<Rightarrow> outgoing_item list" where
  "node_queue nd = chan_queue (outgoing (rt (node_handler nd)))"

lemma send_turn_step:
  assumes "logs_sends ops log" and "node_queue nd = it # q"
  shows "\<exists>nd1. send_turn en ops nd = Some nd1 \<and> node_queue nd1 = q
    \<and> log (node_socket nd1) = log (node_socket nd) @ List.map_filter (item_datagram en) [it]
    \<and> receiving_runs nd1 = receiving_runs nd"
  using assms
  by (cases it; cases "serialize (packet_codec en) (fst (snd it))")
    (simp_all add: send_turn_def node_queue_def logs_sends_def item_datagram_def map_filter_def Let_def)

lemma send_turns_drain:
  assumes "logs_sends ops log"
  shows "node_queue (send_turns en ops (length (node_queue nd)) nd) = []
    \<and> log (node_socket (send_turns en ops (length (node_queue nd)) nd)) =
        log (node_socket nd) @ List.map_filter (item_datagram en) (node_queue nd)"
proof (induction "node_queue nd" arbitrary: nd)
  case Nil
  then show ?case by (simp add: Nil [symmetric] map_filter_def)
next
  case (Cons it q)
  obtain nd1 where nd1: "send_turn en ops nd = Some nd1" "node_queue nd1 = q"
      "log (node_socket nd1) = log (node_socket nd) @ List.map_filter (item_datagram en) [it]"
    using send_turn_step [OF assms Cons.hyps(2) [symmetric]] by blast
  show ?case
    unfolding Cons.hyps(2) [symmetric]
    using Cons.hyps(1) [of nd1] nd1 by (simp add: map_filter_def)
qed

section \<open>Properties\<close>

text \<open>C12 (safety). The receiving task survives every datagram. On a socket that keeps the contract it
  waits only while nothing is pending; otherwise a turn takes one datagram, hands its first 65536
  bytes with its source to the handler, and the task goes on, whatever the bytes are: neither the
  slice of the buffer nor anything in the handler panics.\<close>

theorem receive_task_survives:
  assumes "datagram_socket ops pending" and "outputs_fit (snow_of en)" and "receiving_runs nd"
  shows "(pending (node_socket nd) = {#} \<and> receive_turn en ops nd = None)
    \<or> (\<exists>d a nd1. (d, a) \<in># pending (node_socket nd) \<and> receive_turn en ops nd = Some nd1
        \<and> pending (node_socket nd1) = pending (node_socket nd) - {#(d, a)#}
        \<and> node_handler nd1 = fst (Handler_handle_incoming en a (take 65536 d) (node_handler nd))
        \<and> receiving_runs nd1)"
  using receive_turn_waits [OF assms(1), of nd en] receive_turn_takes [OF assms]
  by (cases "pending (node_socket nd) = {#}") (simp, blast)

definition demo_node :: "datagram list \<Rightarrow> outgoing_item list \<Rightarrow> (queue_socket, unit, u8) node" where
  "demo_node arrived q =
     \<lparr>node_socket = demo_queue (SocketAddrV4 0 9) arrived,
      node_handler = (Handler_new demo_keypair)\<lparr>rt := (rt (Handler_new demo_keypair :: (unit, u8) handler))\<lparr>outgoing :=
        \<lparr>chan_open = True, chan_queue = q\<rparr>\<rparr>\<rparr>,
      receiving_runs = True\<rparr>"

lemma tag_snow_fits: "outputs_fit (snow_of demo_env)"
  by (auto simp: outputs_fit_def demo_env_def layout_env_def tag_snow_def split: if_splits)

theorem receive_task_survives_witness:
  "\<exists>nd1. receive_turn demo_env queue_socket_ops (demo_node [([255, 1], SocketAddrV4 5 6)] []) = Some nd1
     \<and> mset (inbox (node_socket nd1)) = {#} \<and> receiving_runs nd1"
  using receive_task_survives [OF queue_udp.datagram_socket_axioms tag_snow_fits,
      of "demo_node [([255, 1], SocketAddrV4 5 6)] []"]
  by (auto simp: demo_node_def demo_queue_def)

text \<open>The sending task empties the channel: after as many turns as there are packets
  the channel is empty and the socket was given exactly the datagrams of the packets, in order,
  each once and to its destination; only a packet that cannot be serialised is left out. A socket
  that refuses the TTL or the datagram does not stop the task.\<close>

theorem send_task_drains:
  assumes "logs_sends ops log"
  shows "node_queue (send_turns en ops (length (node_queue nd)) nd) = []
    \<and> log (node_socket (send_turns en ops (length (node_queue nd)) nd)) =
        log (node_socket nd) @ List.map_filter (item_datagram en) (node_queue nd)
    \<and> send_turn en ops (send_turns en ops (length (node_queue nd)) nd) = None"
  using send_turns_drain [OF assms, of en nd] by (simp add: node_queue_def send_turn_def)

theorem send_task_drains_witness:
  "outbox (node_socket (send_turns demo_env queue_socket_ops (Suc 0)
      (demo_node [] [(SocketAddrV4 1 2, SessionPacket_new 5 [7], 64)])))
    = [(put_packet (SessionPacket_new 5 [7]), SocketAddrV4 1 2)]"
proof -
  have "logs_sends queue_socket_ops outbox" by (simp add: logs_sends_def queue_socket_ops_def)
  from send_task_drains [OF this, of demo_env "demo_node [] [(SocketAddrV4 1 2, SessionPacket_new 5 [7], 64)]"]
  show ?thesis
    by (simp add: node_queue_def demo_node_def demo_queue_def item_datagram_def map_filter_def
        demo_env_def layout_env_def layout_codec_def)
qed

end
