(* ===== verification/Stack.thy ===== *)
theory Stack
  imports VeqLink VeqTasks
begin

text \<open>
  The whole stack: the calls of \<open>send\<close> and \<open>recv\<close> of a \<open>VeqSession\<close> together with the two tasks of
  \<open>VeqSocket::from_socket\<close> (\<open>src/src/veq.rs\<close>) on sockets that keep the contract of \<open>Sockets\<close>. What
  lies between the two sockets is a network that loses, repeats and reorders datagrams.
\<close>

section \<open>A peer\<close>

text \<open>A connection and the tasks of its socket, which share the handler.\<close>

record ('k, 'h, 's) peer =
  conn :: "('h, 's) veq_session_alias"
  node :: "('k, 'h, 's) node"

text \<open>Messages are handed to \<open>send\<close>, and the sending task empties the channel.\<close>

definition peer_sends ::
    "('b, 'h, 's) env \<Rightarrow> bool \<Rightarrow> chunked_data codec \<Rightarrow> 'k bidir_socket \<Rightarrow> bytes list \<Rightarrow> ('k, 'h, 's) peer \<Rightarrow>
       ('k, 'h, 's) peer \<times> (unit, veq_error) res" where
  "peer_sends en oc cdc ops ms p =
     (case send_each (VeqSession_send (Chunker_send oc cdc (BidirectionalSession_send en))) (conn p) ms of
        (v, r) \<Rightarrow>
          (let nd = (node p)\<lparr>node_handler := veq_handler v\<rparr>;
               nd1 = send_turns en ops (length (node_queue nd)) nd
           in (p\<lparr>conn := with_handler (node_handler nd1) v, node := nd1\<rparr>, r)))"

text \<open>The receiving task takes what is pending, at most \<open>fuel - 1\<close> datagrams, and \<open>recv\<close> is called
  \<open>n\<close> times; \<open>None\<close> when a call waits.\<close>

definition peer_receives ::
    "('b, 'h, 's) env \<Rightarrow> bool \<Rightarrow> chunked_data codec \<Rightarrow> 'k bidir_socket \<Rightarrow> uuid \<Rightarrow> waker \<Rightarrow> nat \<Rightarrow> nat \<Rightarrow>
       ('k, 'h, 's) peer \<Rightarrow> (('k, 'h, 's) peer \<times> bytes list) option" where
  "peer_receives en oc cdc ops fresh w fuel n p =
     (case receive_turns en ops fuel (node p) of
        None \<Rightarrow> None
      | Some nd \<Rightarrow>
          (case recv_many (VeqSession_recv (Chunker_recv oc cdc (BidirectionalSession_recv fresh w))) n
                  (with_handler (node_handler nd) (conn p)) of
             None \<Rightarrow> None
           | Some (v, xs) \<Rightarrow> Some (p\<lparr>conn := v, node := nd\<lparr>node_handler := veq_handler v\<rparr>\<rparr>, xs)))"

text \<open>Two peers of one connection, which are about to send under the nonces \<open>k\<close> and \<open>l\<close>.\<close>

definition talking ::
    "('b, 'h, 's) env \<Rightarrow> chunked_data codec \<Rightarrow> session_id \<Rightarrow> u64 \<Rightarrow> u64 \<Rightarrow>
       ('j, 'h, 's) peer \<Rightarrow> ('k, 'h, 's) peer \<Rightarrow> bool" where
  "talking en cdc i k l p q \<longleftrightarrow>
     connected_ends en cdc i k (conn p) (conn q) \<and> connected_ends en cdc i l (conn q) (conn p)
     \<and> node_handler (node p) = veq_handler (conn p) \<and> node_handler (node q) = veq_handler (conn q)
     \<and> receiving_runs (node p) \<and> receiving_runs (node q)"

lemma talking_sym: "talking en cdc i k l p q \<longleftrightarrow> talking en cdc i l k q p"
  by (auto simp: talking_def)

section \<open>The tasks\<close>

lemma mset_map_permutation:
  "mset xs = image_mset f (mset ys) \<Longrightarrow> \<exists>zs. mset zs = mset ys \<and> xs = map f zs"
proof (induction xs arbitrary: ys)
  case (Cons x xs)
  have "x \<in># image_mset f (mset ys)" using Cons.prems by (metis list.set_intros(1) set_mset_mset)
  then obtain y where y: "y \<in> set ys" "x = f y" by auto
  then have "mset xs = image_mset f (mset (remove1 y ys))"
    using Cons.prems by (simp add: image_mset_Diff flip: Cons.prems)
  then obtain zs where "mset zs = mset (remove1 y ys)" "xs = map f zs" using Cons.IH by blast
  then show ?case using y by (intro exI [of _ "y # zs"]) simp
qed simp

lemma map_filter_all:
  "map f xs = map (\<lambda>y. Some (g y)) ys \<Longrightarrow> List.map_filter f xs = map g ys"
  by (induction xs arbitrary: ys) (auto simp: map_filter_simps Cons_eq_map_conv)

text \<open>The sending task changes the handler only by emptying the channel.\<close>

lemma send_turns_handler:
  "node_handler (send_turns en ops n nd) = (node_handler nd)\<lparr>rt := (rt (node_handler nd))\<lparr>outgoing :=
      (outgoing (rt (node_handler nd)))\<lparr>chan_queue := drop n (node_queue nd)\<rparr>\<rparr>\<rparr>
    \<and> receiving_runs (send_turns en ops n nd) = receiving_runs nd"
proof (induction n arbitrary: nd)
  case 0
  then show ?case by (simp add: node_queue_def)
next
  case (Suc n)
  show ?case
  proof (cases "node_queue nd")
    case Nil
    then show ?thesis by (simp add: send_turn_def node_queue_def)
  next
    case (Cons it q)
    obtain dest pk ttl where it: "it = (dest, pk, ttl)" by (cases it)
    show ?thesis
      using Cons Suc.IH
      by (cases "serialize (packet_codec en) pk") (simp_all add: send_turn_def node_queue_def it Let_def)
  qed
qed

lemma channel_emptied:
  fixes v :: "('h, 's) veq_session_alias"
  assumes "st = (veq_handler v)\<lparr>rt := (rt (veq_handler v))\<lparr>outgoing := (outgoing (rt (veq_handler v)))\<lparr>chan_queue := q\<rparr>\<rparr>\<rparr>"
  shows "can_send en b i k (with_handler st v) = can_send en b i k v"
    and "can_receive cdc b i k g (with_handler st v) = can_receive cdc b i k g v"
proof -
  have "established_at i s n r st = established_at i s n r (veq_handler v)" for s n r
    by (simp add: assms established_at_def)
  then show "can_send en b i k (with_handler st v) = can_send en b i k v"
    "can_receive cdc b i k g (with_handler st v) = can_receive cdc b i k g v"
    by (simp_all add: can_send_def can_receive_def assms leftover_cong [of "vs_delegate (with_handler _ v)" "vs_delegate v"])
qed

text \<open>The datagrams that wait at the receiver's socket, for arrivals of what was sent.\<close>

definition in_flight :: "bytes list \<Rightarrow> (nat \<times> socket_addr) list \<Rightarrow> datagram list" where
  "in_flight ds arr = map (\<lambda>(j, src). (ds ! j, src)) arr"

lemma hand_over:
  assumes "\<forall>d \<in> set ds. length d \<le> 65536" and "\<forall>a \<in> set arr. fst a < length ds"
  shows "fold (\<lambda>(d, a) st. fst (Handler_handle_incoming en a (take 65536 d) st)) (in_flight ds arr) st
    = arrive en ds arr st"
proof -
  have "take 65536 (ds ! fst a) = ds ! fst a" if "a \<in> set arr" for a using assms that by simp
  then show ?thesis
    unfolding in_flight_def arrive_def fold_map by (intro fold_cong) (auto simp: take_in_def fun_eq_iff)
qed

lemma receive_task_arrivals:
  assumes "datagram_socket ops pending" and "outputs_fit (snow_of en)" and "receiving_runs nd"
    and "\<forall>d \<in> set ds. length d \<le> 65536" and "\<forall>a \<in> set arr. fst a < length ds"
    and "pending (node_socket nd) = mset (in_flight ds arr)"
  obtains nd1 arr1 where "receive_turns en ops (Suc (length arr)) nd = Some nd1" and "mset arr1 = mset arr"
    and "pending (node_socket nd1) = {#}" and "receiving_runs nd1"
    and "node_handler nd1 = arrive en ds arr1 (node_handler nd)"
proof -
  have "size (pending (node_socket nd)) < Suc (length arr)" by (simp add: assms(6) in_flight_def)
  then obtain nd1 ps where nd1: "receive_turns en ops (Suc (length arr)) nd = Some nd1"
      "mset ps = pending (node_socket nd)" "pending (node_socket nd1) = {#}" "receiving_runs nd1"
      "node_handler nd1 =
        fold (\<lambda>(d, a) st. fst (Handler_handle_incoming en a (take 65536 d) st)) ps (node_handler nd)"
    using receive_turns_take_all [OF assms(1-3)] by blast
  then obtain arr1 where arr1: "mset arr1 = mset arr" "ps = in_flight ds arr1"
    using mset_map_permutation [of ps "\<lambda>(j, src). (ds ! j, src)" arr] assms(6) by (auto simp: in_flight_def)
  have "\<forall>a \<in> set arr1. fst a < length ds" using mset_eq_setD [OF arr1(1)] assms(5) by simp
  then have "node_handler nd1 = arrive en ds arr1 (node_handler nd)"
    unfolding nd1(5) arr1(2) by (rule hand_over [OF assms(4)])
  then show ?thesis using that nd1(1,3,4) arr1(1) by blast
qed

section \<open>A turn of the conversation\<close>

lemma peer_sends_all:
  assumes "handler_codecs en" and "codec_ok chunk_fits cdc" and "chunk_sizes cdc"
    and p: "can_send en b i k (conn p)" "node_handler (node p) = veq_handler (conn p)"
    and "\<forall>m \<in> set ms. m \<noteq> [] \<and> in_memory m" and "unat (current_group (vs_delegate (conn p))) + length ms < 2 ^ 64"
    and "unat k + length (all_chunks (current_group (vs_delegate (conn p))) 4096 ms) < 2 ^ 64"
    and "logs_sends ops log"
  obtains p' ds where "peer_sends en oc cdc ops ms p = (p', Ok ())" and "node_queue (node p') = []"
    and "log (node_socket (node p')) = log (node_socket (node p))
        @ List.map_filter (item_datagram en) (node_queue (node p)) @ map (\<lambda>d. (d, vs_remote_addr (conn p))) ds"
    and "\<forall>d \<in> set ds. length d \<le> 65536"
    and "carry_messages en cdc b i k (current_group (vs_delegate (conn p))) ms ds"
    and "can_send en b i (k + of_nat (length ds)) (conn p')" and "vs_remote_addr (conn p') = vs_remote_addr (conn p)"
    and "current_group (vs_delegate (conn p')) = current_group (vs_delegate (conn p)) + of_nat (length ms)"
    and "\<forall>a l g. can_receive cdc a i l g (conn p) \<longrightarrow> can_receive cdc a i l g (conn p')"
    and "node_handler (node p') = veq_handler (conn p')" and "receiving_runs (node p') = receiving_runs (node p)"
proof -
  obtain v its ds where
    v: "send_each (VeqSession_send (Chunker_send oc cdc (BidirectionalSession_send en))) (conn p) ms = (v, Ok ())"
      "chan_queue (outgoing (rt (veq_handler v))) = chan_queue (outgoing (rt (veq_handler (conn p)))) @ its"
    and ds: "map (item_datagram en) its = map (\<lambda>d. Some (d, vs_remote_addr (conn p))) ds"
      "\<forall>d \<in> set ds. length d \<le> 4216" "carry_messages en cdc b i k (current_group (vs_delegate (conn p))) ms ds"
    and keep: "can_send en b i (k + of_nat (length ds)) v"
      "current_group (vs_delegate v) = current_group (vs_delegate (conn p)) + of_nat (length ms)"
      "vs_remote_addr v = vs_remote_addr (conn p)"
      "\<forall>cdc a l g. can_receive cdc a i l g (conn p) \<longrightarrow> can_receive cdc a i l g v"
    by (rule end_sends [OF assms(1-4,6-8)])
  let ?nd = "(node p)\<lparr>node_handler := veq_handler v\<rparr>"
  let ?nd1 = "send_turns en ops (length (node_queue ?nd)) ?nd"
  let ?p = "p\<lparr>conn := with_handler (node_handler ?nd1) v, node := ?nd1\<rparr>"
  have queue: "node_queue ?nd = node_queue (node p) @ its" using v(2) p(2) by (simp add: node_queue_def)
  have st: "node_handler ?nd1 = (veq_handler v)\<lparr>rt := (rt (veq_handler v))\<lparr>outgoing :=
      (outgoing (rt (veq_handler v)))\<lparr>chan_queue := []\<rparr>\<rparr>\<rparr>" "receiving_runs ?nd1 = receiving_runs (node p)"
    using send_turns_handler [of en ops "length (node_queue ?nd)" ?nd] by simp_all
  have "List.map_filter (item_datagram en) its = map (\<lambda>d. (d, vs_remote_addr (conn p))) ds"
    using ds(1) by (rule map_filter_all)
  then have logged: "node_queue ?nd1 = []" "log (node_socket ?nd1) = log (node_socket (node p))
      @ List.map_filter (item_datagram en) (node_queue (node p)) @ map (\<lambda>d. (d, vs_remote_addr (conn p))) ds"
    using send_turns_drain [OF assms(9), of en ?nd] queue by (simp_all add: map_filter_def)
  have "peer_sends en oc cdc ops ms p = (?p, Ok ())" by (simp add: peer_sends_def v(1) Let_def)
  then show ?thesis
    by (rule that [of ?p ds])
      (use logged ds(2,3) keep st channel_emptied(1) [OF st(1), of en] channel_emptied(2) [OF st(1)] in auto)
qed

lemma peer_receives_arrivals:
  assumes q: "can_receive cdc b i k g (conn q)" "node_handler (node q) = veq_handler (conn q)"
    and ms: "carry_messages en cdc b i k g ms ds" "\<forall>m \<in> set ms. m \<noteq> [] \<and> in_memory m" "unat g + length ms < 2 ^ 64"
    and arr: "\<forall>a \<in> set arr. fst a < length ds" "got = arrived_messages 4096 (set (newest 0 (map fst arr))) ms"
    and turns: "receive_turns en ops fuel (node q) = Some nd" "node_handler nd = arrive en ds arr (node_handler (node q))"
  obtains q' where "peer_receives en oc cdc ops fresh w fuel (length got) q = Some (q', got)"
    and "VeqSession_recv (Chunker_recv oc cdc (BidirectionalSession_recv fresh w)) (conn q') = None"
    and "can_receive cdc b i (k + of_nat (length ds)) (g + of_nat (length ms)) (conn q')"
    and "current_group (vs_delegate (conn q')) = current_group (vs_delegate (conn q))"
    and "\<forall>a l. can_send en a i l (conn q) \<longrightarrow> can_send en a i l (conn q')"
    and "node_handler (node q') = veq_handler (conn q')" and "node_socket (node q') = node_socket nd"
    and "receiving_runs (node q') = receiving_runs nd" and "node_queue (node q') = node_queue (node q)"
proof -
  obtain v where v: "recv_many (VeqSession_recv (Chunker_recv oc cdc (BidirectionalSession_recv fresh w))) (length got)
      (with_handler (arrive en ds arr (veq_handler (conn q))) (conn q)) = Some (v, got)"
    "VeqSession_recv (Chunker_recv oc cdc (BidirectionalSession_recv fresh w)) v = None"
    "can_receive cdc b i (k + of_nat (length ds)) (g + of_nat (length ms)) v"
    "current_group (vs_delegate v) = current_group (vs_delegate (conn q))"
    "\<forall>a l. can_send en a i l (conn q) \<longrightarrow> can_send en a i l v"
    "outgoing (rt (veq_handler v)) = outgoing (rt (veq_handler (conn q)))"
    by (rule end_hears [OF q(1) ms arr])
  show ?thesis
    by (rule that [of "q\<lparr>conn := v, node := nd\<lparr>node_handler := veq_handler v\<rparr>\<rparr>"])
      (use v turns q(2) in \<open>simp_all add: peer_receives_def node_queue_def\<close>)
qed

lemma talking_turn:
  assumes "talking en cdc i k l p q" and "can_send en b i k (conn p)"
    and "can_receive cdc b i k (current_group (vs_delegate (conn p))) (conn q)"
    and "can_send en b i k' (conn p')" and "can_receive cdc b i k' (current_group (vs_delegate (conn p'))) (conn q')"
    and "\<forall>a l g. can_receive cdc a i l g (conn p) \<longrightarrow> can_receive cdc a i l g (conn p')"
    and "\<forall>a l. can_send en a i l (conn q) \<longrightarrow> can_send en a i l (conn q')"
    and "current_group (vs_delegate (conn q')) = current_group (vs_delegate (conn q))"
    and "node_handler (node p') = veq_handler (conn p')" and "node_handler (node q') = veq_handler (conn q')"
    and "receiving_runs (node p')" and "receiving_runs (node q')"
  shows "talking en cdc i k' l p' q'"
  using assms unfolding talking_def connected_ends_def by metis

section \<open>Properties\<close>

text \<open>C1 (roundtrip). A conversation through the whole stack. Of two peers that are connected, one sends
  messages that are not empty, one after the other. Every call of \<open>send\<close> succeeds; the sending task
  then empties the channel, and its socket has been given, after what was waiting before, the
  datagrams \<open>ds\<close>, each once, in order and to the peer's address. The network may lose, repeat and
  reorder them and show any source address: at the peer's socket wait the datagrams with the positions
  and sources in \<open>arr\<close>, and the socket hands them out in any order. The receiving task takes
  all of them and goes on; those newer than all before them count, and the calls of \<open>recv\<close> at
  the peer return, one by one and in order, exactly the messages all of whose datagrams count; the
  next call waits. When every datagram is taken once and in order these are all the messages.
  Afterwards the two are connected as before, in both directions, so that either of them can send
  next.\<close>

theorem conversation_over_sockets:
  assumes "handler_codecs en" and "codec_ok chunk_fits cdc" and "chunk_sizes cdc" and "outputs_fit (snow_of en)"
    and talk: "talking en cdc i k l p q" and "\<forall>m \<in> set ms. m \<noteq> [] \<and> in_memory m"
    and "unat (current_group (vs_delegate (conn p))) + length ms < 2 ^ 64"
    and "unat k + length (all_chunks (current_group (vs_delegate (conn p))) 4096 ms) < 2 ^ 64"
    and "logs_sends opsp log" and "datagram_socket opsq pending"
  shows "\<exists>p' ds. peer_sends en oc cdc opsp ms p = (p', Ok ()) \<and> node_queue (node p') = []
    \<and> log (node_socket (node p')) = log (node_socket (node p))
        @ List.map_filter (item_datagram en) (node_queue (node p)) @ map (\<lambda>d. (d, vs_remote_addr (conn p))) ds
    \<and> (\<forall>s arr. (\<forall>a \<in> set arr. fst a < length ds) \<longrightarrow> pending s = mset (in_flight ds arr) \<longrightarrow>
        (\<exists>arr' q' got. mset arr' = mset arr \<and> got = arrived_messages 4096 (set (newest 0 (map fst arr'))) ms
          \<and> peer_receives en oc cdc opsq fresh w (Suc (length arr)) (length got)
              (q\<lparr>node := (node q)\<lparr>node_socket := s\<rparr>\<rparr>) = Some (q', got)
          \<and> VeqSession_recv (Chunker_recv oc cdc (BidirectionalSession_recv fresh w)) (conn q') = None
          \<and> pending (node_socket (node q')) = {#}
          \<and> talking en cdc i (k + of_nat (length ds)) l p' q'))
    \<and> arrived_messages 4096 (set (newest 0 [0 ..< length ds])) ms = ms"
proof -
  obtain b where b: "can_send en b i k (conn p)" "can_receive cdc b i k (current_group (vs_delegate (conn p))) (conn q)"
    and peers: "node_handler (node p) = veq_handler (conn p)" "node_handler (node q) = veq_handler (conn q)"
      "receiving_runs (node p)" "receiving_runs (node q)"
    using talk unfolding talking_def connected_ends_def by blast
  obtain p' ds where sent: "peer_sends en oc cdc opsp ms p = (p', Ok ())" "node_queue (node p') = []"
      "log (node_socket (node p')) = log (node_socket (node p))
        @ List.map_filter (item_datagram en) (node_queue (node p)) @ map (\<lambda>d. (d, vs_remote_addr (conn p))) ds"
    and ds: "\<forall>d \<in> set ds. length d \<le> 65536" "carry_messages en cdc b i k (current_group (vs_delegate (conn p))) ms ds"
    and p': "can_send en b i (k + of_nat (length ds)) (conn p')"
      "current_group (vs_delegate (conn p')) = current_group (vs_delegate (conn p)) + of_nat (length ms)"
      "\<forall>a l g. can_receive cdc a i l g (conn p) \<longrightarrow> can_receive cdc a i l g (conn p')"
      "node_handler (node p') = veq_handler (conn p')" "receiving_runs (node p') = receiving_runs (node p)"
    by (rule peer_sends_all [OF assms(1-3) b(1) peers(1) assms(6-9)])
  have "\<exists>arr' q' got. mset arr' = mset arr \<and> got = arrived_messages 4096 (set (newest 0 (map fst arr'))) ms
          \<and> peer_receives en oc cdc opsq fresh w (Suc (length arr)) (length got)
              (q\<lparr>node := (node q)\<lparr>node_socket := s\<rparr>\<rparr>) = Some (q', got)
          \<and> VeqSession_recv (Chunker_recv oc cdc (BidirectionalSession_recv fresh w)) (conn q') = None
          \<and> pending (node_socket (node q')) = {#} \<and> talking en cdc i (k + of_nat (length ds)) l p' q'"
    if arr: "\<forall>a \<in> set arr. fst a < length ds" "pending s = mset (in_flight ds arr)" for s arr
  proof -
    let ?q = "q\<lparr>node := (node q)\<lparr>node_socket := s\<rparr>\<rparr>"
    have q: "receiving_runs (node ?q)" "pending (node_socket (node ?q)) = mset (in_flight ds arr)"
      "can_receive cdc b i k (current_group (vs_delegate (conn p))) (conn ?q)"
      "node_handler (node ?q) = veq_handler (conn ?q)"
      using peers(2,4) arr(2) b(2) by simp_all
    obtain nd arr' where nd: "receive_turns en opsq (Suc (length arr)) (node ?q) = Some nd" "mset arr' = mset arr"
        "pending (node_socket nd) = {#}" "receiving_runs nd"
        "node_handler nd = arrive en ds arr' (node_handler (node ?q))"
      by (rule receive_task_arrivals [OF assms(10,4) q(1) ds(1) arr(1) q(2)])
    have "\<forall>a \<in> set arr'. fst a < length ds" using arr(1) mset_eq_setD [OF nd(2)] by simp
    note heard = peer_receives_arrivals [OF q(3,4) ds(2) assms(6,7) this refl nd(1,5)]
    let ?got = "arrived_messages 4096 (set (newest 0 (map fst arr'))) ms"
    obtain q' where q': "peer_receives en oc cdc opsq fresh w (Suc (length arr)) (length ?got) ?q = Some (q', ?got)"
        "VeqSession_recv (Chunker_recv oc cdc (BidirectionalSession_recv fresh w)) (conn q') = None"
        "can_receive cdc b i (k + of_nat (length ds))
          (current_group (vs_delegate (conn p)) + of_nat (length ms)) (conn q')"
        "current_group (vs_delegate (conn q')) = current_group (vs_delegate (conn ?q))"
        "\<forall>a l. can_send en a i l (conn ?q) \<longrightarrow> can_send en a i l (conn q')"
        "node_handler (node q') = veq_handler (conn q')" "node_socket (node q') = node_socket nd"
        "receiving_runs (node q') = receiving_runs nd"
      by (rule heard)
    have "talking en cdc i (k + of_nat (length ds)) l p' q'"
      by (rule talking_turn [OF talk b p'(1)]) (use p' q' nd(4) peers(3) in simp_all)
    with q' nd(2,3) show ?thesis by (intro exI [of _ arr'] exI [of _ q'] exI [of _ ?got]) simp
  qed
  moreover have "arrived_messages 4096 (set (newest 0 [0 ..< length ds])) ms = ms"
    using carry_messages_length [OF ds(2)]
    by (intro arrived_all [of "current_group (vs_delegate (conn p))"]) (auto simp: newest_id)
  ultimately show ?thesis
    using sent by (intro exI [of _ p'] exI [of _ ds]) simp
qed

text \<open>Two messages of one chunk each, of which the first datagram is lost.\<close>

definition demo_peer :: "(queue_socket, unit, u8) peer" where
  "demo_peer =
     \<lparr>conn = demo_end,
      node = \<lparr>node_socket = demo_queue (SocketAddrV4 0 9) [], node_handler = veq_handler demo_end,
              receiving_runs = True\<rparr>\<rparr>"

lemma demo_talking: "talking (layout_env tag_snow) cdc 5 0 0 demo_peer demo_peer"
  by (simp add: talking_def demo_peer_def demo_end_connected)

theorem conversation_over_sockets_witness:
  "\<exists>p ds q.
    peer_sends (layout_env tag_snow) True chunk_layout queue_socket_ops [[1, 2, 3], [4]] demo_peer = (p, Ok ())
    \<and> outbox (node_socket (node p)) = map (\<lambda>d. (d, SocketAddrV4 1 2)) ds
    \<and> peer_receives (layout_env tag_snow) True chunk_layout queue_socket_ops 1 0 2 1
        (demo_peer\<lparr>node := (node demo_peer)\<lparr>node_socket :=
           demo_queue (SocketAddrV4 0 9) [(ds ! 1, SocketAddrV4 7 7)]\<rparr>\<rparr>) = Some (q, [[4]])"
proof -
  let ?ms = "[[1, 2, 3], [4] :: bytes]" and ?arr = "[(1, SocketAddrV4 7 7)]"
  have got: "arrived_messages 4096 (set (newest 0 [1])) ?ms = [[4]]" by (simp add: slice_chunks_step)
  have ms: "\<forall>m \<in> set ?ms. m \<noteq> [] \<and> in_memory m" by (simp add: in_memory_def)
  have room: "unat (current_group (vs_delegate (conn demo_peer))) + length ?ms < 2 ^ 64"
    "unat (0 :: u64) + length (all_chunks (current_group (vs_delegate (conn demo_peer))) 4096 ?ms) < 2 ^ 64"
    by (simp_all add: demo_peer_def demo_end_def Chunker_new_def make_chunks_def slice_chunks_step)
  have logs: "logs_sends queue_socket_ops outbox" by (simp add: logs_sends_def queue_socket_ops_def)
  have fits: "outputs_fit (snow_of (layout_env tag_snow))" using tag_snow_fits by (simp add: demo_env_def)
  have two: "1 < length ds" if "arrived_messages 4096 (set (newest 0 [0 ..< length ds])) ?ms = ?ms"
    for ds :: "bytes list"
  proof -
    have "1 \<in> set (newest 0 [0 ..< length ds])" using that by (simp add: slice_chunks_step split: if_splits)
    then show ?thesis using newest_subset [of 0 "[0 ..< length ds]"] by auto
  qed
  have idle: "node_queue (node demo_peer) = []" "outbox (node_socket (node demo_peer)) = []"
    "vs_remote_addr (conn demo_peer) = SocketAddrV4 1 2"
    by (simp_all add: node_queue_def demo_peer_def demo_end_def veq_handler_def Chunker_new_def Handler_new_def
        demo_queue_def)
  show ?thesis
    using conversation_over_sockets [OF layout_env_handler_codecs chunk_layout_ok chunk_layout_sizes fits
        demo_talking ms room logs queue_udp.datagram_socket_axioms, of True 1 0]
    apply (elim exE conjE)
    subgoal premises p for p ds
    proof -
      have arr: "\<forall>a \<in> set ?arr. fst a < length ds" using two [OF p(5)] by simp
      have pend: "mset (inbox (demo_queue (SocketAddrV4 0 9) [(ds ! 1, SocketAddrV4 7 7)])) = mset (in_flight ds ?arr)"
        by (simp add: demo_queue_def in_flight_def)
      from p(4) [THEN spec, THEN spec, THEN mp, OF arr, THEN mp, OF pend]
      obtain arr q g where q: "mset arr = mset ?arr"
          "g = arrived_messages 4096 (set (newest 0 (map fst arr))) ?ms"
          "peer_receives (layout_env tag_snow) True chunk_layout queue_socket_ops 1 0 (Suc (length ?arr)) (length g)
            (demo_peer\<lparr>node := (node demo_peer)\<lparr>node_socket :=
               demo_queue (SocketAddrV4 0 9) [(ds ! 1, SocketAddrV4 7 7)]\<rparr>\<rparr>) = Some (q, g)"
        by auto
      have "map fst arr = [1]" using q(1) by simp
      then have "g = [[4]]" using q(2) got by metis
      moreover have "outbox (node_socket (node p)) = map (\<lambda>d. (d, SocketAddrV4 1 2)) ds"
        using p(3) idle by (simp add: map_filter_simps)
      ultimately show ?thesis using p(1) q(3)
        by (intro exI [of _ p] exI [of _ ds] exI [of _ q] conjI) (simp_all add: numeral_2_eq_2)
    qed
    done
qed

end
