(* ===== verification/Connecting.thy ===== *)
theory Connecting
  imports Stack
begin

text \<open>
  Two calls of \<open>VeqSocket::connect\<close> (\<open>src/src/veq.rs\<close>) as a state machine. The steps of a side are the
  turns of its tasks (\<open>src/src/session.rs\<close>, the two tasks of \<open>from_socket\<close>) and the polls of its call, in
  any order; between the two sides is a network that may lose for good, repeat, delay and reorder
  what was sent and show any source address. Sessions may time out. The invariant says how far the
  two sides are.
\<close>

section \<open>The steps of a side\<close>

text \<open>A socket with a call of \<open>connect\<close>: the future it waits for, what it returned, and the datagrams that
  the sending task has handed to the socket and that the network has not lost.\<close>

record ('h, 's) caller =
  sock :: "('h, 's) veq_socket"
  call :: session_ready
  returned :: "(('h, 's) veq_session_alias, anyhow_error) res option"
  sent :: "bytes list"

abbreviation state :: "('h, 's) caller \<Rightarrow> ('h, 's) handler" where
  "state x \<equiv> sock_handler (sock x)"

definition with_state :: "('h, 's) handler \<Rightarrow> ('h, 's) caller \<Rightarrow> ('h, 's) caller" where
  "with_state st x = x\<lparr>sock := (sock x)\<lparr>sock_handler := st\<rparr>\<rparr>"

lemma with_state_sel [simp]:
  "state (with_state st x) = st" "call (with_state st x) = call x"
  "returned (with_state st x) = returned x" "sent (with_state st x) = sent x"
  by (simp_all add: with_state_def)

text \<open>One turn of the sending task and one poll of the call.\<close>

definition caller_transmits :: "('b, 'h, 's) env \<Rightarrow> ('h, 's) caller \<Rightarrow> ('h, 's) caller" where
  "caller_transmits en x =
     (case chan_queue (outgoing (rt (state x))) of
        [] \<Rightarrow> x
      | it # q \<Rightarrow>
          (with_state ((state x)\<lparr>rt := (rt (state x))\<lparr>outgoing := (outgoing (rt (state x)))\<lparr>chan_queue := q\<rparr>\<rparr>\<rparr>) x)
            \<lparr>sent := sent x @ map fst (List.map_filter (item_datagram en) [it])\<rparr>)"

definition caller_polls :: "waker \<Rightarrow> ('h, 's) caller \<Rightarrow> ('h, 's) caller" where
  "caller_polls w x =
     (case connect_poll w (call x) (sock x) of
        (sr, s, Pending) \<Rightarrow> x\<lparr>sock := s, call := sr\<rparr>
      | (sr, s, Ready r) \<Rightarrow> x\<lparr>sock := s, call := sr, returned := Some r\<rparr>)"

text \<open>The receiving task hands over the first 65536 bytes of a datagram.\<close>

definition caller_takes ::
    "('b, 'h, 's) env \<Rightarrow> socket_addr \<Rightarrow> bytes \<Rightarrow> ('h, 's) caller \<Rightarrow> ('h, 's) caller" where
  "caller_takes en src d x = with_state (fst (Handler_handle_incoming en src (take 65536 d) (state x))) x"

text \<open>The steps for the session \<open>i\<close>; the datagrams that may arrive are \<open>D\<close>. Removals that the drop of an earlier
  session \<open>i\<close> has spawned run at any time. A turn of the keepalive
  task is a step while a nonce is left, which it is for the first \<open>2 ^ 64 - 1\<close> seconds. A turn of the
  heartbeat task may find that no keepalive came in time: then the session is dead.\<close>

inductive caller_step ::
    "('b, 'h, 's) env \<Rightarrow> session_id \<Rightarrow> bytes set \<Rightarrow> ('h, 's) caller \<Rightarrow> ('h, 's) caller \<Rightarrow> bool"
  for en i D where
  announces_again: "task_of (state x) i = Some h \<Longrightarrow>
     caller_step en i D x (with_state (handler_announce en h (state x)) x)"
| keeps_alive: "established (state x) i = Some (n, r) \<Longrightarrow> sessions (state x) r = Some s \<Longrightarrow>
     next_nonce (transport s) \<noteq> u64_max \<Longrightarrow>
     caller_step en i D x (with_state (session_keepalive en r (state x)) x)"
| beats: "established (state x) i = Some (n, r) \<Longrightarrow> sessions (state x) r = Some s \<Longrightarrow>
     caller_step en i D x (with_state (session_heartbeat r (state x)) x)"
| removes: "k < length (closing (state x)) \<Longrightarrow> fst (closing (state x) ! k) = i \<Longrightarrow>
     caller_step en i D x (with_state (closer_tick k (state x)) x)"
| transmits: "caller_step en i D x (caller_transmits en x)"
| takes: "d \<in> D \<Longrightarrow> caller_step en i D x (caller_takes en src d x)"
| polls: "returned x = None \<Longrightarrow> caller_step en i D x (caller_polls w x)"

text \<open>Two sides: what either has sent may arrive at the other, any number of times, until the network
  loses it for good.\<close>

inductive connect_step ::
    "('b, 'h, 's) env \<Rightarrow> session_id \<Rightarrow> ('h, 's) caller \<times> ('h, 's) caller \<Rightarrow> ('h, 's) caller \<times> ('h, 's) caller \<Rightarrow> bool"
  for en i where
  one: "caller_step en i (set (sent y)) x x' \<Longrightarrow> connect_step en i (x, y) (x', y)"
| other: "caller_step en i (set (sent x)) y y' \<Longrightarrow> connect_step en i (x, y) (x, y')"
| loses_one: "set ds \<subseteq> set (sent x) \<Longrightarrow> connect_step en i (x, y) (x\<lparr>sent := ds\<rparr>, y)"
| loses_other: "set ds \<subseteq> set (sent y) \<Longrightarrow> connect_step en i (x, y) (x, y\<lparr>sent := ds\<rparr>)"

abbreviation connect_steps ::
    "('b, 'h, 's) env \<Rightarrow> session_id \<Rightarrow> ('h, 's) caller \<times> ('h, 's) caller \<Rightarrow> ('h, 's) caller \<times> ('h, 's) caller \<Rightarrow> bool" where
  "connect_steps en i \<equiv> (connect_step en i)\<^sup>*\<^sup>*"

text \<open>The tasks take such steps on every socket that keeps its contract.\<close>

lemma send_turn_transmits:
  assumes "logs_sends ops log" and "send_turn en ops nd = Some nd1" and "node_handler nd = state x"
  shows "\<exists>ds. state (caller_transmits en x) = node_handler nd1
    \<and> log (node_socket nd1) = log (node_socket nd) @ ds \<and> sent (caller_transmits en x) = sent x @ map fst ds"
  using assms
  by (auto simp: send_turn_def caller_transmits_def logs_sends_def item_datagram_def map_filter_simps Let_def
      split: list.splits prod.splits sum.splits)

lemma receive_turn_takes_step:
  assumes "datagram_socket ops pending" and "outputs_fit (snow_of en)" and "receive_turn en ops nd = Some nd1"
    and "node_handler nd = state x"
  shows "\<exists>d src. (d, src) \<in># pending (node_socket nd) \<and> node_handler nd1 = state (caller_takes en src d x)"
proof -
  have runs: "receiving_runs nd" using assms(3) by (auto simp: receive_turn_def split: if_splits)
  have "pending (node_socket nd) \<noteq> {#}" using receive_turn_waits [OF assms(1), of nd en] assms(3) by auto
  with receive_turn_takes [OF assms(1,2) runs] show ?thesis using assms(3,4) by (metis caller_takes_def option.inject with_state_sel(1))
qed

section \<open>Datagrams\<close>

definition says :: "('b, 'h, 's) env \<Rightarrow> session_id \<Rightarrow> raw_message \<Rightarrow> bytes \<Rightarrow> bool" where
  "says en i m d \<longleftrightarrow> length d \<le> 65536 \<and> (\<exists>p. on_wire en i m p d)"

text \<open>A keepalive that was sent under one of the nonces below \<open>k\<close> for the cipher \<open>b\<close>.\<close>

definition ticks :: "('b, 'h, 's) env \<Rightarrow> session_id \<Rightarrow> 's \<Rightarrow> u64 \<Rightarrow> bytes \<Rightarrow> bool" where
  "ticks en i b k d \<longleftrightarrow> length d \<le> 65536 \<and> (\<exists>j < k. wire_message en b i j Keepalive d)"

lemma below_max: "j < l \<Longrightarrow> j \<noteq> u64_max" for l :: u64
  using unsigned_less [of l, where 'a = nat] by (auto simp: word_less_nat_alt)

lemma zero_not_max: "(0 :: u64) \<noteq> u64_max"
  by simp

lemma nonce_advances: "k \<noteq> u64_max \<Longrightarrow> k < k + 1" for k :: u64
  using unat_plus_1 [of k] by (simp add: word_less_nat_alt)

lemma ticks_mono: "ticks en i b k d \<Longrightarrow> k \<le> k' \<Longrightarrow> ticks en i b k' d"
  unfolding ticks_def by (meson order.strict_trans2)

text \<open>What a side was ever given to send: sent by now, or still in the channel.\<close>

definition queued :: "('b, 'h, 's) env \<Rightarrow> ('h, 's) handler \<Rightarrow> bytes list" where
  "queued en st = map fst (List.map_filter (item_datagram en) (chan_queue (outgoing (rt st))))"

definition given :: "('b, 'h, 's) env \<Rightarrow> ('h, 's) caller \<Rightarrow> bytes set" where
  "given en x = set (sent x) \<union> set (queued en (state x))"

lemma given_same:
  "outgoing (rt (state x')) = outgoing (rt (state x)) \<Longrightarrow> sent x' = sent x \<Longrightarrow> given en x' = given en x"
  by (simp add: given_def queued_def)

lemma map_filter_append: "List.map_filter f (xs @ ys) = List.map_filter f xs @ List.map_filter f ys"
  by (simp add: map_filter_def)

lemma queued_append:
  "chan_queue (outgoing (rt st')) = chan_queue (outgoing (rt st)) @ its \<Longrightarrow>
     set (queued en st') = set (queued en st) \<union> fst ` set (List.map_filter (item_datagram en) its)"
  by (simp add: queued_def map_filter_append)

lemma announced_datagrams:
  "serialize (packet_codec en) p = Inr d \<Longrightarrow>
     List.map_filter (item_datagram en) (map (\<lambda>a. (a, p, lim)) addrs) = map (Pair d) addrs"
  by (induction addrs) (simp_all add: map_filter_simps item_datagram_def)

text \<open>A turn of the sending task moves a datagram from the channel to what was sent.\<close>

lemma caller_transmits_frame:
  "given en (caller_transmits en x) = given en x" "call (caller_transmits en x) = call x"
  "returned (caller_transmits en x) = returned x" "cells (state (caller_transmits en x)) = cells (state x)"
  "tasks (rt (state (caller_transmits en x))) = tasks (rt (state x))"
  "chan_open (outgoing (rt (state (caller_transmits en x)))) = chan_open (outgoing (rt (state x)))"
  "same_at i (state x) (state (caller_transmits en x))"
  "sessions (state (caller_transmits en x)) = sessions (state x)"
  by (auto simp: caller_transmits_def given_def queued_def same_at_def map_filter_simps
      split: list.split option.split)

text \<open>No step of a call spawns a removal.\<close>

lemma upgrade_closing: "closing (fst (upgrade_session i n s c st)) = closing st"
  by (simp add: upgrade_session_def remove_established_def drop_session_def Let_def split: option.split)

lemma stages_closing:
  "closing (fst (incoming_poker en src p e1 st)) = closing st" "closing (fst (incoming_initiator en src p e2 st)) = closing st"
  "closing (fst (incoming_responder en src p e3 st)) = closing st" "closing (fst (incoming_established en p st)) = closing st"
  subgoal by (simp add: incoming_poker_def split: prod.split res.split)
  subgoal by (simp add: incoming_initiator_def upgrade_closing split: prod.split res.split session_result.split)
  subgoal by (simp add: incoming_responder_def upgrade_closing split: prod.split res.split)
  subgoal by (simp add: incoming_established_def split: prod.split option.split)
  done

lemma incoming_closing: "closing (fst (Handler_handle_incoming en src d st)) = closing st"
  by (simp add: Handler_handle_incoming_def stages_closing Let_def split: sum.split option.split)

lemma caller_closing:
  "closing (state (caller_transmits en x)) = closing (state x)" "closing (state (caller_takes en src d x)) = closing (state x)"
  "closing (state (caller_polls w x)) = closing (state x)"
  subgoal by (simp add: caller_transmits_def split: list.split)
  subgoal by (simp add: caller_takes_def incoming_closing)
  subgoal
    by (cases "0 < notices (cells (state x) (sr_cell (call x)))"; cases "added_waker (call x)")
      (simp_all add: caller_polls_def connect_poll_def SessionReady_poll_def SessionReady_drop_def Let_def)
  done

section \<open>A side that announces\<close>

text \<open>A removal for an earlier session leaves the entry of another one alone.\<close>

lemma stale_removal:
  assumes "k < length (closing st)" and "fst (closing st ! k) = i" and "(i, n) \<notin> set (closing st)"
    and "\<forall>p m c. pokers st i = Some (p, m, c) \<longrightarrow> m = n" and "\<forall>p m c. initiators st i = Some (p, m, c) \<longrightarrow> m = n"
    and "\<forall>p m c. responders st i = Some (p, m, c) \<longrightarrow> m = n" and "\<forall>m r. established st i = Some (m, r) \<longrightarrow> m = n"
  shows "closer_tick k st = st\<lparr>closing := take k (closing st) @ drop (Suc k) (closing st)\<rparr>"
proof -
  obtain m where m: "closing st ! k = (i, m)" using assms(2) by (cases "closing st ! k") simp
  have "(i, m) \<in> set (closing st)" using assms(1) m nth_mem by metis
  then have "m \<noteq> n" using assms(3) by auto
  then have "\<forall>r. established st i \<noteq> Some (m, r)" "\<forall>p c. responders st i \<noteq> Some (p, m, c)"
      "\<forall>p c. pokers st i \<noteq> Some (p, m, c)" "\<forall>p c. initiators st i \<noteq> Some (p, m, c)"
    using assms(4-7) by auto
  then show ?thesis using assms(1) m by (simp add: closer_tick_def remove_session_def remove_blocks_stale)
qed

lemma still_closing: "set (take k xs) \<union> set (drop (Suc k) xs) \<subseteq> set xs"
  by (simp add: set_take_subset set_drop_subset)

text \<open>The call waits for the future behind the cell \<open>c\<close>.\<close>

definition calling :: "session_id \<Rightarrow> one_time_id \<Rightarrow> nat \<Rightarrow> ('h, 's) caller \<Rightarrow> bool" where
  "calling i n c x \<longleftrightarrow>
     returned x = None \<and> sr_id (call x) = i \<and> sr_one_time_id (call x) = n \<and> sr_cell (call x) = c
     \<and> receiver_alive (cells (state x) c)"

text \<open>The entry for \<open>i\<close> is as \<open>P\<close> says, its task announces \<open>m\<close> to \<open>addrs\<close>, and the side was given only
  datagrams of \<open>S\<close>.\<close>

definition announcing ::
    "('b, 'h, 's) env \<Rightarrow> session_id \<Rightarrow> one_time_id \<Rightarrow> nat \<Rightarrow> (('h, 's) handler \<Rightarrow> bool) \<Rightarrow> socket_addr list \<Rightarrow>
       raw_message \<Rightarrow> bytes set \<Rightarrow> ('h, 's) caller \<Rightarrow> bool" where
  "announcing en i n c P addrs m S x \<longleftrightarrow>
     P (state x) \<and> calling i n c x \<and> notices (cells (state x) c) = 0 \<and> chan_open (outgoing (rt (state x)))
     \<and> (\<exists>h. task_of (state x) i = Some h
          \<and> tasks (rt (state x)) h = Some \<lparr>ann_addresses = addrs, ann_id = i, ann_message = m\<rparr>)
     \<and> given en x \<subseteq> S \<and> (i, n) \<notin> set (closing (state x))"

text \<open>A predicate on the pending entry for \<open>i\<close>, which has the one-time identifier \<open>n\<close>, and nothing else.\<close>

definition of_pending :: "session_id \<Rightarrow> one_time_id \<Rightarrow> (('h, 's) handler \<Rightarrow> bool) \<Rightarrow> bool" where
  "of_pending i n P \<longleftrightarrow>
     (\<forall>st st'. same_at i st st' \<longrightarrow> P st' = P st)
     \<and> (\<forall>st. P st \<longrightarrow> established st i = None \<and> (\<forall>p m c. pokers st i = Some (p, m, c) \<longrightarrow> m = n)
          \<and> (\<forall>p m c. initiators st i = Some (p, m, c) \<longrightarrow> m = n) \<and> (\<forall>p m c. responders st i = Some (p, m, c) \<longrightarrow> m = n))"

lemma of_pending_entries:
  "of_pending i n (initiating_at i ini n c)" "of_pending i n (poking_at i rsp n c)"
  "of_pending i n (responding_at i addr lt n c)"
  by (auto simp: of_pending_def same_at_def initiating_at_def poking_at_def responding_at_def)

lemma task_of_same: "same_at i st st' \<Longrightarrow> task_of st' i = task_of st i"
  by (auto simp: same_at_def task_of_def split: option.split)

lemma announce_says:
  assumes "handler_codecs en" and "raw_size m \<le> 65000" and "chan_open (outgoing (rt st))"
    and "tasks (rt st) h = Some \<lparr>ann_addresses = addrs, ann_id = i, ann_message = m\<rparr>"
  obtains p d where "says en i m d" and "serialize (packet_codec en) p = Inr d"
    and "handler_announce en h st = st\<lparr>rt := (rt st)\<lparr>outgoing := (outgoing (rt st))\<lparr>chan_queue :=
      chan_queue (outgoing (rt st)) @ map (\<lambda>a. (a, p, 64)) addrs\<rparr>\<rparr>\<rparr>"
proof -
  have "raw_size m \<le> 66000" using assms(2) by simp
  then obtain bytes d where b: "serialize (raw_codec en) m = Inr bytes" "on_wire en i m (SessionPacket_new i bytes) d"
    by (rule raw_on_wire [OF assms(1)])
  have "length d \<le> raw_size m + 32"
    using assms(1) b unfolding handler_codecs_def packet_sizes_def raw_sizes_def on_wire_def by force
  then have "says en i m d" using b(2) assms(2) by (auto simp: says_def)
  moreover have "serialize (packet_codec en) (SessionPacket_new i bytes) = Inr d" using b(2) by (simp add: on_wire_def)
  ultimately show ?thesis
    by (rule that) (use b(1) assms(3,4) in \<open>simp add: handler_announce_def announce_tick_def announce_to_open\<close>)
qed

lemma poll_pending:
  assumes "calling i n c x" and "notices (cells (state x) c) = 0"
  obtains cs sr where "caller_polls w x = (with_state ((state x)\<lparr>cells := cs\<rparr>) x)\<lparr>call := sr\<rparr>"
    and "calling i n c (caller_polls w x)" and "notices (cs c) = 0"
proof (cases "added_waker (call x)")
  case True
  then have "caller_polls w x = x"
    using assms by (simp add: caller_polls_def connect_poll_def SessionReady_poll_def calling_def Let_def)
  then show ?thesis
    using assms by (intro that [of "call x" "cells (state x)"]) (simp_all add: with_state_def)
next
  case False
  let ?cs = "(cells (state x))(c := (cells (state x) c)\<lparr>ready_wakers := ready_wakers (cells (state x) c) @ [w]\<rparr>)"
  have polled: "caller_polls w x = (with_state ((state x)\<lparr>cells := ?cs\<rparr>) x)\<lparr>call := (call x)\<lparr>added_waker := True\<rparr>\<rparr>"
    using assms False
    by (simp add: caller_polls_def connect_poll_def SessionReady_poll_def calling_def with_state_def Let_def)
  show ?thesis by (rule that [OF polled]) (use assms in \<open>simp_all add: polled calling_def\<close>)
qed

text \<open>Such a side stays as it is, whatever step it takes, until a datagram is handed to it.\<close>

lemma announcing_step:
  assumes "handler_codecs en" and "raw_size m \<le> 65000" and "{d. says en i m d} \<subseteq> S" and P: "of_pending i n P"
    and x: "announcing en i n c P addrs m S x" and "caller_step en i D x x'"
  shows "announcing en i n c P addrs m S x' \<or> (\<exists>d \<in> D. \<exists>src. x' = caller_takes en src d x)"
proof -
  obtain h where h: "task_of (state x) i = Some h"
      "tasks (rt (state x)) h = Some \<lparr>ann_addresses = addrs, ann_id = i, ann_message = m\<rparr>"
    and q: "P (state x)" "calling i n c x" "notices (cells (state x) c) = 0" "chan_open (outgoing (rt (state x)))"
      "given en x \<subseteq> S" "(i, n) \<notin> set (closing (state x))"
    using x unfolding announcing_def by blast
  have none: "established (state x) i = None" using P q(1) by (simp add: of_pending_def)
  have same: "P st'" if "same_at i (state x) st'" for st' using P q(1) that unfolding of_pending_def by blast
  from assms(6) show ?thesis
  proof cases
    case (announces_again h')
    obtain p d where d: "says en i m d" "serialize (packet_codec en) p = Inr d"
        "handler_announce en h (state x) = (state x)\<lparr>rt := (rt (state x))\<lparr>outgoing := (outgoing (rt (state x)))\<lparr>chan_queue :=
          chan_queue (outgoing (rt (state x))) @ map (\<lambda>a. (a, p, 64)) addrs\<rparr>\<rparr>\<rparr>"
      by (rule announce_says [OF assms(1,2) q(4) h(2)])
    have x': "x' = with_state ((state x)\<lparr>rt := (rt (state x))\<lparr>outgoing := (outgoing (rt (state x)))\<lparr>chan_queue :=
          chan_queue (outgoing (rt (state x))) @ map (\<lambda>a. (a, p, 64)) addrs\<rparr>\<rparr>\<rparr>) x"
      using announces_again h(1) d(3) by simp
    then have same': "same_at i (state x) (state x')" by (simp add: same_at_def)
    have "given en x' \<subseteq> given en x \<union> {d}"
      using x' d(2) by (auto simp: given_def queued_def map_filter_append announced_datagrams)
    then have "given en x' \<subseteq> S" using q(5) d(1) assms(3) by blast
    moreover have "calling i n c x'" "notices (cells (state x') c) = 0" "chan_open (outgoing (rt (state x')))"
        "tasks (rt (state x')) = tasks (rt (state x))" "(i, n) \<notin> set (closing (state x'))"
      using q x' by (simp_all add: calling_def)
    ultimately have "announcing en i n c P addrs m S x'"
      using h same [OF same'] task_of_same [OF same'] by (simp add: announcing_def)
    then show ?thesis ..
  next
    case (removes k)
    have "closer_tick k (state x) = (state x)\<lparr>closing := take k (closing (state x)) @ drop (Suc k) (closing (state x))\<rparr>"
      by (rule stale_removal [OF removes(2,3) q(6)]) (use P q(1) in \<open>auto simp: of_pending_def\<close>)
    then have x': "x' = with_state ((state x)\<lparr>closing := take k (closing (state x)) @ drop (Suc k) (closing (state x))\<rparr>) x"
      using removes(1) by simp
    then have same': "same_at i (state x) (state x')" by (simp add: same_at_def)
    have "(i, n) \<notin> set (closing (state x'))" using q(6) x' still_closing [of k "closing (state x)"] by auto
    then show ?thesis
      using x' h q(2-5) same [OF same'] task_of_same [OF same'] given_same [of x' x en] by (simp add: announcing_def calling_def)
  next
    case transmits
    then show ?thesis
      using h q same [OF caller_transmits_frame(7) [of i x en]] task_of_same [OF caller_transmits_frame(7) [of i x en]]
      by (simp add: announcing_def calling_def caller_transmits_frame(1-6) caller_closing)
  next
    case (polls w)
    obtain cs sr where p: "caller_polls w x = (with_state ((state x)\<lparr>cells := cs\<rparr>) x)\<lparr>call := sr\<rparr>"
      "calling i n c (caller_polls w x)" "notices (cs c) = 0"
      by (rule poll_pending [OF q(2,3)])
    have same': "same_at i (state x) (state x')" using polls(1) p(1) by (simp add: same_at_def)
    show ?thesis
      using polls(1) p h q same [OF same'] task_of_same [OF same'] given_same [of x' x en] by (simp add: announcing_def)
  qed (use none in auto)
qed

section \<open>A side that is established\<close>

text \<open>The call is about to return the session with the peer at \<open>addr\<close>, or has returned it.\<close>

definition answered :: "session_id \<Rightarrow> one_time_id \<Rightarrow> nat \<Rightarrow> socket_addr \<Rightarrow> ('h, 's) caller \<Rightarrow> bool" where
  "answered i n c addr x \<longleftrightarrow>
     calling i n c x \<and> 0 < notices (cells (state x) c) \<or> (\<exists>st. returned x = Some (Ok (new_end i n st addr)))"

lemma answered_cong:
  "cells (state x') = cells (state x) \<Longrightarrow> call x' = call x \<Longrightarrow> returned x' = returned x \<Longrightarrow>
     answered i n c addr x' = answered i n c addr x"
  by (simp add: answered_def calling_def)

text \<open>
  The session of the side has the cipher \<open>a\<close>, sends under the nonce \<open>k\<close> next to the cipher \<open>b\<close>, and has read
  only nonces below \<open>l\<close>; what the side was given are datagrams of \<open>S\<close> and the keepalives sent. The session
  may be dead if \<open>z\<close>; while it is not, its two tasks run.
\<close>

definition joined ::
    "bool \<Rightarrow> ('b, 'h, 's) env \<Rightarrow> session_id \<Rightarrow> one_time_id \<Rightarrow> nat \<Rightarrow> 's \<Rightarrow> 's \<Rightarrow> bytes set \<Rightarrow> u64 \<Rightarrow> u64 \<Rightarrow> ('h, 's) caller \<Rightarrow> bool" where
  "joined z en i n c a b S k l x \<longleftrightarrow>
     (\<exists>s r. established_at i s n r (state x) \<and> sess_id s = i
        \<and> serialize (message_codec en) Keepalive = Inr (keepalive_serialized s)
        \<and> (if dead s then z else keepalive_runs s \<and> heartbeat_runs s) \<and> messages s = [] \<and> wakers s = []
        \<and> next_nonce (transport s) = k \<and> fresh_below a l (transport s)
        \<and> answered i n c (remote_addr s) x)
     \<and> chan_open (outgoing (rt (state x))) \<and> given en x \<subseteq> S \<union> {d. ticks en i b k d}
     \<and> (i, n) \<notin> set (closing (state x))"

text \<open>What is known of the session.\<close>

lemma joinedE:
  assumes "joined z en i n c a b S k l x" and "established_at i s n r (state x)"
  shows "sess_id s = i" and "serialize (message_codec en) Keepalive = Inr (keepalive_serialized s)"
    and "if dead s then z else keepalive_runs s \<and> heartbeat_runs s" and "messages s = []"
    and "next_nonce (transport s) = k" and "fresh_below a l (transport s)" and "answered i n c (remote_addr s) x"
    and "chan_open (outgoing (rt (state x)))" and "given en x \<subseteq> S \<union> {d. ticks en i b k d}"
    and "(i, n) \<notin> set (closing (state x))" and "wakers s = []"
  using assms(1) established_at_unique [OF assms(2)] unfolding joined_def by blast+

lemma fresh_below_mono: "fresh_below a l lt \<Longrightarrow> l \<le> l' \<Longrightarrow> fresh_below a l' lt"
  unfolding fresh_below_def by (meson order.strict_trans2)

lemma joined_mono: "joined z en i n c a b S k l x \<Longrightarrow> l \<le> l' \<Longrightarrow> joined z en i n c a b S k l' x"
  by (auto simp: joined_def intro: fresh_below_mono)

lemma joined_maybe_dead: "joined z en i n c a b S k l x \<Longrightarrow> joined True en i n c a b S k l x"
  unfolding joined_def by (auto split: if_splits)

text \<open>A nonce is news, or it and all below it are rejected.\<close>

lemma fresh_or_read:
  assumes "fresh_below a l lt"
  shows "fresh_below a j lt \<or> (\<exists>m. read_up_to a m lt \<and> j < m)"
proof (cases "received_nonces lt")
  case Nil
  then show ?thesis using assms by (simp add: fresh_below_def)
next
  case (Cons m ms)
  then have m: "received_nonces lt = [m]" "m < l" using assms by (simp_all add: fresh_below_def)
  have above: "v < m + 1 \<longleftrightarrow> v \<le> m" for v
    using unat_plus_1 [OF below_max [OF m(2)]] by (simp add: word_less_nat_alt word_le_nat_alt less_Suc_eq_le)
  have "read_up_to a (m + 1) lt"
    using assms m by (auto simp: read_up_to_def fresh_below_def nonce_rejected_def bts_contains_def bts_first_def above)
  then show ?thesis using assms m above by (cases "m < j") (auto simp: fresh_below_def)
qed

text \<open>A turn of the keepalive task; it is the last one if the session is dead.\<close>

definition kept_alive :: "'s session \<Rightarrow> 's session" where
  "kept_alive s = (if dead s then (advance 1 s)\<lparr>keepalive_runs := False\<rparr> else advance 1 s)"

lemma kept_alive_sel:
  "sess_id (kept_alive s) = sess_id s" "remote_addr (kept_alive s) = remote_addr s" "messages (kept_alive s) = messages s" "wakers (kept_alive s) = wakers s"
  "next_nonce (transport (kept_alive s)) = next_nonce (transport s) + 1"
  "fresh_below a l (transport (kept_alive s)) = fresh_below a l (transport s)"
  "keepalive_serialized (kept_alive s) = keepalive_serialized s"
  "keepalive_runs (kept_alive s) = (keepalive_runs s \<and> \<not> dead s)" "dead (kept_alive s) = dead s"
  "heartbeat_runs (kept_alive s) = heartbeat_runs s" "heartbeat (kept_alive s) = heartbeat s"
  by (simp_all add: kept_alive_def advance_def fresh_below_def)

lemma keepalive_ticks:
  assumes "handler_codecs en" and "established_at i s n r st" and "keepalive_runs s"
    and "serialize (message_codec en) Keepalive = Inr (keepalive_serialized s)" and "sess_id s = i"
    and "noise_pair (snow_of en) (stateless (transport s)) b" and "next_nonce (transport s) \<noteq> u64_max"
    and "chan_open (outgoing (rt st))"
  obtains p d where "serialize (packet_codec en) p = Inr d" and "ticks en i b (next_nonce (transport s) + 1) d"
    and "session_keepalive en r st = st\<lparr>sessions := (sessions st)(r \<mapsto> kept_alive s),
      rt := (rt st)\<lparr>outgoing := (outgoing (rt st))\<lparr>chan_queue :=
        chan_queue (outgoing (rt st)) @ [(remote_addr s, p, 64)]\<rparr>\<rparr>\<rparr>"
proof -
  obtain plain enc bytes d where x: "serialize (message_codec en) Keepalive = Inr plain"
      "seal (overflow_checks en) (nonced_codec en) (snow_of en) (transport s) plain
        = ((transport s)\<lparr>next_nonce := next_nonce (transport s) + 1\<rparr>, Ok enc)"
      "serialize (raw_codec en) (Encrypted enc) = Inr bytes"
      "serialize (packet_codec en) (SessionPacket_new i bytes) = Inr d"
      "wire_message en b i (next_nonce (transport s)) Keepalive d" "length d \<le> message_size Keepalive + 76"
    by (rule sealed_on_wire [OF assms(1,6,7), of Keepalive i]) simp
  have "ticks en i b (next_nonce (transport s) + 1) d" using nonce_advances [OF assms(7)] x(5,6) by (auto simp: ticks_def)
  then show ?thesis
    by (rule that [OF x(4)]) (use assms x in \<open>simp add: session_keepalive_def keepalive_tick_def
      established_at_def chan_send_def advance_def kept_alive_def\<close>)
qed

lemma keepalive_stopped:
  "sessions st r = Some s \<Longrightarrow> \<not> keepalive_runs s \<Longrightarrow> session_keepalive en r st = st"
  by (simp add: session_keepalive_def keepalive_tick_def fun_upd_idem)

text \<open>What a datagram does to an established session: nothing, or a keepalive is taken in.\<close>

lemma established_ignores:
  assumes "established_at i s n r st" and "says en i m d" and "\<nexists>e. m = Encrypted e"
  shows "Handler_handle_incoming en src d st = (st, Ok ())"
proof -
  obtain p where p: "deserialize (packet_codec en) d = Inr p" "packet_id p = i"
      "deserialize (raw_codec en) (packet_data p) = Inr m"
    using assms(2) by (auto simp: says_def on_wire_def)
  have "Session_handle_incoming en p s = (s, [], Ok ())"
    using p(3) assms(3) by (cases m) (simp_all add: Session_handle_incoming_def)
  moreover have "(sessions st)(r \<mapsto> s) = sessions st" "wake [] (rt st) = rt st"
    using assms(1) by (simp_all add: established_at_def fun_upd_idem wake_def)
  ultimately show ?thesis
    using assms(1) p by (simp add: Handler_handle_incoming_def incoming_established_def established_at_def)
qed

lemma established_ticked:
  assumes est: "established_at i s n r st" and "fresh_below a l (transport s)" and "ticks en i a l d"
  obtains s' where "established_at i s' n r (fst (Handler_handle_incoming en src d st))"
    and "fresh_below a l (transport s')" and "outward s' = outward s" and "messages s' = messages s" and "wakers s' = wakers s"
    and "cells (fst (Handler_handle_incoming en src d st)) = cells st"
    and "outgoing (rt (fst (Handler_handle_incoming en src d st))) = outgoing (rt st)"
proof -
  obtain j where j: "j < l" "wire_message en a i j Keepalive d" using assms(3) by (auto simp: ticks_def)
  show ?thesis
  proof (cases "fresh_below a j (transport s)")
    case True
    obtain p where p: "deserialize (packet_codec en) d = Inr p" "packet_id p = i" "bears en a j Keepalive p"
      using j(2) by (rule wire_messageE)
    obtain lt where lt: "Session_handle_incoming en p s = (s\<lparr>transport := lt, heartbeat := True\<rparr>, [], Ok ())"
        "read_up_to a (j + 1) lt"
      by (rule handle_incoming_bears [OF True below_max [OF j(1)] p(3)]) (simp add: taken_in_def)
    have "j + 1 \<le> l" using j(1) unat_plus_1 [OF below_max [OF j(1)]] by (simp add: word_less_nat_alt word_le_nat_alt)
    then have "fresh_below a l lt" by (rule fresh_below_mono [OF read_up_to_fresh [OF lt(2)]])
    then show ?thesis
      using est p lt(1) handle_incoming_outward [OF lt(1)]
      by (intro that [of "s\<lparr>transport := lt, heartbeat := True\<rparr>"])
        (simp_all add: Handler_handle_incoming_def incoming_established_def established_at_def wake_def)
  next
    case False
    then obtain m where "read_up_to a m (transport s)" "j < m" using fresh_or_read [OF assms(2), of j] by blast
    from established_late [OF est this j(2)] show ?thesis using est assms(2) by (intro that [of s]) simp_all
  qed
qed

text \<open>The datagrams that cannot harm an established side: of the handshake, or keepalives.\<close>

definition harmless :: "('b, 'h, 's) env \<Rightarrow> session_id \<Rightarrow> 's \<Rightarrow> u64 \<Rightarrow> bytes \<Rightarrow> bool" where
  "harmless en i a l d \<longleftrightarrow> (\<exists>m. says en i m d \<and> (\<nexists>e. m = Encrypted e)) \<or> ticks en i a l d"

lemma harmless_taken:
  assumes est: "established_at i s n r (state x)" and "fresh_below a l (transport s)" and "harmless en i a l d"
  obtains s' where "established_at i s' n r (state (caller_takes en src d x))"
    and "fresh_below a l (transport s')" and "outward s' = outward s" and "messages s' = messages s" and "wakers s' = wakers s"
    and "cells (state (caller_takes en src d x)) = cells (state x)"
    and "outgoing (rt (state (caller_takes en src d x))) = outgoing (rt (state x))"
proof -
  have len: "take 65536 d = d" using assms(3) by (auto simp: harmless_def says_def ticks_def)
  from assms(3) consider m where "says en i m d" "\<nexists>e. m = Encrypted e" | "ticks en i a l d"
    unfolding harmless_def by blast
  then show ?thesis
  proof cases
    case 1
    from established_ignores [OF est this] show ?thesis
      using est assms(2) len by (intro that [of s]) (simp_all add: caller_takes_def)
  next
    case 2
    show ?thesis
      by (rule established_ticked [OF est assms(2) 2, of src]) (rule that, unfold caller_takes_def with_state_sel len)
  qed
qed

text \<open>A turn of the heartbeat task: the session lives on, or it is dead and nobody will check again.\<close>

definition beaten :: "'s session \<Rightarrow> 's session" where
  "beaten s = fst (heartbeat_tick s)"

lemma heartbeat_beaten:
  assumes "sessions st r = Some s"
  obtains ws where "session_heartbeat r st = st\<lparr>sessions := (sessions st)(r \<mapsto> beaten s), rt := wake ws (rt st)\<rparr>"
  using assms that [of "snd (heartbeat_tick s)"] by (simp add: session_heartbeat_def beaten_def split_beta)

lemma beaten_sel:
  "sess_id (beaten s) = sess_id s" "remote_addr (beaten s) = remote_addr s" "messages (beaten s) = messages s" "wakers (beaten s) = wakers s"
  "transport (beaten s) = transport s" "keepalive_serialized (beaten s) = keepalive_serialized s"
  "keepalive_runs (beaten s) = keepalive_runs s" "dead s \<Longrightarrow> dead (beaten s)"
  "\<not> dead (beaten s) \<Longrightarrow> heartbeat_runs (beaten s) = heartbeat_runs s"
  by (auto simp: beaten_def heartbeat_tick_def split: if_splits)

text \<open>An established side stays established; its nonce may go on.\<close>

lemma joined_stays:
  assumes x: "joined z en i n c a b S k l x" and est: "established_at i s n r (state x)"
    and "established_at i s' n r (state x')" and "outward s' = outward s" and "messages s' = messages s"
    and "wakers s' = wakers s" and "fresh_below a l (transport s')"
    and "answered i n c (remote_addr s) x \<Longrightarrow> answered i n c (remote_addr s) x'" and "given en x' \<subseteq> given en x"
    and "chan_open (outgoing (rt (state x'))) = chan_open (outgoing (rt (state x)))"
    and "set (closing (state x')) \<subseteq> set (closing (state x))"
  shows "joined z en i n c a b S k l x'"
proof -
  note s = joinedE [OF x est]
  have "sess_id s' = i" "serialize (message_codec en) Keepalive = Inr (keepalive_serialized s')"
      "if dead s' then z else keepalive_runs s' \<and> heartbeat_runs s'" "messages s' = []" "wakers s' = []"
      "next_nonce (transport s') = k" "answered i n c (remote_addr s') x'"
    using s(1-5,11) assms(4-6,8) s(7) by (simp_all add: outward_def)
  moreover have "given en x' \<subseteq> S \<union> {d. ticks en i b k d}" "(i, n) \<notin> set (closing (state x'))"
    using assms(9,11) s(9,10) by blast+
  ultimately show ?thesis
    unfolding joined_def using assms(3,7,10) s(8) by (intro conjI exI [of _ s'] exI [of _ r]) simp_all
qed

lemma joined_keeps_alive:
  assumes "handler_codecs en" and "noise_pair (snow_of en) a b" and x: "joined z en i n c a b S k l x"
    and est: "established_at i s n r (state x)" and "k \<noteq> u64_max" and "keepalive_runs s"
  obtains d where "joined z en i n c a b S (k + 1) l (with_state (session_keepalive en r (state x)) x)"
    and "established_at i (kept_alive s) n r (session_keepalive en r (state x))"
    and "d \<in> set (queued en (session_keepalive en r (state x)))" and "ticks en i b (k + 1) d"
proof -
  let ?x = "with_state (session_keepalive en r (state x)) x"
  note s = joinedE [OF x est]
  have nonce: "noise_pair (snow_of en) (stateless (transport s)) b" "next_nonce (transport s) \<noteq> u64_max"
    using s(5,6) assms(2,5) by (simp_all add: fresh_below_def)
  obtain p d where d: "serialize (packet_codec en) p = Inr d" "ticks en i b (k + 1) d"
      "session_keepalive en r (state x) = (state x)\<lparr>sessions := (sessions (state x))(r \<mapsto> kept_alive s),
        rt := (rt (state x))\<lparr>outgoing := (outgoing (rt (state x)))\<lparr>chan_queue :=
          chan_queue (outgoing (rt (state x))) @ [(remote_addr s, p, 64)]\<rparr>\<rparr>\<rparr>"
    using keepalive_ticks [OF assms(1) est assms(6) s(2,1) nonce s(8)] unfolding s(5) .
  have up: "k \<le> k + 1" using nonce_advances [OF assms(5)] by (rule less_imp_le)
  have given: "given en ?x = given en x \<union> {d}"
    using d(1,3) by (auto simp: given_def queued_def map_filter_append map_filter_simps item_datagram_def)
  moreover have "{d. ticks en i b k d} \<subseteq> {d. ticks en i b (k + 1) d}" by (auto intro: ticks_mono [OF _ up])
  ultimately have "given en ?x \<subseteq> S \<union> {d. ticks en i b (k + 1) d}" using s(9) d(2) by auto
  moreover have "answered i n c (remote_addr s) ?x" using s(7) answered_cong [of ?x x] d(3) by simp
  moreover have est': "established_at i (kept_alive s) n r (state ?x)" using est d(3) by (simp add: established_at_def)
  ultimately have "joined z en i n c a b S (k + 1) l ?x"
    unfolding joined_def using s d(3)
    by (intro conjI exI [of _ "kept_alive s"] exI [of _ r]) (simp_all add: kept_alive_sel)
  moreover have "d \<in> set (queued en (session_keepalive en r (state x)))"
    using d(1,3) by (simp add: queued_def map_filter_append map_filter_simps item_datagram_def)
  ultimately show ?thesis using d(2) est' by (intro that) simp_all
qed

lemma joined_beats:
  assumes x: "joined z en i n c a b S k l x" and est: "established_at i s n r (state x)"
  shows "joined True en i n c a b S k l (with_state (session_heartbeat r (state x)) x)"
    and "established_at i (beaten s) n r (session_heartbeat r (state x))"
proof -
  let ?x = "with_state (session_heartbeat r (state x)) x"
  note s = joinedE [OF x est]
  obtain ws where h: "session_heartbeat r (state x) =
      (state x)\<lparr>sessions := (sessions (state x))(r \<mapsto> beaten s), rt := wake ws (rt (state x))\<rparr>"
    by (rule heartbeat_beaten [of "state x" r s]) (use est in \<open>simp add: established_at_def\<close>)
  then show est': "established_at i (beaten s) n r (session_heartbeat r (state x))"
    using est by (simp add: established_at_def)
  have "given en ?x = given en x" using h by (intro given_same) (simp_all add: wake_def)
  moreover have "answered i n c (remote_addr (beaten s)) ?x"
    using s(7) answered_cong [of ?x x] h by (simp add: beaten_sel)
  moreover have "if dead (beaten s) then True else keepalive_runs (beaten s) \<and> heartbeat_runs (beaten s)"
    using s(3) beaten_sel(7-9) [of s] by (cases "dead s"; cases "dead (beaten s)") simp_all
  ultimately show "joined True en i n c a b S k l ?x"
    unfolding joined_def using s est' h
    by (intro conjI exI [of _ "beaten s"] exI [of _ r]) (simp_all add: beaten_sel wake_def)
qed

lemma joined_loses:
  assumes x: "joined z en i n c a b S k l x" and "set ds \<subseteq> set (sent x)"
  shows "joined z en i n c a b S k l (x\<lparr>sent := ds\<rparr>)"
proof -
  obtain s r where est: "established_at i s n r (state x)" using x unfolding joined_def by blast
  have "given en (x\<lparr>sent := ds\<rparr>) \<subseteq> given en x" using assms(2) by (auto simp: given_def)
  then show ?thesis
    by (intro joined_stays [OF x est, of s])
      (use est joinedE [OF x est] in \<open>simp_all add: answered_def calling_def\<close>)
qed

lemma announcing_loses:
  "announcing en i n c P addrs m S x \<Longrightarrow> set ds \<subseteq> set (sent x) \<Longrightarrow> announcing en i n c P addrs m S (x\<lparr>sent := ds\<rparr>)"
  by (auto simp: announcing_def calling_def given_def)

lemma joined_polls:
  assumes x: "joined z en i n c a b S k l x" and "returned x = None"
  shows "joined z en i n c a b S k l (caller_polls w x) \<and> returned (caller_polls w x) \<noteq> None"
proof -
  obtain s r where est: "established_at i s n r (state x)" and s: "fresh_below a l (transport s)" "answered i n c (remote_addr s) x"
    using x unfolding joined_def by blast
  then have call: "0 < notices (cells (state x) c)" "sr_id (call x) = i" "sr_one_time_id (call x) = n" "sr_cell (call x) = c"
    using assms(2) by (simp_all add: answered_def calling_def)
  obtain st1 where p: "connect_poll w (call x) (sock x) = ((call x)\<lparr>completed := True\<rparr>, (sock x)\<lparr>sock_handler := st1\<rparr>,
      Ready (Ok (new_end i n st1 (remote_addr s))))" "established_at i s n r st1" "rt st1 = rt (state x)"
    by (rule connect_poll_ready [OF est call])
  let ?x = "x\<lparr>sock := (sock x)\<lparr>sock_handler := st1\<rparr>, call := (call x)\<lparr>completed := True\<rparr>,
      returned := Some (Ok (new_end i n st1 (remote_addr s)))\<rparr>"
  have polled: "caller_polls w x = ?x" using p(1) by (simp add: caller_polls_def)
  then have closed: "closing st1 = closing (state x)" using caller_closing(3) [of w x] by simp
  have "answered i n c (remote_addr s) ?x" by (auto simp: answered_def)
  then have "joined z en i n c a b S k l ?x"
    by (intro joined_stays [OF x est, of s]) (use p s closed given_same [of ?x x en] in simp_all)
  then show ?thesis using polled by simp
qed

lemma joined_takes:
  assumes x: "joined z en i n c a b S k l x" and "harmless en i a l d"
  shows "joined z en i n c a b S k l (caller_takes en src d x)"
proof -
  let ?x = "caller_takes en src d x"
  obtain s r where est: "established_at i s n r (state x)" and s: "fresh_below a l (transport s)"
    using x unfolding joined_def by blast
  obtain s' where s': "established_at i s' n r (state ?x)" "fresh_below a l (transport s')" "outward s' = outward s"
      "messages s' = messages s" "wakers s' = wakers s" "cells (state ?x) = cells (state x)"
      "outgoing (rt (state ?x)) = outgoing (rt (state x))"
    by (rule harmless_taken [OF est s assms(2)])
  show ?thesis
    by (rule joined_stays [OF x est s'(1,3-5,2)])
      (use s'(6,7) given_same [of ?x x en] answered_cong [of ?x x] caller_closing(2) [of en src d x] in \<open>simp_all add: caller_takes_def\<close>)
qed

lemma joined_transmits:
  assumes x: "joined z en i n c a b S k l x"
  shows "joined z en i n c a b S k l (caller_transmits en x)"
proof -
  obtain s r where est: "established_at i s n r (state x)" and s: "fresh_below a l (transport s)"
    using x unfolding joined_def by blast
  then have "established_at i s n r (state (caller_transmits en x))"
    using caller_transmits_frame(7) [of i x en] caller_transmits_frame(8) [of en x]
    by (simp add: established_at_def same_at_def)
  then show ?thesis
    by (rule joined_stays [OF x est]) (use s answered_cong [of "caller_transmits en x" x] in \<open>simp_all add: caller_transmits_frame caller_closing\<close>)
qed

lemma joined_removes:
  assumes x: "joined z en i n c a b S k l x" and "m < length (closing (state x))" and "fst (closing (state x) ! m) = i"
  shows "joined z en i n c a b S k l (with_state (closer_tick m (state x)) x)"
proof -
  obtain s r where est: "established_at i s n r (state x)" using x unfolding joined_def by blast
  let ?st = "(state x)\<lparr>closing := take m (closing (state x)) @ drop (Suc m) (closing (state x))\<rparr>"
  have "closer_tick m (state x) = ?st"
    by (rule stale_removal [OF assms(2,3) joinedE(10) [OF x est]]) (use est in \<open>simp_all add: established_at_def\<close>)
  moreover have "joined z en i n c a b S k l (with_state ?st x)"
    by (rule joined_stays [OF x est, of s])
      (use est joinedE(6) [OF x est] given_same [of "with_state ?st x" x en] answered_cong [of "with_state ?st x" x] still_closing [of m "closing (state x)"]
       in \<open>simp_all add: established_at_def\<close>)
  ultimately show ?thesis by simp
qed

lemma joined_step:
  assumes "handler_codecs en" and "noise_pair (snow_of en) a b" and x: "joined True en i n c a b S k l x"
    and "caller_step en i D x x'" and "\<forall>d \<in> D. harmless en i a l d"
  shows "\<exists>k' \<ge> k. joined True en i n c a b S k' l x'"
proof -
  obtain s r where est: "established_at i s n r (state x)" using x unfolding joined_def by blast
  have entry: "established (state x) i = Some (n, r)" "sessions (state x) r = Some s" "task_of (state x) i = None"
    using est by (simp_all add: established_at_def task_of_def)
  from assms(4) show ?thesis
  proof cases
    case (keeps_alive m r' s')
    then have eq: "r' = r" "k \<noteq> u64_max" using entry joinedE(5) [OF x est] by simp_all
    show ?thesis
    proof (cases "keepalive_runs s")
      case True
      then show ?thesis
        using joined_keeps_alive [OF assms(1-3) est eq(2)] keeps_alive(1) eq nonce_advances by (metis less_imp_le)
    next
      case False
      then show ?thesis using keepalive_stopped [OF entry(2), of en] keeps_alive(1) eq(1) x by (auto simp: with_state_def)
    qed
  next
    case (beats m r' s')
    then have "r' = r" using entry by simp
    then show ?thesis using joined_beats(1) [OF x est] beats(1) by blast
  next
    case (removes m)
    then show ?thesis using joined_removes [OF x] by blast
  next
    case transmits
    then show ?thesis using joined_transmits [OF x] by blast
  next
    case (takes d src)
    then show ?thesis using joined_takes [OF x] assms(5) by blast
  next
    case (polls w)
    then show ?thesis using joined_polls [OF x] by blast
  qed (use entry in auto)
qed

section \<open>The stages\<close>

lemma with_state_same [simp]: "with_state (state x) x = x"
  by (simp add: with_state_def)

lemma says_taken: "says en i m d \<Longrightarrow> caller_takes en src d x = with_state (fst (Handler_handle_incoming en src d (state x))) x"
  by (simp add: caller_takes_def says_def)

abbreviation asking where
  "asking en i n c ini addrs S \<equiv>
     announcing en i n c (initiating_at i ini n c) addrs (HandshakeInitiation (initiation ini)) S"

abbreviation poking where
  "poking en i n c rsp addrs S \<equiv> announcing en i n c (poking_at i rsp n c) addrs HandshakePoke S"

abbreviation responding where
  "responding en i n c lt resp addr S \<equiv> announcing en i n c (responding_at i addr lt n c) [addr] (HandshakeResponse resp) S"

text \<open>The initiator ignores a poke, and a response establishes it.\<close>

lemma asking_poked:
  assumes "asking en i n c ini addrs S x" and "says en i HandshakePoke d"
  shows "caller_takes en src d x = x"
proof -
  obtain q where q: "initiators (state x) i = Some (q, n, c)" "pokers (state x) i = None" "ini_remote q = None"
    using assms(1) by (auto simp: announcing_def initiating_at_def)
  obtain p where "deserialize (packet_codec en) d = Inr p" "packet_id p = i"
      "deserialize (raw_codec en) (packet_data p) = Inr HandshakePoke"
    using assms(2) by (auto simp: says_def on_wire_def)
  then have "Handler_handle_incoming en src d (state x) = (state x, Ok ())"
    using q by (simp add: Handler_handle_incoming_def incoming_initiator_def initiator_handle_incoming_def
        initiator_is_ready_def fun_upd_idem Let_def)
  then show ?thesis using assms(2) by (simp add: says_taken)
qed

lemma upgrade_keeps_receivers: "receiver_alive (cells (fst (upgrade_session i n s c st)) c') = receiver_alive (cells st c')"
  by (simp add: upgrade_session_def remove_established_def drop_session_def Let_def split: option.split)

lemma stages_keep_receivers:
  "cells (fst (incoming_poker en src p e1 st)) = cells st"
  "receiver_alive (cells (fst (incoming_initiator en src p e2 st)) c) = receiver_alive (cells st c)"
  "receiver_alive (cells (fst (incoming_responder en src p e3 st)) c) = receiver_alive (cells st c)"
  "cells (fst (incoming_established en p st)) = cells st"
  subgoal by (simp add: incoming_poker_def split: prod.split res.split)
  subgoal by (simp add: incoming_initiator_def upgrade_keeps_receivers split: prod.split res.split session_result.split)
  subgoal by (simp add: incoming_responder_def upgrade_keeps_receivers split: prod.split res.split)
  subgoal by (simp add: incoming_established_def split: prod.split option.split)
  done

lemma incoming_keeps_receivers:
  "receiver_alive (cells (fst (Handler_handle_incoming en src d st)) c) = receiver_alive (cells st c)"
  by (simp add: Handler_handle_incoming_def stages_keep_receivers Let_def split: sum.split option.split)

text \<open>A side becomes established when the handler raises its entry to a new session.\<close>

lemma joinedI:
  assumes "handler_codecs en" and x: "announcing en i n c P addrs m S x" and "Session_new en i addr lt = Ok s"
    and "Handler_handle_incoming en src d (state x) = (st1, Ok ())" and "established_at i s n r st1"
    and "notices (cells st1 c) = Suc (notices (cells (state x) c))"
    and "outgoing (rt st1) = outgoing (rt (state x))" and "next_nonce lt = 0" and "fresh_below a l lt" and "length d \<le> 65536"
  shows "joined False en i n c a b S 0 l (caller_takes en src d x)"
proof -
  note new = Session_new_Ok [OF assms(3)]
  have x': "caller_takes en src d x = with_state st1 x" using assms(4,10) by (simp add: caller_takes_def)
  have "receiver_alive (cells st1 c)"
    using x incoming_keeps_receivers [of en src d "state x" c] assms(4) by (simp add: announcing_def calling_def)
  then have "answered i n c (remote_addr s) (with_state st1 x)"
    using x assms(6) by (simp add: answered_def calling_def announcing_def)
  moreover have "given en (with_state st1 x) = given en x" using assms(7) by (intro given_same) simp_all
  moreover have "closing st1 = closing (state x)" using incoming_closing [of en src d "state x"] assms(4) by simp
  ultimately show ?thesis
    unfolding joined_def x' using assms(5,7-9) x new
    by (intro conjI exI [of _ s] exI [of _ r]) (auto simp: announcing_def can_transmit_def)
qed

lemma asking_answered:
  assumes "handler_codecs en" and x: "asking en i n c ini addrs S x" and "says en i (HandshakeResponse resp) d"
    and "receive_response (snow_of en) ini resp = Ok (ReceiveOk (from_stateless a))"
  shows "joined False en i n c a b S 0 0 (caller_takes en src d x)"
proof -
  obtain p where p: "on_wire en i (HandshakeResponse resp) p d" "length d \<le> 65536" using assms(3) by (auto simp: says_def)
  have at: "initiating_at i ini n c (state x)" "receiver_alive (cells (state x) c)"
    using x by (simp_all add: announcing_def calling_def)
  obtain s where s: "Session_new en i src (from_stateless a) = Ok s"
    using Session_new_total assms(1) unfolding handler_codecs_def by metis
  obtain st1 r where st1: "Handler_handle_incoming en src d (state x) = (st1, Ok ())" "established_at i s n r st1"
      "notices (cells st1 c) = Suc (notices (cells (state x) c))" "outgoing (rt st1) = outgoing (rt (state x))"
    by (rule initiating_receives [OF at(1) p(1) assms(4) s at(2)])
  show ?thesis
    by (rule joinedI [OF assms(1) x s st1]) (use p(2) in \<open>simp_all add: from_stateless_sel\<close>)
qed

text \<open>An initiation turns the poking side into the responding one.\<close>

lemma poking_answers:
  assumes x: "poking en i n c rsp addrs S x" and "says en i (HandshakeInitiation ini) d"
    and "responder_response (snow_of en) rsp ini = Ok (lt, resp)" and "S \<subseteq> S'"
  shows "responding en i n c lt resp src S' (caller_takes en src d x)"
proof -
  obtain p where p: "on_wire en i (HandshakeInitiation ini) p d" using assms(2) by (auto simp: says_def)
  have at: "poking_at i rsp n c (state x)" using x by (simp add: announcing_def)
  obtain st1 h where st1: "Handler_handle_incoming en src d (state x) = (st1, Ok ())"
      "responding_at i src lt n c st1" "task_of st1 i = Some h"
      "tasks (rt st1) h = Some \<lparr>ann_addresses = [src], ann_id = i, ann_message = HandshakeResponse resp\<rparr>"
      "outgoing (rt st1) = outgoing (rt (state x))" "cells st1 = cells (state x)"
    by (rule poking_receives [OF at p assms(3)])
  have "closing st1 = closing (state x)" using st1(1) incoming_closing [of en src d "state x"] by simp
  moreover have "given en (with_state st1 x) = given en x" using st1(5) by (intro given_same) simp_all
  ultimately show ?thesis
    using x st1 assms(2,4) by (auto simp: says_taken announcing_def calling_def)
qed

text \<open>The responding side ignores a further initiation, and a keepalive establishes it.\<close>

lemma responding_ignores:
  assumes "responding en i n c lt resp addr S x" and "says en i (HandshakeInitiation ini) d"
  shows "caller_takes en src d x = x"
proof -
  obtain q where q: "responders (state x) i = Some (q, n, c)" "pokers (state x) i = None" "initiators (state x) i = None"
      "\<not> rsp_ready q"
    using assms(1) by (auto simp: announcing_def responding_at_def)
  obtain p where "deserialize (packet_codec en) d = Inr p" "packet_id p = i"
      "deserialize (raw_codec en) (packet_data p) = Inr (HandshakeInitiation ini)"
    using assms(2) by (auto simp: says_def on_wire_def)
  then have "Handler_handle_incoming en src d (state x) = (state x, Ok ())"
    using q by (simp add: Handler_handle_incoming_def incoming_responder_def responder_handle_incoming_def
        responder_is_ready_def fun_upd_idem Let_def)
  then show ?thesis using assms(2) by (simp add: says_taken)
qed

lemma responding_ticked:
  assumes "handler_codecs en" and x: "responding en i n c (from_stateless a) resp addr S x" and "ticks en i a l d"
  shows "joined False en i n c a b S 0 l (caller_takes en src d x)"
proof -
  obtain j where j: "j < l" "wire_message en a i j Keepalive d" and d: "length d \<le> 65536"
    using assms(3) by (auto simp: ticks_def)
  obtain enc plain p where w: "on_wire en i (Encrypted enc) p d" "carries (nonced_codec en) (snow_of en) a j plain enc"
      "length plain \<le> 65535" "deserialize (message_codec en) plain = Inr Keepalive"
    using j(2) unfolding wire_message_def by blast
  have "fresh_below a j (from_stateless a)" by (simp add: fresh_below_def from_stateless_def LossyTransportState_new_def)
  then obtain lt where lt: "unseal (nonced_codec en) (snow_of en) (from_stateless a) enc = (lt, Ok plain)"
      "fresh_below a (j + 1) lt"
    using unseal_fresh [OF _ below_max [OF j(1)] w(2,3)] by blast
  have "j + 1 \<le> l" using j(1) unat_plus_1 [OF below_max [OF j(1)]] by (simp add: word_less_nat_alt word_le_nat_alt)
  then have fresh: "fresh_below a l lt" by (rule fresh_below_mono [OF lt(2)])
  have nonce: "next_nonce lt = 0" using unseal_outward [OF lt(1)] by (simp add: from_stateless_sel)
  obtain s where s: "Session_new en i addr lt = Ok s"
    using Session_new_total assms(1) unfolding handler_codecs_def by metis
  have at: "responding_at i addr (from_stateless a) n c (state x)" "receiver_alive (cells (state x) c)"
    using x by (simp_all add: announcing_def calling_def)
  obtain st1 r where st1: "Handler_handle_incoming en src d (state x) = (st1, Ok ())" "established_at i s n r st1"
      "notices (cells st1 c) = Suc (notices (cells (state x) c))" "outgoing (rt st1) = outgoing (rt (state x))"
    by (rule responding_receives [OF at(1) w(1) lt(1) w(4) s at(2)])
  show ?thesis by (rule joinedI [OF assms(1) x s st1 nonce fresh d])
qed

section \<open>Both sides\<close>

text \<open>The two Noise messages fit each other and a datagram.\<close>

definition agreed ::
    "('b, 'h, 's) env \<Rightarrow> 'h snow_initiator \<Rightarrow> 'h snow_responder \<Rightarrow> snow_response \<Rightarrow> 's \<Rightarrow> 's \<Rightarrow> bool" where
  "agreed en ini rsp resp ti tr \<longleftrightarrow>
     handler_codecs en
     \<and> raw_size (HandshakeInitiation (initiation ini)) \<le> 65000 \<and> raw_size (HandshakeResponse resp) \<le> 65000
     \<and> responder_response (snow_of en) rsp (initiation ini) = Ok (from_stateless tr, resp)
     \<and> receive_response (snow_of en) ini resp = Ok (ReceiveOk (from_stateless ti))
     \<and> noise_pair (snow_of en) ti tr \<and> noise_pair (snow_of en) tr ti"

abbreviation asks where "asks en i ini \<equiv> {d. says en i (HandshakeInitiation (initiation ini)) d}"

abbreviation pokes where "pokes en i \<equiv> {d. says en i HandshakePoke d}"

abbreviation replies where "replies en i resp \<equiv> pokes en i \<union> {d. says en i (HandshakeResponse resp) d}"

lemma asking_step:
  assumes "agreed en ini rsp resp ti tr" and x: "asking en i n c ini addrs (asks en i ini) x"
    and "caller_step en i D x x'" and "D \<subseteq> replies en i resp"
  shows "asking en i n c ini addrs (asks en i ini) x'
    \<or> joined True en i n c ti tr (asks en i ini) 0 0 x' \<and> \<not> D \<subseteq> pokes en i"
proof (rule disjE [OF announcing_step [OF _ _ order.refl of_pending_entries(1) x assms(3)]])
  assume "\<exists>d \<in> D. \<exists>src. x' = caller_takes en src d x"
  then obtain d src where d: "d \<in> D" "x' = caller_takes en src d x" by blast
  show ?thesis
  proof (cases "says en i HandshakePoke d")
    case True
    then show ?thesis using asking_poked [OF x True] d(2) x by simp
  next
    case False
    then have "says en i (HandshakeResponse resp) d" using d(1) assms(4) by auto
    then show ?thesis using joined_maybe_dead [OF asking_answered [OF _ x]] assms(1) d False unfolding agreed_def by blast
  qed
qed (use assms(1) in \<open>simp_all add: agreed_def\<close>)

lemma poking_step:
  assumes "agreed en ini rsp resp ti tr" and x: "poking en i n c rsp addrs (pokes en i) x"
    and "caller_step en i D x x'" and "D \<subseteq> asks en i ini"
  shows "poking en i n c rsp addrs (pokes en i) x'
    \<or> (\<exists>addr. responding en i n c (from_stateless tr) resp addr (replies en i resp) x')"
proof (rule disjE [OF announcing_step [OF _ _ order.refl of_pending_entries(2) x assms(3)]])
  assume "\<exists>d \<in> D. \<exists>src. x' = caller_takes en src d x"
  then obtain d src where "says en i (HandshakeInitiation (initiation ini)) d" "x' = caller_takes en src d x"
    using assms(4) by blast
  then show ?thesis
    using poking_answers [OF x, of _ d _ resp "replies en i resp" src] assms(1) unfolding agreed_def by blast
qed (use assms(1) in \<open>simp_all add: agreed_def\<close>)

lemma responding_step:
  assumes "agreed en ini rsp resp ti tr" and x: "responding en i n c (from_stateless tr) resp addr (replies en i resp) x"
    and "caller_step en i D x x'" and "D \<subseteq> asks en i ini \<union> {d. ticks en i tr k d}"
  shows "responding en i n c (from_stateless tr) resp addr (replies en i resp) x'
    \<or> joined True en i n c tr ti (replies en i resp) 0 k x' \<and> \<not> D \<subseteq> asks en i ini"
proof (rule disjE [OF announcing_step [OF _ _ _ of_pending_entries(3) x assms(3)]])
  assume "\<exists>d \<in> D. \<exists>src. x' = caller_takes en src d x"
  then obtain d src where d: "d \<in> D" "x' = caller_takes en src d x" by blast
  show ?thesis
  proof (cases "says en i (HandshakeInitiation (initiation ini)) d")
    case True
    then show ?thesis using responding_ignores [OF x True] d(2) x by simp
  next
    case False
    then have "ticks en i tr k d" using d(1) assms(4) by auto
    then show ?thesis using joined_maybe_dead [OF responding_ticked [OF _ x]] assms(1) d False unfolding agreed_def by blast
  qed
qed (use assms(1) in \<open>auto simp: agreed_def\<close>)

text \<open>How far the two are: the first asks and the second pokes; the second responds; the first is
  established; both are.\<close>

definition connecting ::
    "('b, 'h, 's) env \<Rightarrow> session_id \<Rightarrow> one_time_id \<Rightarrow> nat \<Rightarrow> one_time_id \<Rightarrow> nat \<Rightarrow> socket_addr list \<Rightarrow> socket_addr list \<Rightarrow>
       'h snow_initiator \<Rightarrow> 'h snow_responder \<Rightarrow> snow_response \<Rightarrow> 's \<Rightarrow> 's \<Rightarrow> ('h, 's) caller \<times> ('h, 's) caller \<Rightarrow> bool" where
  "connecting en i na ca nb cb addrb addra ini rsp resp ti tr = (\<lambda>(x, y).
     asking en i na ca ini addrb (asks en i ini) x \<and> poking en i nb cb rsp addra (pokes en i) y
     \<or> asking en i na ca ini addrb (asks en i ini) x
        \<and> (\<exists>addr. responding en i nb cb (from_stateless tr) resp addr (replies en i resp) y)
     \<or> (\<exists>k. joined True en i na ca ti tr (asks en i ini) k 0 x)
        \<and> (\<exists>addr. responding en i nb cb (from_stateless tr) resp addr (replies en i resp) y)
     \<or> (\<exists>k l. joined True en i na ca ti tr (asks en i ini) k l x \<and> joined True en i nb cb tr ti (replies en i resp) l k y))"

lemma connecting_cases:
  assumes "connecting en i na ca nb cb addrb addra ini rsp resp ti tr (x, y)"
  obtains (started) "asking en i na ca ini addrb (asks en i ini) x" "poking en i nb cb rsp addra (pokes en i) y"
  | (asked) addr where "asking en i na ca ini addrb (asks en i ini) x"
      "responding en i nb cb (from_stateless tr) resp addr (replies en i resp) y"
  | (replied) k addr where "joined True en i na ca ti tr (asks en i ini) k 0 x"
      "responding en i nb cb (from_stateless tr) resp addr (replies en i resp) y"
  | (finished) k l where "joined True en i na ca ti tr (asks en i ini) k l x" "joined True en i nb cb tr ti (replies en i resp) l k y"
  using assms unfolding connecting_def by blast

lemma sent_given: "set (sent x) \<subseteq> given en x"
  by (simp add: given_def)

lemma announcing_sent: "announcing en i n c P addrs m S x \<Longrightarrow> set (sent x) \<subseteq> S"
  using sent_given unfolding announcing_def by blast

lemma joined_sent: "joined z en i n c a b S k l x \<Longrightarrow> set (sent x) \<subseteq> S \<union> {d. ticks en i b k d}"
  using sent_given unfolding joined_def by blast

lemma harmless_replies: "D \<subseteq> replies en i resp \<union> {d. ticks en i a l d} \<Longrightarrow> \<forall>d \<in> D. harmless en i a l d"
  unfolding harmless_def by blast

lemma harmless_asks: "D \<subseteq> asks en i ini \<union> {d. ticks en i a l d} \<Longrightarrow> \<forall>d \<in> D. harmless en i a l d"
  unfolding harmless_def by blast

text \<open>The first side moves.\<close>

lemma connecting_one:
  assumes ag: "agreed en ini rsp resp ti tr" and "connecting en i na ca nb cb addrb addra ini rsp resp ti tr (x, y)"
    and step: "caller_step en i (set (sent y)) x x'"
  shows "connecting en i na ca nb cb addrb addra ini rsp resp ti tr (x', y)"
  using assms(2)
proof (cases rule: connecting_cases)
  case started
  have "set (sent y) \<subseteq> pokes en i" by (rule announcing_sent [OF started(2)])
  then show ?thesis using asking_step [OF ag started(1) step] started(2) unfolding connecting_def by blast
next
  case asked
  have "set (sent y) \<subseteq> replies en i resp" by (rule announcing_sent [OF asked(2)])
  then show ?thesis using asking_step [OF ag asked(1) step] asked(2) unfolding connecting_def by blast
next
  case replied
  have "set (sent y) \<subseteq> replies en i resp" by (rule announcing_sent [OF replied(2)])
  then have "\<forall>d \<in> set (sent y). harmless en i ti 0 d" by (intro harmless_replies [of _ en i resp]) blast
  then show ?thesis
    using joined_step [OF _ _ replied(1) step] replied(2) ag unfolding connecting_def agreed_def by blast
next
  case (finished k l)
  have "\<forall>d \<in> set (sent y). harmless en i ti l d" by (rule harmless_replies [OF joined_sent [OF finished(2)]])
  then obtain k' where "k \<le> k'" "joined True en i na ca ti tr (asks en i ini) k' l x'"
    using joined_step [OF _ _ finished(1) step] ag unfolding agreed_def by blast
  then show ?thesis using joined_mono [OF finished(2)] unfolding connecting_def by blast
qed

text \<open>The second side moves.\<close>

lemma connecting_other:
  assumes ag: "agreed en ini rsp resp ti tr" and "connecting en i na ca nb cb addrb addra ini rsp resp ti tr (x, y)"
    and step: "caller_step en i (set (sent x)) y y'"
  shows "connecting en i na ca nb cb addrb addra ini rsp resp ti tr (x, y')"
  using assms(2)
proof (cases rule: connecting_cases)
  case started
  then show ?thesis
    using poking_step [OF ag started(2) step announcing_sent [OF started(1)]] unfolding connecting_def by blast
next
  case (asked addr)
  then show ?thesis
    using responding_step [OF ag asked(2) step, of 0] announcing_sent [OF asked(1)] unfolding connecting_def by blast
next
  case (replied k addr)
  then show ?thesis
    using responding_step [OF ag replied(2) step joined_sent [OF replied(1)]] joined_mono [OF replied(1)]
    unfolding connecting_def by blast
next
  case (finished k l)
  have "\<forall>d \<in> set (sent x). harmless en i tr k d" by (rule harmless_asks [OF joined_sent [OF finished(1)]])
  then obtain l' where "l \<le> l'" "joined True en i nb cb tr ti (replies en i resp) l' k y'"
    using joined_step [OF _ _ finished(2) step] ag unfolding agreed_def by blast
  then show ?thesis using joined_mono [OF finished(1)] unfolding connecting_def by blast
qed

text \<open>The network loses.\<close>

lemma connectingI:
  "asking en i na ca ini addrb (asks en i ini) x \<Longrightarrow> poking en i nb cb rsp addra (pokes en i) y \<Longrightarrow>
     connecting en i na ca nb cb addrb addra ini rsp resp ti tr (x, y)"
  "asking en i na ca ini addrb (asks en i ini) x \<Longrightarrow>
     responding en i nb cb (from_stateless tr) resp addr (replies en i resp) y \<Longrightarrow>
     connecting en i na ca nb cb addrb addra ini rsp resp ti tr (x, y)"
  "joined True en i na ca ti tr (asks en i ini) k 0 x \<Longrightarrow>
     responding en i nb cb (from_stateless tr) resp addr (replies en i resp) y \<Longrightarrow>
     connecting en i na ca nb cb addrb addra ini rsp resp ti tr (x, y)"
  "joined True en i na ca ti tr (asks en i ini) k l x \<Longrightarrow> joined True en i nb cb tr ti (replies en i resp) l k y \<Longrightarrow>
     connecting en i na ca nb cb addrb addra ini rsp resp ti tr (x, y)"
  unfolding connecting_def by blast+

lemma connecting_loses_one:
  assumes "connecting en i na ca nb cb addrb addra ini rsp resp ti tr (x, y)" and "set ds \<subseteq> set (sent x)"
  shows "connecting en i na ca nb cb addrb addra ini rsp resp ti tr (x\<lparr>sent := ds\<rparr>, y)"
  using assms(1)
proof (cases rule: connecting_cases)
  case started
  then show ?thesis by (intro connectingI(1) announcing_loses [OF _ assms(2)])
next
  case asked
  then show ?thesis by (intro connectingI(2) announcing_loses [OF _ assms(2)])
next
  case replied
  then show ?thesis by (intro connectingI(3) joined_loses [OF _ assms(2)])
next
  case finished
  then show ?thesis by (intro connectingI(4) joined_loses [OF _ assms(2)])
qed

lemma connecting_loses_other:
  assumes "connecting en i na ca nb cb addrb addra ini rsp resp ti tr (x, y)" and "set ds \<subseteq> set (sent y)"
  shows "connecting en i na ca nb cb addrb addra ini rsp resp ti tr (x, y\<lparr>sent := ds\<rparr>)"
  using assms(1)
proof (cases rule: connecting_cases)
  case started
  then show ?thesis by (intro connectingI(1) announcing_loses [OF _ assms(2)])
next
  case asked
  then show ?thesis by (intro connectingI(2) announcing_loses [OF _ assms(2)])
next
  case replied
  then show ?thesis by (intro connectingI(3) announcing_loses [OF _ assms(2)])
next
  case finished
  then show ?thesis by (intro connectingI(4) joined_loses [OF _ assms(2)])
qed

lemma connecting_steps:
  assumes "agreed en ini rsp resp ti tr" and "connect_steps en i u v"
    and "connecting en i na ca nb cb addrb addra ini rsp resp ti tr u"
  shows "connecting en i na ca nb cb addrb addra ini rsp resp ti tr v"
  using assms(2,3)
proof (induction rule: rtranclp_induct)
  case (step v w)
  from step.hyps(2) step.IH [OF step.prems] show ?case
  proof cases
    case (one y x x')
    then show ?thesis using connecting_one [OF assms(1)] step.IH [OF step.prems] by simp
  next
    case (other x y y')
    then show ?thesis using connecting_other [OF assms(1)] step.IH [OF step.prems] by simp
  next
    case (loses_one ds x y)
    then show ?thesis using connecting_loses_one step.IH [OF step.prems] by simp
  next
    case (loses_other ds y x)
    then show ?thesis using connecting_loses_other step.IH [OF step.prems] by simp
  qed
qed

end
