(* ===== verification/ConnectProps.thy ===== *)
theory ConnectProps
  imports Connecting
begin

text \<open>
  What becomes of two calls of \<open>VeqSocket::connect\<close> (\<open>src/src/veq.rs\<close>): as long as the initiator's session, once
  it is established, has not timed out, both can return, whatever the network has lost; what they return are the two
  ends of one connection. When the initiator's session times out first, the responder's call never returns.
\<close>

section \<open>Getting there\<close>

lemma caller_step_mono: "caller_step en i D x x' \<Longrightarrow> D \<subseteq> D' \<Longrightarrow> caller_step en i D' x x'"
  by (induction rule: caller_step.induct) (auto intro: caller_step.intros)

text \<open>Steps of one side that wait for nothing.\<close>

abbreviation by_itself :: "('b, 'h, 's) env \<Rightarrow> session_id \<Rightarrow> ('h, 's) caller \<Rightarrow> ('h, 's) caller \<Rightarrow> bool" where
  "by_itself en i \<equiv> (caller_step en i {})\<^sup>*\<^sup>*"

lemma alone_one: "by_itself en i x x' \<Longrightarrow> connect_steps en i (x, y) (x', y)"
  by (induction rule: rtranclp_induct)
    (auto intro: rtranclp.rtrancl_into_rtrancl connect_step.one caller_step_mono)

lemma alone_other: "by_itself en i y y' \<Longrightarrow> connect_steps en i (x, y) (x, y')"
  by (induction rule: rtranclp_induct)
    (auto intro: rtranclp.rtrancl_into_rtrancl connect_step.other caller_step_mono)

text \<open>The sending task can empty the channel.\<close>

lemma drained:
  "\<exists>x'. by_itself en i x x' \<and> set (sent x') = given en x \<and> queued en (state x') = [] \<and> returned x' = returned x
     \<and> (\<forall>s n r. established_at i s n r (state x) \<longrightarrow> established_at i s n r (state x')) \<and> closing (state x') = closing (state x)"
proof (induction "length (chan_queue (outgoing (rt (state x))))" arbitrary: x)
  case 0
  then show ?case by (intro exI [of _ x]) (simp add: given_def queued_def map_filter_simps)
next
  case (Suc n)
  let ?x = "caller_transmits en x"
  have "n = length (chan_queue (outgoing (rt (state ?x))))"
    using Suc.hyps(2) by (auto simp: caller_transmits_def split: list.split)
  from Suc.hyps(1) [OF this] obtain x' where x': "by_itself en i ?x x'" "set (sent x') = given en x" "queued en (state x') = []"
      "returned x' = returned x" "\<forall>s n r. established_at i s n r (state ?x) \<longrightarrow> established_at i s n r (state x')"
      "closing (state x') = closing (state x)"
    by (auto simp: caller_transmits_frame(1,3) caller_closing)
  moreover have "established_at i s n r (state ?x)" if "established_at i s n r (state x)" for s n r
    using that caller_transmits_frame(7) [of i x en] caller_transmits_frame(8) [of en x]
    by (simp add: established_at_def same_at_def)
  moreover have "by_itself en i x x'" using x'(1) by (meson caller_step.transmits converse_rtranclp_into_rtranclp)
  ultimately show ?case by blast
qed

lemma announcing_alone:
  assumes "by_itself en i x x'" and "handler_codecs en" and "raw_size m \<le> 65000" and "{d. says en i m d} \<subseteq> S" and "of_pending i n P"
    and "announcing en i n c P addrs m S x"
  shows "announcing en i n c P addrs m S x'"
  using assms(1,6)
proof (induction rule: rtranclp_induct)
  case (step x' x'')
  then show ?case using announcing_step [OF assms(2-5) _ step.hyps(2)] by blast
qed

lemma announced:
  assumes "handler_codecs en" and "raw_size m \<le> 65000" and "{d. says en i m d} \<subseteq> S" and "of_pending i n P"
    and x: "announcing en i n c P addrs m S x" and "addrs \<noteq> []"
  obtains x' d where "by_itself en i x x'" and "announcing en i n c P addrs m S x'" and "d \<in> set (sent x')" and "says en i m d"
proof -
  obtain h where h: "task_of (state x) i = Some h"
      "tasks (rt (state x)) h = Some \<lparr>ann_addresses = addrs, ann_id = i, ann_message = m\<rparr>"
    and ch: "chan_open (outgoing (rt (state x)))"
    using x unfolding announcing_def by blast
  obtain p d where d: "says en i m d" "serialize (packet_codec en) p = Inr d"
      "handler_announce en h (state x) = (state x)\<lparr>rt := (rt (state x))\<lparr>outgoing := (outgoing (rt (state x)))\<lparr>chan_queue :=
        chan_queue (outgoing (rt (state x))) @ map (\<lambda>a. (a, p, 64)) addrs\<rparr>\<rparr>\<rparr>"
    by (rule announce_says [OF assms(1,2) ch h(2)])
  let ?x = "with_state (handler_announce en h (state x)) x"
  have "d \<in> given en ?x"
    using d(2,3) assms(6) by (cases addrs) (simp_all add: given_def queued_def map_filter_append announced_datagrams [OF d(2)] map_filter_simps item_datagram_def)
  moreover obtain x' where x': "by_itself en i ?x x'" "set (sent x') = given en ?x" using drained by blast
  moreover have "by_itself en i x x'" using x'(1) h(1) by (meson caller_step.announces_again converse_rtranclp_into_rtranclp)
  ultimately show ?thesis using that announcing_alone [OF _ assms(1-4) x] d(1) by metis
qed

lemma joined_alone:
  assumes "by_itself en i x x'" and "handler_codecs en" and "noise_pair (snow_of en) a b" and "joined True en i n c a b S k l x"
  shows "\<exists>k' \<ge> k. joined True en i n c a b S k' l x'"
  using assms(1,4)
proof (induction rule: rtranclp_induct)
  case (step x' x'')
  then obtain k' where k': "k \<le> k'" "joined True en i n c a b S k' l x'" by blast
  from joined_step [OF assms(2,3) k'(2) step.hyps(2)] show ?case using k'(1) by (auto intro: order.trans)
qed auto

text \<open>The session of an established side is alive and can go on sending.\<close>

definition lively :: "session_id \<Rightarrow> ('h, 's) caller \<Rightarrow> bool" where
  "lively i x \<longleftrightarrow>
     (\<forall>n r s. established (state x) i = Some (n, r) \<longrightarrow> sessions (state x) r = Some s \<longrightarrow>
        \<not> dead s \<and> next_nonce (transport s) \<noteq> u64_max)"

lemma joined_lively:
  assumes "joined z en i n c a b S k l x" and "lively i x"
  shows "joined False en i n c a b S k l x" and "k \<noteq> u64_max"
proof -
  obtain s r where est: "established_at i s n r (state x)" using assms(1) unfolding joined_def by blast
  have s: "\<not> dead s" "next_nonce (transport s) \<noteq> u64_max" using assms(2) est by (auto simp: lively_def established_at_def)
  show "joined False en i n c a b S k l x"
    unfolding joined_def using est joinedE [OF assms(1) est] s(1)
    by (intro conjI exI [of _ s] exI [of _ r]) simp_all
  show "k \<noteq> u64_max" using joinedE(5) [OF assms(1) est] s(2) by simp
qed

text \<open>A side that is alive sends a keepalive, whatever became of those it sent before.\<close>

lemma joined_speaks:
  assumes en: "handler_codecs en" "noise_pair (snow_of en) a b" and x: "joined False en i n c a b S k l x" and "k \<noteq> u64_max"
  obtains x' d where "caller_step en i {} x x'" and "joined False en i n c a b S (k + 1) l x'" and "d \<in> given en x'"
    and "ticks en i b (k + 1) d" and "returned x' = returned x"
proof -
  obtain s r where est: "established_at i s n r (state x)" using x unfolding joined_def by blast
  let ?x = "with_state (session_keepalive en r (state x)) x"
  have s: "keepalive_runs s" "next_nonce (transport s) = k" using joinedE(3,5) [OF x est] by (simp_all split: if_splits)
  have "caller_step en i {} x ?x"
    using est s(2) assms(4) by (intro caller_step.keeps_alive [of _ _ n r s]) (simp_all add: established_at_def)
  moreover obtain d where "joined False en i n c a b S (k + 1) l ?x"
      "d \<in> set (queued en (session_keepalive en r (state x)))" "ticks en i b (k + 1) d"
    by (rule joined_keeps_alive [OF en x est assms(4) s(1)])
  ultimately show ?thesis by (intro that [of ?x d]) (simp_all add: given_def)
qed

lemma joined_told:
  assumes en: "handler_codecs en" "noise_pair (snow_of en) a b" and x: "joined False en i n c a b S k l x" and "k \<noteq> u64_max"
  obtains x' k' d where "by_itself en i x x'" and "joined True en i n c a b S k' l x'" and "d \<in> set (sent x')" and "ticks en i b k' d"
proof -
  obtain x1 d where x1: "caller_step en i {} x x1" "joined False en i n c a b S (k + 1) l x1" "d \<in> given en x1"
      "ticks en i b (k + 1) d"
    by (rule joined_speaks [OF assms])
  obtain x2 where x2: "by_itself en i x1 x2" "set (sent x2) = given en x1" using drained by blast
  obtain k2 where "k + 1 \<le> k2" "joined True en i n c a b S k2 l x2"
    using joined_alone [OF x2(1) en joined_maybe_dead [OF x1(2)]] by blast
  then show ?thesis
    using that [OF converse_rtranclp_into_rtranclp [of "caller_step en i {}", OF x1(1) x2(1)]] x1(3) x2(2) ticks_mono [OF x1(4)] by simp
qed

text \<open>From here both calls can return.\<close>

definition can_return :: "('b, 'h, 's) env \<Rightarrow> session_id \<Rightarrow> ('h, 's) caller \<times> ('h, 's) caller \<Rightarrow> bool" where
  "can_return en i u \<longleftrightarrow>
     (\<exists>x y. connect_steps en i u (x, y) \<and> returned x \<noteq> None \<and> returned y \<noteq> None)"

lemma can_return_after: "connect_steps en i u v \<Longrightarrow> can_return en i v \<Longrightarrow> can_return en i u"
  unfolding can_return_def by (meson rtranclp_trans)

lemma joined_returns:
  "joined z en i n c a b S k l x \<Longrightarrow> \<exists>x'. by_itself en i x x' \<and> joined z en i n c a b S k l x' \<and> returned x' \<noteq> None"
proof (cases "returned x")
  case None
  assume "joined z en i n c a b S k l x"
  then show ?thesis using joined_polls [OF _ None] caller_step.polls [OF None] by blast
qed auto

lemma finished_returns:
  assumes "joined z en i na ca a b S k l x" and "joined z' en i nb cb b a T l k y"
  shows "can_return en i (x, y)"
proof -
  obtain x' y' where x': "by_itself en i x x'" "returned x' \<noteq> None" and y': "by_itself en i y y'" "returned y' \<noteq> None"
    using joined_returns [OF assms(1)] joined_returns [OF assms(2)] by blast
  have "connect_steps en i (x, y) (x', y')" by (rule rtranclp_trans [OF alone_one [OF x'(1)] alone_other [OF y'(1)]])
  then show ?thesis using x'(2) y'(2) unfolding can_return_def by blast
qed

lemma replied_returns:
  assumes ag: "agreed en ini rsp resp ti tr" and "joined False en i na ca ti tr S k 0 x" and "k \<noteq> u64_max"
    and "responding en i nb cb (from_stateless tr) resp addr T y"
  shows "can_return en i (x, y)"
proof -
  have en: "handler_codecs en" "noise_pair (snow_of en) ti tr" using ag by (simp_all add: agreed_def)
  obtain x' k' d where x': "by_itself en i x x'" "joined True en i na ca ti tr S k' 0 x'" "d \<in> set (sent x')" "ticks en i tr k' d"
    by (rule joined_told [OF en assms(2,3)])
  let ?y = "caller_takes en addr d y"
  have "connect_steps en i (x, y) (x', ?y)"
    using alone_one [OF x'(1), of y] connect_step.other [OF caller_step.takes [OF x'(3)]] by (rule rtranclp.rtrancl_into_rtrancl)
  moreover have "joined False en i nb cb tr ti T 0 k' ?y" by (rule responding_ticked [OF en(1) assms(4) x'(4)])
  ultimately show ?thesis by (intro can_return_after [OF _ finished_returns [OF x'(2)]])
qed

lemma asked_replied:
  assumes ag: "agreed en ini rsp resp ti tr" and "asking en i na ca ini addrs S x"
    and "responding en i nb cb (from_stateless tr) resp addr (replies en i resp) y"
  obtains x' y' where "connect_steps en i (x, y) (x', y')" and "joined False en i na ca ti tr S 0 0 x'"
    and "responding en i nb cb (from_stateless tr) resp addr (replies en i resp) y'"
proof -
  have en: "handler_codecs en" "raw_size (HandshakeResponse resp) \<le> 65000"
      "receive_response (snow_of en) ini resp = Ok (ReceiveOk (from_stateless ti))"
    using ag by (simp_all add: agreed_def)
  obtain y' d where y': "by_itself en i y y'" "responding en i nb cb (from_stateless tr) resp addr (replies en i resp) y'"
      "d \<in> set (sent y')" "says en i (HandshakeResponse resp) d"
    by (rule announced [OF en(1,2) _ of_pending_entries(3) assms(3)]) simp_all
  have "connect_steps en i (x, y) (caller_takes en addr d x, y')"
    using alone_other [OF y'(1), of x] connect_step.one [OF caller_step.takes [OF y'(3)]] by (rule rtranclp.rtrancl_into_rtrancl)
  from that [OF this asking_answered [OF en(1) assms(2) y'(4) en(3)] y'(2)] show ?thesis .
qed

lemma started_asked:
  assumes ag: "agreed en ini rsp resp ti tr" and "asking en i na ca ini addrb (asks en i ini) x"
    and "poking en i nb cb rsp addra (pokes en i) y" and "addrb \<noteq> []"
  obtains x' y' addr where "connect_steps en i (x, y) (x', y')" and "asking en i na ca ini addrb (asks en i ini) x'"
    and "responding en i nb cb (from_stateless tr) resp addr (replies en i resp) y'"
proof -
  have en: "handler_codecs en" "raw_size (HandshakeInitiation (initiation ini)) \<le> 65000"
      "responder_response (snow_of en) rsp (initiation ini) = Ok (from_stateless tr, resp)"
    using ag by (simp_all add: agreed_def)
  obtain x' d where x': "by_itself en i x x'" "asking en i na ca ini addrb (asks en i ini) x'" "d \<in> set (sent x')"
      "says en i (HandshakeInitiation (initiation ini)) d"
    by (rule announced [OF en(1,2) order.refl of_pending_entries(1) assms(2,4)])
  let ?y = "caller_takes en (SocketAddrV4 0 0) d y"
  have "connect_steps en i (x, y) (x', ?y)"
    using alone_one [OF x'(1), of y] connect_step.other [OF caller_step.takes [OF x'(3)]] by (rule rtranclp.rtrancl_into_rtrancl)
  moreover have "responding en i nb cb (from_stateless tr) resp (SocketAddrV4 0 0) (replies en i resp) ?y"
    by (rule poking_answers [OF assms(3) x'(4) en(3)]) simp
  ultimately show ?thesis using that x'(2) by blast
qed

lemma asked_returns:
  assumes ag: "agreed en ini rsp resp ti tr" and "asking en i na ca ini addrs S x"
    and "responding en i nb cb (from_stateless tr) resp addr (replies en i resp) y"
  shows "can_return en i (x, y)"
  by (rule asked_replied [OF assms]) (rule can_return_after, assumption, rule replied_returns [OF ag _ zero_not_max])

lemma started_returns:
  assumes ag: "agreed en ini rsp resp ti tr" and "asking en i na ca ini addrb (asks en i ini) x"
    and "poking en i nb cb rsp addra (pokes en i) y" and "addrb \<noteq> []"
  shows "can_return en i (x, y)"
  by (rule started_asked [OF assms]) (rule can_return_after, assumption, rule asked_returns [OF ag])

lemma connecting_returns:
  assumes ag: "agreed en ini rsp resp ti tr" and "connecting en i na ca nb cb addrb addra ini rsp resp ti tr (x, y)"
    and "addrb \<noteq> []" and "lively i x"
  shows "can_return en i (x, y)"
  using assms(2)
proof (cases rule: connecting_cases)
  case (replied k addr)
  show ?thesis by (rule replied_returns [OF ag joined_lively [OF replied(1) assms(4)] replied(2)])
qed (rule started_returns [OF ag _ _ assms(3)] asked_returns [OF ag] finished_returns; assumption)+

text \<open>What was returned are the two ends of a connection.\<close>

lemma joined_returned:
  assumes x: "joined z en i n c a b S k l x" and "returned x = Some v"
  obtains st s r where "established_at i s n r (state x)" and "\<not> dead s \<longrightarrow> newborn en i (remote_addr s) s"
    and "v = Ok (new_end i n st (remote_addr s))" and "next_nonce (transport s) = k" and "fresh_below a l (transport s)"
    and "chan_open (outgoing (rt (state x)))" and "dead s \<longrightarrow> z"
proof -
  obtain s r where est: "established_at i s n r (state x)" using x unfolding joined_def by blast
  note s = joinedE [OF x est]
  obtain st where "v = Ok (new_end i n st (remote_addr s))"
    using s(7) assms(2) by (auto simp: answered_def calling_def)
  then show ?thesis
    using est s by (intro that [of s r st]) (simp_all add: newborn_def can_transmit_def split: if_splits)
qed

lemma joined_linked:
  assumes "joined z en i na ca a b S k l x" and "joined z' en i nb cb b a T l k y" and "noise_pair (snow_of en) a b"
    and "established_at i s na r (state x)" and "established_at i t nb q (state y)"
  shows "linked (snow_of en) s t"
  using joinedE(5,6) [OF assms(1,4)] joinedE(6) [OF assms(2,5)] assms(3) by (simp add: linked_def fresh_below_def)

lemma joined_connected:
  assumes x: "joined z en i na ca a b S k l x" and y: "joined z' en i nb cb b a T l k y" and "noise_pair (snow_of en) a b"
    and "returned x = Some (Ok va)" and "returned y = Some (Ok vb)"
    and alive: "\<forall>s n r. established_at i s n r (state x) \<longrightarrow> \<not> dead s" "\<forall>s n r. established_at i s n r (state y) \<longrightarrow> \<not> dead s"
  shows "connected_ends en cdc i k (with_handler (state x) va) (with_handler (state y) vb)"
proof -
  obtain st s r where s: "established_at i s na r (state x)" "\<not> dead s \<longrightarrow> newborn en i (remote_addr s) s"
      "Ok va = (Ok (new_end i na st (remote_addr s)) :: (_, anyhow_error) res)" "next_nonce (transport s) = k"
      "fresh_below a l (transport s)" "chan_open (outgoing (rt (state x)))" "dead s \<longrightarrow> z"
    by (rule joined_returned [OF x assms(4)])
  obtain st' t q where t: "established_at i t nb q (state y)" "\<not> dead t \<longrightarrow> newborn en i (remote_addr t) t"
      "Ok vb = (Ok (new_end i nb st' (remote_addr t)) :: (_, anyhow_error) res)"
    by (rule joined_returned [OF y assms(5)])
  have new: "newborn en i (remote_addr s) s" "newborn en i (remote_addr t) t" using s(1,2) t(1,2) alive by blast+
  from connected_endsI [OF s(1) t(1) joined_linked [OF x y assms(3) s(1) t(1)] new s(6)] show ?thesis
    using s(3,4) t(3) by (simp add: with_handler_new)
qed

section \<open>The calls\<close>

text \<open>A call of \<open>connect\<close> up to its first wait.\<close>

definition connect_calls ::
    "('b, 'h, 's) env \<Rightarrow> uuid \<Rightarrow> session_id \<Rightarrow> connection_info \<Rightarrow> ('h, 's) veq_socket \<Rightarrow> (('h, 's) caller, anyhow_error) res" where
  "connect_calls en fresh i info s =
     (case connect_start en fresh i info s of
        (s1, Ok sr) \<Rightarrow> Ok \<lparr>sock = s1, call = sr, returned = None, sent = []\<rparr>
      | (_, Err e) \<Rightarrow> Err e
      | (_, Panic x) \<Rightarrow> Panic x)"

text \<open>In the pattern KK a message without payload is an ephemeral key of 32 bytes and a tag of 16.\<close>

definition kk_short :: "('b, 'h, 's) snow \<Rightarrow> bool" where
  "kk_short sn \<longleftrightarrow> (\<forall>h h1 cap out. hs_write_message sn h [] cap = (h1, Inr out) \<longrightarrow> length out \<le> 48)"

lemma kk_short_initiation:
  "SnowInitiator_new sn kp pk = Ok ini \<Longrightarrow> kk_short sn \<Longrightarrow> raw_size (HandshakeInitiation (initiation ini)) \<le> 60"
  by (force simp: SnowInitiator_new_def slice_overwrite kk_short_def split: res.splits prod.splits sum.splits if_splits)

lemma kk_short_response:
  "responder_response sn rsp ini = Ok (lt, resp) \<Longrightarrow> kk_short sn \<Longrightarrow> raw_size (HandshakeResponse resp) \<le> 60"
  by (cases rsp; cases ini)
    (force simp: slice_overwrite kk_short_def question_def split: res.splits prod.splits sum.splits if_splits)

text \<open>Two sockets whose keys fit, the first with the smaller one; nothing waits in their channels.\<close>

definition may_connect :: "('b, 'h, 's) env \<Rightarrow> ('h, 's) veq_socket \<Rightarrow> ('h, 's) veq_socket \<Rightarrow> bool" where
  "may_connect en a b \<longleftrightarrow>
     handler_codecs en \<and> kk_short (snow_of en) \<and> public_key (sock_info a) < public_key (sock_info b)
     \<and> (\<exists>hi hr. kk_completes (snow_of en) hi hr
          \<and> build_with (snow_of en) (build_initiator (snow_of en)) (keypair (sock_handler a)) (public_key (sock_info b)) = Ok hi
          \<and> build_with (snow_of en) (build_responder (snow_of en)) (keypair (sock_handler b)) (public_key (sock_info a)) = Ok hr)
     \<and> outgoing (rt (sock_handler a)) = \<lparr>chan_open = True, chan_queue = []\<rparr>
     \<and> outgoing (rt (sock_handler b)) = \<lparr>chan_open = True, chan_queue = []\<rparr>"

lemma respond_pokes:
  assumes "SnowResponder_new (snow_of en) (keypair st) (public_key info) = Ok rsp"
  shows "\<exists>h. task_of (fst (Handler_respond en n i info st)) i = Some h
    \<and> tasks (rt (fst (Handler_respond en n i info st))) h
      = Some \<lparr>ann_addresses = addresses info, ann_id = i, ann_message = HandshakePoke\<rparr>"
  using assms
  by (simp add: Handler_respond_def PendingSessionPoker_new_def spawn_def new_cell_def task_of_def frame_simps Let_def)

text \<open>The one-time identifier that a call draws is new: no removal waits for it.\<close>

definition unused :: "session_id \<Rightarrow> one_time_id \<Rightarrow> ('h, 's) veq_socket \<Rightarrow> bool" where
  "unused i n a \<longleftrightarrow> (i, n) \<notin> set (closing (sock_handler a))"

lemma remove_session_closing: "closing (remove_session i otid st) = closing st"
  by (simp add: remove_session_def remove_if_established_def remove_if_responder_def remove_if_poker_def remove_if_initiator_def
      remove_established_def drop_session_def split: option.split)

lemma calls_closing:
  "closing (fst (Handler_initiate en n i info st)) = closing st" "closing (fst (Handler_respond en n i info st)) = closing st"
  by (simp_all add: Handler_initiate_def Handler_respond_def remove_session_closing new_cell_def Let_def
      split: res.split prod.split)

lemma connect_starts:
  assumes may: "may_connect en a b" and new: "unused i na a" "unused i nb b"
  obtains x y ca cb ini rsp resp ti tr where "connect_calls en na i (VeqSocket_connection_info b) a = Ok x"
    and "connect_calls en nb i (VeqSocket_connection_info a) b = Ok y" and "agreed en ini rsp resp ti tr"
    and "asking en i na ca ini (addresses (sock_info b)) (asks en i ini) x"
    and "poking en i nb cb rsp (addresses (sock_info a)) (pokes en i) y"
proof -
  obtain hi hr where hs: "kk_completes (snow_of en) hi hr"
      "build_with (snow_of en) (build_initiator (snow_of en)) (keypair (sock_handler a)) (public_key (sock_info b)) = Ok hi"
      "build_with (snow_of en) (build_responder (snow_of en)) (keypair (sock_handler b)) (public_key (sock_info a)) = Ok hr"
    using may unfolding may_connect_def by blast
  obtain ini rsp resp ti tr where m: "SnowInitiator_new (snow_of en) (keypair (sock_handler a)) (public_key (sock_info b)) = Ok ini"
      "SnowResponder_new (snow_of en) (keypair (sock_handler b)) (public_key (sock_info a)) = Ok rsp"
      "responder_response (snow_of en) rsp (initiation ini) = Ok (from_stateless tr, resp)"
      "receive_response (snow_of en) ini resp = Ok (ReceiveOk (from_stateless ti))"
      "noise_pair (snow_of en) ti tr" "noise_pair (snow_of en) tr ti"
    by (rule handshake_messages [OF hs])
  have ag: "agreed en ini rsp resp ti tr"
    using may m kk_short_initiation [OF m(1)] kk_short_response [OF m(3)] by (force simp: agreed_def may_connect_def)
  obtain a1 h ca where a1: "Handler_initiate en na i (sock_info b) (sock_handler a) = (a1, Ok (SessionReady_new i na ca))"
      "initiating_at i ini na ca a1" "task_of a1 i = Some h"
      "tasks (rt a1) h = Some \<lparr>ann_addresses = addresses (sock_info b), ann_id = i,
        ann_message = HandshakeInitiation (initiation ini)\<rparr>"
      "outgoing (rt a1) = outgoing (rt (sock_handler a))" "cells a1 ca = \<lparr>notices = 0, receiver_alive = True, ready_wakers = []\<rparr>"
    by (rule initiate_Ok [OF m(1)])
  obtain b1 cb where b1: "Handler_respond en nb i (sock_info a) (sock_handler b) = (b1, Ok (SessionReady_new i nb cb))"
      "poking_at i rsp nb cb b1" "outgoing (rt b1) = outgoing (rt (sock_handler b))"
      "cells b1 cb = \<lparr>notices = 0, receiver_alive = True, ready_wakers = []\<rparr>"
    by (rule respond_Ok [OF m(2)])
  let ?x = "\<lparr>sock = a\<lparr>sock_handler := a1\<rparr>, call = SessionReady_new i na ca, returned = None, sent = []\<rparr>"
  let ?y = "\<lparr>sock = b\<lparr>sock_handler := b1\<rparr>, call = SessionReady_new i nb cb, returned = None, sent = []\<rparr>"
  have key: "public_key (sock_info a) < public_key (sock_info b)" using may by (simp add: may_connect_def)
  note roles = connect_start_roles [OF key a1(1) b1(1)]
  have "asking en i na ca ini (addresses (sock_info b)) (asks en i ini) ?x"
    using a1 may new(1) calls_closing(1) [of en na i "sock_info b" "sock_handler a"]
    by (simp add: announcing_def calling_def SessionReady_new_def unused_def may_connect_def given_def queued_def map_filter_simps)
  moreover have "poking en i nb cb rsp (addresses (sock_info a)) (pokes en i) ?y"
    using b1 may new(2) respond_pokes [OF m(2), of nb i] calls_closing(2) [of en nb i "sock_info a" "sock_handler b"]
    by (simp add: announcing_def calling_def SessionReady_new_def unused_def may_connect_def given_def queued_def map_filter_simps)
  ultimately show ?thesis
    using ag roles by (intro that [of ?x ?y ini rsp resp ti tr ca cb]) (simp_all add: connect_calls_def)
qed

lemma connect_begins:
  assumes "may_connect en a b" and "unused i na a" and "unused i nb b"
  obtains x y ca cb ini rsp resp ti tr where "connect_calls en na i (VeqSocket_connection_info b) a = Ok x"
    and "connect_calls en nb i (VeqSocket_connection_info a) b = Ok y" and "agreed en ini rsp resp ti tr"
    and "connecting en i na ca nb cb (addresses (sock_info b)) (addresses (sock_info a)) ini rsp resp ti tr (x, y)"
  by (rule connect_starts [OF assms]) (rule that, assumption+, rule connectingI(1))

lemma announcing_waits: "announcing en i n c P addrs m S x \<Longrightarrow> returned x = None"
  by (simp add: announcing_def calling_def)

text \<open>The two sessions, of which either may have timed out.\<close>

definition one_connection ::
    "('b, 'h, 's) env \<Rightarrow> chunked_data codec \<Rightarrow> session_id \<Rightarrow> ('h, 's) caller \<Rightarrow> ('h, 's) veq_session_alias \<Rightarrow>
       ('h, 's) caller \<Rightarrow> ('h, 's) veq_session_alias \<Rightarrow> bool" where
  "one_connection en cdc i x va y vb \<longleftrightarrow>
     (\<exists>s n r t m q. established_at i s n r (state x) \<and> established_at i t m q (state y)
        \<and> linked (snow_of en) s t \<and> linked (snow_of en) t s
        \<and> (\<not> dead s \<and> \<not> dead t \<longrightarrow>
            (\<exists>k l. connected_ends en cdc i k (with_handler (state x) va) (with_handler (state y) vb)
              \<and> connected_ends en cdc i l (with_handler (state y) vb) (with_handler (state x) va))))"

lemma joined_one_connection:
  assumes x: "joined True en i na ca a b S k l x" and y: "joined True en i nb cb b a T l k y"
    and pair: "noise_pair (snow_of en) a b" "noise_pair (snow_of en) b a"
    and ret: "returned x = Some (Ok va)" "returned y = Some (Ok vb)"
  shows "one_connection en cdc i x va y vb"
proof -
  obtain s r t q where est: "established_at i s na r (state x)" "established_at i t nb q (state y)"
    using x y unfolding joined_def by blast
  have "connected_ends en cdc i k (with_handler (state x) va) (with_handler (state y) vb)"
      "connected_ends en cdc i l (with_handler (state y) vb) (with_handler (state x) va)" if "\<not> dead s" "\<not> dead t"
  proof -
    have "\<forall>s n r. established_at i s n r (state x) \<longrightarrow> \<not> dead s" "\<forall>s n r. established_at i s n r (state y) \<longrightarrow> \<not> dead s"
      using est that established_at_unique by blast+
    from joined_connected [OF x y pair(1) ret this] joined_connected [OF y x pair(2) ret(2,1) this(2,1)]
    show "connected_ends en cdc i k (with_handler (state x) va) (with_handler (state y) vb)"
      "connected_ends en cdc i l (with_handler (state y) vb) (with_handler (state x) va)" .
  qed
  then show ?thesis
    unfolding one_connection_def using est joined_linked [OF x y pair(1) est] joined_linked [OF y x pair(2) est(2,1)] by blast
qed

lemma connecting_returned:
  assumes ag: "agreed en ini rsp resp ti tr" and "connecting en i na ca nb cb addrb addra ini rsp resp ti tr (x, y)"
  shows "returned x = Some r \<Longrightarrow> \<exists>va. r = Ok va" and "returned y = Some r \<Longrightarrow> \<exists>vb. r = Ok vb"
    and "returned y = Some r \<Longrightarrow> \<exists>s r. established_at i s na r (state x)"
    and "returned x = Some (Ok va) \<Longrightarrow> returned y = Some (Ok vb) \<Longrightarrow> one_connection en cdc i x va y vb"
proof -
  have pair: "noise_pair (snow_of en) ti tr" "noise_pair (snow_of en) tr ti" using ag by (simp_all add: agreed_def)
  consider (waiting) "returned x = None" "returned y = None"
    | k where "joined True en i na ca ti tr (asks en i ini) k 0 x" "returned y = None"
    | k l where "joined True en i na ca ti tr (asks en i ini) k l x" "joined True en i nb cb tr ti (replies en i resp) l k y"
    using assms(2)
  proof (cases rule: connecting_cases)
    case started
    show ?thesis by (rule that(1) [OF announcing_waits [OF started(1)] announcing_waits [OF started(2)]])
  next
    case asked
    show ?thesis by (rule that(1) [OF announcing_waits [OF asked(1)] announcing_waits [OF asked(2)]])
  next
    case replied
    show ?thesis by (rule that(2) [OF replied(1) announcing_waits [OF replied(2)]])
  next
    case finished
    show ?thesis by (rule that(3) [OF finished])
  qed
  note stage = this
  show "\<exists>va. r = Ok va" if "returned x = Some r" by (rule stage) (use that joined_returned in fastforce)+
  show "\<exists>vb. r = Ok vb" if "returned y = Some r" by (rule stage) (use that joined_returned in fastforce)+
  show "\<exists>s r. established_at i s na r (state x)" if "returned y = Some r"
    by (rule stage) (use that in \<open>auto simp: joined_def\<close>)
  show "one_connection en cdc i x va y vb" if "returned x = Some (Ok va)" "returned y = Some (Ok vb)"
    by (rule stage) (use that joined_one_connection [OF _ _ pair that] in auto)
qed

section \<open>The initiator times out\<close>

text \<open>The call of the initiator has returned, its session is dead, the tasks of the session have ended, and no keepalive
  of it is on its way.\<close>

definition gone ::
    "('b, 'h, 's) env \<Rightarrow> session_id \<Rightarrow> one_time_id \<Rightarrow> 'h snow_initiator \<Rightarrow> ('h, 's) caller \<Rightarrow> bool" where
  "gone en i n ini x \<longleftrightarrow>
     (\<exists>s r. established_at i s n r (state x) \<and> dead s \<and> \<not> keepalive_runs s \<and> \<not> heartbeat_runs s)
     \<and> returned x \<noteq> None \<and> given en x \<subseteq> asks en i ini \<and> (i, n) \<notin> set (closing (state x))"

lemma gone_step:
  assumes x: "gone en i n ini x" and "caller_step en i D x x'" and "D \<subseteq> replies en i resp"
  shows "gone en i n ini x'"
proof -
  obtain s r where est: "established_at i s n r (state x)" and s: "dead s" "\<not> keepalive_runs s" "\<not> heartbeat_runs s"
    and ret: "returned x \<noteq> None" "given en x \<subseteq> asks en i ini"
      "(i, n) \<notin> set (closing (state x))"
    using x unfolding gone_def by blast
  have entry: "established (state x) i = Some (n, r)" "sessions (state x) r = Some s" "task_of (state x) i = None"
    using est by (simp_all add: established_at_def task_of_def)
  from assms(2) show ?thesis
  proof cases
    case (keeps_alive m r' s')
    then show ?thesis using entry keepalive_stopped [OF entry(2) s(2), of en] x by simp
  next
    case (beats m r' s')
    then have "state x' = (state x)\<lparr>sessions := (sessions (state x))(r \<mapsto> s), rt := wake [] (rt (state x))\<rparr>" "sent x' = sent x"
        "returned x' = returned x"
      using entry s(3) by (simp_all add: session_heartbeat_def heartbeat_tick_def)
    then show ?thesis
      using est s ret given_same [of x' x en] unfolding gone_def
      by (intro conjI exI [of _ s] exI [of _ r]) (simp_all add: established_at_def wake_def)
  next
    case (removes k)
    have "closer_tick k (state x) = (state x)\<lparr>closing := take k (closing (state x)) @ drop (Suc k) (closing (state x))\<rparr>"
      by (rule stale_removal [OF removes(2,3) ret(3)]) (use est in \<open>simp_all add: established_at_def\<close>)
    then show ?thesis
      using removes(1) est s ret given_same [of x' x en] still_closing [of k "closing (state x)"] unfolding gone_def
      by (intro conjI exI [of _ s] exI [of _ r]) (auto simp: established_at_def)
  next
    case transmits
    then have "established_at i s n r (state x')"
      using est caller_transmits_frame(7) [of i x en] caller_transmits_frame(8) [of en x]
      by (simp add: established_at_def same_at_def)
    then show ?thesis using s ret transmits unfolding gone_def by (auto simp: caller_transmits_frame caller_closing)
  next
    case (takes d src)
    then obtain m where m: "says en i m d" "\<nexists>e. m = Encrypted e" using assms(3) by blast
    then show ?thesis using takes(1) established_ignores [OF est m] x by (simp add: says_taken)
  qed (use entry ret in auto)
qed

lemma gone_stays:
  assumes ag: "agreed en ini rsp resp ti tr" and "connect_steps en i u v"
    and "gone en i na ini (fst u)" and "responding en i nb cb (from_stateless tr) resp addr (replies en i resp) (snd u)"
  shows "gone en i na ini (fst v) \<and> responding en i nb cb (from_stateless tr) resp addr (replies en i resp) (snd v)"
  using assms(2)
proof (induction rule: rtranclp_induct)
  case (step v w)
  have quiet: "set (sent (fst v)) \<subseteq> asks en i ini" using step.IH sent_given unfolding gone_def by blast
  from step.hyps(2) show ?case
  proof cases
    case (one y x x')
    then show ?thesis using step.IH gone_step [of en i na ini x _ x'] announcing_sent [of en i nb cb] by fastforce
  next
    case (other x y y')
    then show ?thesis using step.IH quiet responding_step [OF ag _ other(3), of nb cb addr 0] by auto
  next
    case (loses_one ds x y)
    then show ?thesis using step.IH by (auto simp: gone_def given_def)
  next
    case (loses_other ds y x)
    then show ?thesis using step.IH announcing_loses by auto
  qed
qed (use assms(3,4) in simp)

text \<open>Its tasks take these turns by themselves: any number of keepalives, then two turns of the heartbeat task with no
  keepalive of the peer in between, then the last keepalive.\<close>

lemma speaks_often:
  assumes "handler_codecs en" "noise_pair (snow_of en) a b" and "joined False en i n c a b S 0 l x" and "m < 2 ^ 64"
  shows "\<exists>x'. by_itself en i x x' \<and> joined False en i n c a b S (of_nat m) l x' \<and> returned x' = returned x"
  using assms(4)
proof (induction m)
  case (Suc m)
  then obtain x1 where x1: "by_itself en i x x1" "joined False en i n c a b S (of_nat m) l x1" "returned x1 = returned x" by auto
  have "unat (of_nat m :: u64) = m" using Suc.prems by (intro unat_of_nat_u64) simp
  then have "of_nat m \<noteq> u64_max" using Suc.prems by auto
  then obtain x2 where "caller_step en i {} x1 x2" "joined False en i n c a b S (of_nat m + 1) l x2" "returned x2 = returned x1"
    using joined_speaks [OF assms(1,2) x1(2)] by metis
  then show ?case using x1 by (intro exI [of _ x2]) (simp add: add.commute rtranclp.rtrancl_into_rtrancl)
qed (use assms(3) in auto)

lemma times_out:
  assumes en: "handler_codecs en" "noise_pair (snow_of en) a b" and x: "joined False en i n c a b S k l x" and "k \<noteq> u64_max"
  obtains x' s r where "by_itself en i x x'" and "established_at i s n r (state x')" and "dead s" and "\<not> keepalive_runs s"
    and "\<not> heartbeat_runs s" and "next_nonce (transport s) = k + 1" and "queued en (state x') = []" and "returned x' = returned x"
    and "(i, n) \<notin> set (closing (state x'))"
proof -
  obtain s r where est: "established_at i s n r (state x)" using x unfolding joined_def by blast
  note s = joinedE [OF x est]
  define x1 where "x1 = with_state (session_heartbeat r (state x)) x"
  define x2 where "x2 = with_state (session_heartbeat r (state x1)) x1"
  define x3 where "x3 = with_state (session_keepalive en r (state x2)) x2"
  have x1: "joined True en i n c a b S k l x1" "established_at i (beaten s) n r (state x1)"
    using joined_beats [OF x est] by (simp_all add: x1_def)
  have x2: "joined True en i n c a b S k l x2" "established_at i (beaten (beaten s)) n r (state x2)"
    using joined_beats [OF x1] by (simp_all add: x2_def)
  have dead: "dead (beaten (beaten s))" "\<not> heartbeat_runs (beaten (beaten s))" "keepalive_runs (beaten (beaten s))"
    using s(3) by (auto simp: beaten_def heartbeat_tick_def split: if_splits)
  have x3: "joined True en i n c a b S (k + 1) l x3" "established_at i (kept_alive (beaten (beaten s))) n r (state x3)"
    using joined_keeps_alive [OF en x2 assms(4) dead(3)] unfolding x3_def with_state_sel by blast+
  have entry: "established (state y) i = Some (n, r)" "sessions (state y) r = Some t" if "established_at i t n r (state y)" for t y
    using that by (simp_all add: established_at_def)
  have "caller_step en i {} x x1" "caller_step en i {} x1 x2" "caller_step en i {} x2 x3"
    using caller_step.beats [OF entry [OF est]] caller_step.beats [OF entry [OF x1(2)]]
      caller_step.keeps_alive [OF entry [OF x2(2)]] joinedE(5) [OF x2] assms(4)
    by (simp_all add: x1_def x2_def x3_def)
  moreover obtain x4 where x4: "by_itself en i x3 x4" "queued en (state x4) = []" "returned x4 = returned x3"
      "established_at i (kept_alive (beaten (beaten s))) n r (state x4)" "closing (state x4) = closing (state x3)"
    using drained [of en i x3] x3(2) by blast
  ultimately have "by_itself en i x x4" by (meson converse_rtranclp_into_rtranclp)
  then show ?thesis
    by (rule that [OF _ x4(4)])
      (use dead x4(2,3,5) joinedE(5) [OF x2] joinedE(10) [OF x3] in \<open>simp_all add: kept_alive_sel x1_def x2_def x3_def\<close>)
qed

section \<open>Properties\<close>




text \<open>The calls of two sockets of the small example.\<close>

lemma tag_snow_short: "kk_short tag_snow"
  by (auto simp: kk_short_def tag_snow_def)

lemma demo_may_connect:
  "may_connect (layout_env tag_snow) (demo_socket [1] (SocketAddrV4 1 2)) (demo_socket [9] (SocketAddrV4 3 4))"
proof -
  have "kk_completes (snow_of (layout_env tag_snow)) () ()" "kk_short (snow_of (layout_env tag_snow))"
    using tag_snow_completes tag_snow_short by (simp_all add: layout_env_def)
  then show ?thesis
    unfolding may_connect_def using layout_env_handler_codecs tag_built
    by (intro conjI exI [of _ "()"]) (simp_all add: demo_socket_def Handler_new_def del: build_with.simps)
qed

lemma demo_unused: "unused i n (demo_socket k addr)"
  by (simp add: unused_def demo_socket_def Handler_new_def)

lemma asking_lively: "asking en i n c ini addrs S x \<Longrightarrow> lively i x"
  by (auto simp: announcing_def initiating_at_def lively_def)

lemma demo_calls:
  obtains x y x' y' where
    "connect_calls (layout_env tag_snow) 11 5 (VeqSocket_connection_info (demo_socket [9] (SocketAddrV4 3 4)))
      (demo_socket [1] (SocketAddrV4 1 2)) = Ok x"
    and "connect_calls (layout_env tag_snow) 12 5 (VeqSocket_connection_info (demo_socket [1] (SocketAddrV4 1 2)))
      (demo_socket [9] (SocketAddrV4 3 4)) = Ok y"
    and "lively 5 x"
    and "connect_steps (layout_env tag_snow) 5 (x, y) (x', y')" and "returned x' \<noteq> None" and "returned y' \<noteq> None"
proof -
  let ?en = "layout_env tag_snow" and ?a = "demo_socket [1] (SocketAddrV4 1 2)" and ?b = "demo_socket [9] (SocketAddrV4 3 4)"
  obtain x y ca cb ini rsp resp ti tr where
    x: "connect_calls ?en 11 5 (VeqSocket_connection_info ?b) ?a = Ok x" "connect_calls ?en 12 5 (VeqSocket_connection_info ?a) ?b = Ok y"
    and ag: "agreed ?en ini rsp resp ti tr" "asking ?en 5 11 ca ini (addresses (sock_info ?b)) (asks ?en 5 ini) x"
      "poking ?en 5 12 cb rsp (addresses (sock_info ?a)) (pokes ?en 5) y"
    by (rule connect_starts [OF demo_may_connect demo_unused demo_unused])
  have "can_return ?en 5 (x, y)"
    by (rule connecting_returns [OF ag(1) connectingI(1) [OF ag(2,3)] _ asking_lively [OF ag(2)]]) (simp add: demo_socket_def)
  then show ?thesis using that x asking_lively [OF ag(2)] unfolding can_return_def by blast
qed




end
