(* ===== verification/Reuse.thy ===== *)
theory Reuse
  imports ConnectProps
begin

text \<open>
  An identifier is used twice (\<open>test_session_id_reuse\<close> in \<open>src/src/lib.rs\<close>): both sides of a connection drop their handles
  and connect again at once under the same identifier. The drops only spawn the removals (\<open>close_session\<close> in
  \<open>src/src/handler.rs\<close>), which may run before, while or after the new connection is made; what they find then is not
  theirs to remove. The tasks of the dropped sessions take no turn in this theory, and no datagram of theirs is on its way:
  each would send one more keepalive, whose nonce the responder of the new connection records before it finds that it
  cannot decrypt it.
\<close>

section \<open>What the old connection leaves behind\<close>

lemma remove_session_closes:
  assumes "established_at i s n r st"
  shows "sessions (remove_session i None st) r = Some (Session_close s)"
  using assms
  by (simp add: established_at_def remove_session_def remove_if_established_def remove_if_responder_def remove_if_poker_def
      remove_if_initiator_def id_matches_def remove_established_def drop_session_def)

lemma calls_close_old:
  assumes "established_at i s m r st"
  shows "sessions (fst (Handler_initiate en n i info st)) r = Some (Session_close s)"
    and "sessions (fst (Handler_respond en n i info st)) r = Some (Session_close s)"
  using remove_session_closes [OF assms]
  by (simp_all add: Handler_initiate_def Handler_respond_def new_cell_def Let_def split: res.split prod.split)

text \<open>A call of \<open>connect\<close> closes the session that it finds under its identifier, and leaves the removals to run.\<close>

lemma connect_calls_old:
  assumes "connect_calls en n i info a = Ok x" and "established_at i s m r (sock_handler a)"
  shows "sessions (state x) r = Some (Session_close s)" and "closing (state x) = closing (sock_handler a)"
proof -
  obtain st rs where st: "(if is_initiator a info then Handler_initiate en n i info (sock_handler a)
      else Handler_respond en n i info (sock_handler a)) = (st, rs)" by fastforce
  then have "sessions st r = Some (Session_close s)" "closing st = closing (sock_handler a)"
    using calls_close_old [OF assms(2), of en n info] calls_closing [of en n i info "sock_handler a"]
    by (auto split: if_splits)
  moreover have "state x = st"
    using assms(1) st by (auto simp: connect_calls_def connect_start_def split: res.splits)
  ultimately show "sessions (state x) r = Some (Session_close s)" "closing (state x) = closing (sock_handler a)" by simp_all
qed

text \<open>The socket after the last handle of a connection of its was dropped.\<close>

definition after_drop :: "('h, 's) bidirectional_session \<Rightarrow> ('h, 's) veq_socket \<Rightarrow> ('h, 's) veq_socket" where
  "after_drop v a = a\<lparr>sock_handler := BidirectionalSession_drop v\<rparr>"

definition handle_of :: "('h, 's) veq_socket \<Rightarrow> session_id \<Rightarrow> 's session \<Rightarrow> nat \<Rightarrow> ('h, 's) bidirectional_session \<Rightarrow> bool" where
  "handle_of a i s r v \<longleftrightarrow>
     bd_handler v = sock_handler a \<and> bd_id v = i \<and> established_at i s (bd_one_time_id v) r (sock_handler a)"

lemma after_drop_old:
  assumes "handle_of a i s r v"
  shows "established_at i s (bd_one_time_id v) r (sock_handler (after_drop v a))"
    and "closing (sock_handler (after_drop v a)) = closing (sock_handler a) @ [(i, bd_one_time_id v)]"
    and "VeqSocket_connection_info (after_drop v a) = VeqSocket_connection_info a"
  using assms
  by (simp_all add: handle_of_def after_drop_def BidirectionalSession_drop_def close_session_def established_at_def
      VeqSocket_connection_info_def)

lemma may_connect_again:
  "may_connect en a b \<Longrightarrow> handle_of a i s r va \<Longrightarrow> handle_of b i t q vb \<Longrightarrow> may_connect en (after_drop va a) (after_drop vb b)"
  by (simp add: may_connect_def handle_of_def after_drop_def BidirectionalSession_drop_def close_session_def del: build_with.simps)

text \<open>From here on the two calls go as they should.\<close>

definition connects_well ::
    "('b, 'h, 's) env \<Rightarrow> chunked_data codec \<Rightarrow> session_id \<Rightarrow> ('h, 's) caller \<Rightarrow> ('h, 's) caller \<Rightarrow> bool" where
  "connects_well en cdc i x y \<longleftrightarrow>
     (\<forall>ra. returned x = Some ra \<longrightarrow> (\<exists>wa. ra = Ok wa)) \<and> (\<forall>rb. returned y = Some rb \<longrightarrow> (\<exists>wb. rb = Ok wb))
     \<and> (\<forall>wa wb. returned x = Some (Ok wa) \<longrightarrow> returned y = Some (Ok wb) \<longrightarrow> one_connection en cdc i x wa y wb)
     \<and> (lively i x \<longrightarrow> can_return en i (x, y))"

section \<open>Properties\<close>


text \<open>Two sockets with an old session under the identifier 5.\<close>

definition used_socket :: "bytes \<Rightarrow> socket_addr \<Rightarrow> (unit, u8) veq_socket" where
  "used_socket k addr = (demo_socket k addr)\<lparr>sock_handler := (sock_handler (demo_socket k addr))
     \<lparr>established := [5 \<mapsto> (7, 0)], sessions := [0 \<mapsto> demo_session], next_session := 1\<rparr>\<rparr>"

definition used_handle :: "bytes \<Rightarrow> socket_addr \<Rightarrow> (unit, u8) bidirectional_session" where
  "used_handle k addr = \<lparr>bd_id = 5, bd_one_time_id = 7, bd_handler = sock_handler (used_socket k addr)\<rparr>"

lemma used_handle_of: "handle_of (used_socket k addr) 5 demo_session 0 (used_handle k addr)"
  by (simp add: handle_of_def used_handle_def used_socket_def demo_socket_def Handler_new_def established_at_def)

lemma used_unused: "n \<noteq> 7 \<Longrightarrow> unused 5 n (after_drop (used_handle k addr) (used_socket k addr))"
  by (simp add: unused_def after_drop_def used_handle_def used_socket_def demo_socket_def Handler_new_def
      BidirectionalSession_drop_def close_session_def)


end
