(* ===== verification/Closing.thy ===== *)
theory Closing
  imports ConnectProps
begin

text \<open>
  The end of a connection (the drop of \<open>BidirectionalSession\<close> in \<open>src/src/veq.rs\<close>, \<open>close_session\<close> in
  \<open>src/src/handler.rs\<close>, the two tasks of \<open>Session::new\<close> in \<open>src/src/session.rs\<close>): a session that was
  dropped sends at most one more keepalive, and the other side finds out, since a keepalive keeps it alive only
  once, however often the network repeats it.
\<close>

section \<open>The side that is dropped\<close>

text \<open>The task of a dead session sends once more and then ends.\<close>

lemma dead_keepalive:
  assumes "handler_codecs en" and "sessions st r = Some s" and "dead s" and "can_transmit en (s\<lparr>dead := False\<rparr>)"
    and "noise_pair (snow_of en) (stateless (transport s)) b" and "next_nonce (transport s) \<noteq> u64_max"
    and "chan_open (outgoing (rt st))"
  obtains p d s1 where "serialize (packet_codec en) p = Inr d"
    and "wire_message en b (sess_id s) (next_nonce (transport s)) Keepalive d" and "length d \<le> 65536"
    and "chan_queue (outgoing (rt (session_keepalive en r st))) = chan_queue (outgoing (rt st)) @ [(remote_addr s, p, 64)]"
    and "sessions (session_keepalive en r st) r = Some s1" and "\<not> keepalive_runs s1"
proof -
  obtain plain enc bytes d where x: "serialize (message_codec en) Keepalive = Inr plain"
      "seal (overflow_checks en) (nonced_codec en) (snow_of en) (transport s) plain
        = ((transport s)\<lparr>next_nonce := next_nonce (transport s) + 1\<rparr>, Ok enc)"
      "serialize (raw_codec en) (Encrypted enc) = Inr bytes"
      "serialize (packet_codec en) (SessionPacket_new (sess_id s) bytes) = Inr d"
      "wire_message en b (sess_id s) (next_nonce (transport s)) Keepalive d" "length d \<le> message_size Keepalive + 76"
    by (rule sealed_on_wire [OF assms(1,5,6), of Keepalive "sess_id s"]) simp
  have len: "length d \<le> 65536" using x(6) by simp
  show ?thesis
    by (rule that [OF x(4,5) len, of "s\<lparr>transport := (transport s)\<lparr>next_nonce := next_nonce (transport s) + 1\<rparr>, keepalive_runs := False\<rparr>"])
      (use assms x in \<open>simp_all add: session_keepalive_def keepalive_tick_def can_transmit_def chan_send_def\<close>)
qed

lemma stopped_keepalive:
  assumes "sessions st r = Some s" and "\<not> keepalive_runs s"
  shows "(session_keepalive en r ^^ n) st = st"
proof -
  have "session_keepalive en r st = st"
    using assms by (simp add: session_keepalive_def keepalive_tick_def fun_upd_idem)
  then show ?thesis by (induction n) simp_all
qed

lemma closer_outgoing: "outgoing (rt (closer_tick k st)) = outgoing (rt st)"
  by (simp add: closer_tick_def remove_session_outgoing split: prod.split)

text \<open>However many turns its task takes, a dropped session sends exactly one more keepalive.\<close>

lemma dropped_sends_once:
  assumes "handler_codecs en" and est: "established_at i s n r (bd_handler v)" and v: "bd_id v = i" "bd_one_time_id v = n"
    and s: "can_transmit en s" "sess_id s = i" "next_nonce (transport s) \<noteq> u64_max"
    and "noise_pair (snow_of en) (stateless (transport s)) b" and open_ch: "chan_open (outgoing (rt (bd_handler v)))"
    and st: "st = closer_tick (length (closing (bd_handler v))) (BidirectionalSession_drop v)"
  obtains p d s1 where "serialize (packet_codec en) p = Inr d" and "wire_message en b i (next_nonce (transport s)) Keepalive d"
    and "chan_queue (outgoing (rt st)) = chan_queue (outgoing (rt (bd_handler v)))"
    and "\<forall>m. chan_queue (outgoing (rt ((session_keepalive en r ^^ Suc m) st)))
      = chan_queue (outgoing (rt (bd_handler v))) @ [(remote_addr s, p, 64)]"
    and "length d \<le> 65536" and "sessions (session_keepalive en r st) r = Some s1" and "\<not> keepalive_runs s1"
proof -
  have entry: "sessions st r = Some (Session_close s)"
    using closed_entry(2) [OF est] by (simp add: st BidirectionalSession_drop_def v)
  have out: "outgoing (rt st) = outgoing (rt (bd_handler v))"
    by (simp add: st closer_outgoing BidirectionalSession_drop_def close_session_def)
  have "dead (Session_close s)" "can_transmit en ((Session_close s)\<lparr>dead := False\<rparr>)"
      "noise_pair (snow_of en) (stateless (transport (Session_close s))) b"
      "next_nonce (transport (Session_close s)) \<noteq> u64_max" "chan_open (outgoing (rt st))"
    using s assms(8) open_ch out by (simp_all add: Session_close_def can_transmit_def)
  from dead_keepalive [OF assms(1) entry this]
  obtain p d s1 where p: "serialize (packet_codec en) p = Inr d"
      "wire_message en b (sess_id (Session_close s)) (next_nonce (transport (Session_close s))) Keepalive d" "length d \<le> 65536"
      "chan_queue (outgoing (rt (session_keepalive en r st)))
        = chan_queue (outgoing (rt st)) @ [(remote_addr (Session_close s), p, 64)]"
      "sessions (session_keepalive en r st) r = Some s1" "\<not> keepalive_runs s1"
    by blast
  have "(session_keepalive en r ^^ Suc m) st = session_keepalive en r st" for m
    using stopped_keepalive [OF p(5,6)] by (simp add: funpow_swap1)
  then show ?thesis
    using p out s(2) by (intro that [of p d s1]) (simp_all add: Session_close_def)
qed

section \<open>The side that stays\<close>

text \<open>What happens to it: a turn of its heartbeat task, or a datagram.\<close>

datatype end_event = Beats | Hears socket_addr bytes

fun end_meets :: "('b, 'h, 's) env \<Rightarrow> nat \<Rightarrow> end_event \<Rightarrow> ('h, 's) handler \<Rightarrow> ('h, 's) handler" where
  "end_meets en r Beats st = session_heartbeat r st"
| "end_meets en r (Hears src d) st = take_in en src d st"

fun beats :: "end_event list \<Rightarrow> nat" where
  "beats [] = 0"
| "beats (Beats # es) = Suc (beats es)"
| "beats (Hears _ _ # es) = beats es"

text \<open>Every datagram was sent by the peer, under a nonce below \<open>k\<close>.\<close>

definition hears_only :: "('b, 'h, 's) env \<Rightarrow> 's \<Rightarrow> session_id \<Rightarrow> u64 \<Rightarrow> end_event list \<Rightarrow> bool" where
  "hears_only en b i k es \<longleftrightarrow>
     (\<forall>src d. Hears src d \<in> set es \<longrightarrow> (\<exists>j < k. \<exists>m. wire_message en b i j m d))"

lemma hears_only_Cons:
  "hears_only en b i k (e # es) \<longleftrightarrow>
     (case e of Beats \<Rightarrow> True | Hears src d \<Rightarrow> \<exists>j < k. \<exists>m. wire_message en b i j m d) \<and> hears_only en b i k es"
  by (cases e) (auto simp: hears_only_def)

text \<open>How many nonces below \<open>k\<close> are still news.\<close>

definition news :: "u64 \<Rightarrow> 's lossy_transport_state \<Rightarrow> nat" where
  "news k lt = unat k - (case received_nonces lt of [] \<Rightarrow> 0 | n # _ \<Rightarrow> Suc (unat n))"

lemma news_le: "news k lt \<le> unat k"
  by (simp add: news_def)

lemma read_up_to_nonce:
  assumes "read_up_to b (j + 1) lt" and "j \<noteq> u64_max"
  shows "received_nonces lt = [j]"
proof -
  have up: "v < j + 1 \<longleftrightarrow> v \<le> j" for v
    using unat_plus_1 [OF assms(2)] by (simp add: word_less_nat_alt word_le_nat_alt less_Suc_eq_le)
  have "nonce_rejected (received_nonces lt) j" "length (received_nonces lt) \<le> 1" "\<forall>m \<in> set (received_nonces lt). m \<le> j"
    using assms(1) up by (auto simp: read_up_to_def fresh_below_def)
  then show ?thesis
    by (cases "received_nonces lt") (auto simp: nonce_rejected_def bts_contains_def bts_first_def)
qed

lemma news_decrease:
  assumes "fresh_below b j lt" and "read_up_to b (j + 1) lt1" and "j < k"
  shows "news k lt1 < news k lt"
proof -
  have "received_nonces lt1 = [j]" by (rule read_up_to_nonce [OF assms(2) below_max [OF assms(3)]])
  moreover have "unat n < unat j" if "n \<in> set (received_nonces lt)" for n
    using assms(1) that by (auto simp: fresh_below_def word_less_nat_alt)
  ultimately show ?thesis
    using assms(3) by (cases "received_nonces lt") (fastforce simp: news_def word_less_nat_alt)+
qed

text \<open>A datagram of the peer: the session is as it was, or a nonce less is news.\<close>

lemma hears_one:
  assumes est: "established_at i t n r st" and "fresh_below b k (transport t)" and "j < k" and "wire_message en b i j m d"
  obtains t1 where "established_at i t1 n r (take_in en src d st)" and "fresh_below b k (transport t1)"
    and "dead t1 = dead t" and "heartbeat_runs t1 = heartbeat_runs t"
    and "news k (transport t1) + of_bool (heartbeat t1) \<le> news k (transport t) + of_bool (heartbeat t)"
proof (cases "fresh_below b j (transport t)")
  case True
  obtain st1 lt where st1: "Handler_handle_incoming en src d st = (st1, Ok ())"
      "established_at i (fst (taken_in m lt t)) n r st1" "read_up_to b (j + 1) lt"
    by (rule established_receives [OF est True below_max [OF assms(3)] assms(4)])
  have "j + 1 \<le> k" using assms(3) unat_plus_1 [OF below_max [OF assms(3)]] by (simp add: word_less_nat_alt word_le_nat_alt)
  then have "fresh_below b k lt" by (rule fresh_below_mono [OF read_up_to_fresh [OF st1(3)]])
  moreover have "news k lt < news k (transport t)" by (rule news_decrease [OF True st1(3) assms(3)])
  ultimately show ?thesis
    using st1(1,2) by (intro that [of "fst (taken_in m lt t)"]) (auto simp: take_in_def taken_in_def split: message.split)
next
  case False
  then obtain l where "read_up_to b l (transport t)" "j < l" using fresh_or_read [OF assms(2), of j] by blast
  from established_late [OF est this assms(4)] show ?thesis
    using est assms(2) by (intro that [of t]) (simp_all add: take_in_def)
qed

lemma hears_dead:
  assumes est: "established_at i t n r st" and "dead t" and "e = Beats \<or> (\<exists>src d j m. e = Hears src d \<and> wire_message en b i j m d)"
  shows "\<exists>t1. established_at i t1 n r (end_meets en r e st) \<and> dead t1"
proof (cases e)
  case Beats
  then show ?thesis
    using est assms(2) by (auto simp: session_heartbeat_def heartbeat_tick_def established_at_def split: prod.split)
next
  case (Hears src d)
  then obtain j m where "wire_message en b i j m d" using assms(3) by blast
  from take_in_established(2) [OF this est, of src] show ?thesis using Hears assms(2) by (auto simp: outward_def)
qed

lemma stays_dead:
  assumes "established_at i t n r st" and "dead t" and "hears_only en b i k es"
  shows "\<exists>t1. established_at i t1 n r (fold (end_meets en r) es st) \<and> dead t1"
  using assms
proof (induction es arbitrary: t st)
  case (Cons e es)
  have "e = Beats \<or> (\<exists>src d j m. e = Hears src d \<and> wire_message en b i j m d)"
    using Cons.prems(3) by (cases e) (auto simp: hears_only_Cons)
  from hears_dead [OF Cons.prems(1,2) this] obtain t1 where "established_at i t1 n r (end_meets en r e st)" "dead t1" by blast
  then show ?case using Cons.IH Cons.prems(3) by (simp add: hears_only_Cons)
qed auto

text \<open>A session that is still alive has had at most one turn of the heartbeat task more than it had news.\<close>

lemma beats_bounded:
  assumes "established_at i t n r st" and "fresh_below b k (transport t)" and "heartbeat_runs t" and "hears_only en b i k es"
  shows "\<exists>t1. established_at i t1 n r (fold (end_meets en r) es st)
    \<and> (dead t1 \<or> beats es \<le> news k (transport t) + of_bool (heartbeat t))"
  using assms
proof (induction es arbitrary: t st)
  case (Cons e es)
  have only: "hears_only en b i k es" using Cons.prems(4) by (simp add: hears_only_Cons)
  show ?case
  proof (cases e)
    case (Hears src d)
    then obtain j m where j: "j < k" "wire_message en b i j m d"
      using Cons.prems(4) by (auto simp: hears_only_Cons)
    obtain t1 where "established_at i t1 n r (take_in en src d st)" "fresh_below b k (transport t1)"
        "heartbeat_runs t1 = heartbeat_runs t"
        "news k (transport t1) + of_bool (heartbeat t1) \<le> news k (transport t) + of_bool (heartbeat t)"
      by (rule hears_one [OF Cons.prems(1,2) j])
    then show ?thesis using Cons.IH [of t1 "take_in en src d st"] Cons.prems(3) only Hears by fastforce
  next
    case Beats
    let ?t = "fst (heartbeat_tick t)"
    have t: "established_at i ?t n r (session_heartbeat r st)" "fresh_below b k (transport ?t)" "transport ?t = transport t"
      using Cons.prems(1-3) by (simp_all add: session_heartbeat_def heartbeat_tick_def established_at_def)
    show ?thesis
    proof (cases "heartbeat t")
      case True
      then have "heartbeat_runs ?t" "\<not> heartbeat ?t" using Cons.prems(3) by (simp_all add: heartbeat_tick_def)
      then show ?thesis using Cons.IH [OF t(1,2) _ only] t(3) True Beats by auto
    next
      case False
      then have "dead ?t" using Cons.prems(3) by (simp add: heartbeat_tick_def)
      then show ?thesis using stays_dead [OF t(1) _ only] Beats by auto
    qed
  qed
qed auto

text \<open>Every call on a session that is established and dead gives \<open>Disconnected\<close>.\<close>

lemma dead_end_disconnects:
  assumes "established_at i t n r (bd_handler v)" and "bd_id v = i" and "dead t"
  shows "\<exists>v'. BidirectionalSession_recv fresh w v = Some (v', Err Disconnected)"
    and "BidirectionalSession_send en v x = (v, Err Disconnected)"
    and "snd (session_poll r (Receiving u) w (bd_handler v)) = Ready (Err Disconnected)"
  using assms
  by (simp_all add: BidirectionalSession_recv_def BidirectionalSession_send_def Handler_recv_from_def Handler_send_def
      Session_is_dead_def Session_send_def established_at_def session_poll_def fun_upd_idem)

section \<open>Properties\<close>

text \<open>C20 (liveness). A drop is noticed at the other end. Of two ends whose sessions are linked, the handle of the first is
  dropped and the removal that this spawned has run. Then its session sends exactly one more keepalive, however many
  turns its task takes. At the other end let the heartbeat task take its turns, and let the network deliver, between them, whatever the
  first end sent until then, messages and keepalives, in any order and any number of times: after two turns more than there are
  nonces that the end had not read, \<open>recv\<close> and \<open>send\<close> there return \<open>Disconnected\<close>, and so does a receiver that was waiting.\<close>

theorem drop_noticed:
  assumes "handler_codecs en" and "established_at i s na ra (bd_handler va)" and "bd_id va = i" and "bd_one_time_id va = na"
    and "can_transmit en s" and "sess_id s = i" and "next_nonce (transport s) \<noteq> u64_max"
    and "chan_open (outgoing (rt (bd_handler va)))" and "linked (snow_of en) s t"
    and est: "established_at i t nb rb (bd_handler vb)" and "bd_id vb = i" and "heartbeat_runs t"
    and "st = closer_tick (length (closing (bd_handler va))) (BidirectionalSession_drop va)"
    and k: "k = next_nonce (transport s)" and b: "b = stateless (transport t)"
  shows "\<exists>p d. serialize (packet_codec en) p = Inr d \<and> wire_message en b i k Keepalive d
    \<and> (\<forall>m. chan_queue (outgoing (rt ((session_keepalive en ra ^^ m) st)))
          = chan_queue (outgoing (rt (bd_handler va))) @ (if m = 0 then [] else [(remote_addr s, p, 64)]))
    \<and> (\<forall>es st'. hears_only en b i (k + 1) es \<longrightarrow> news (k + 1) (transport t) + 2 \<le> beats es \<longrightarrow>
        st' = fold (end_meets en rb) es (bd_handler vb) \<longrightarrow>
        (\<exists>v'. BidirectionalSession_recv fresh w (vb\<lparr>bd_handler := st'\<rparr>) = Some (v', Err Disconnected))
        \<and> BidirectionalSession_send en (vb\<lparr>bd_handler := st'\<rparr>) x = (vb\<lparr>bd_handler := st'\<rparr>, Err Disconnected)
        \<and> snd (session_poll rb (Receiving u) w st') = Ready (Err Disconnected))"
proof -
  have link: "noise_pair (snow_of en) (stateless (transport s)) b" "fresh_below b k (transport t)"
    using assms(9) by (simp_all add: linked_def b k)
  obtain p d where p: "serialize (packet_codec en) p = Inr d" "wire_message en b i k Keepalive d"
      "chan_queue (outgoing (rt st)) = chan_queue (outgoing (rt (bd_handler va)))"
      "\<forall>m. chan_queue (outgoing (rt ((session_keepalive en ra ^^ Suc m) st)))
        = chan_queue (outgoing (rt (bd_handler va))) @ [(remote_addr s, p, 64)]"
    by (rule dropped_sends_once [OF assms(1-7) link(1) assms(8,13)]) (simp add: k)
  have "chan_queue (outgoing (rt ((session_keepalive en ra ^^ m) st)))
      = chan_queue (outgoing (rt (bd_handler va))) @ (if m = 0 then [] else [(remote_addr s, p, 64)])" for m
    using p(3,4) by (cases m) simp_all
  moreover have "k \<le> k + 1" using nonce_advances [of k] assms(7) k by simp
  then have fresh: "fresh_below b (k + 1) (transport t)" by (rule fresh_below_mono [OF link(2)])
  have "\<exists>t1. established_at i t1 nb rb (fold (end_meets en rb) es (bd_handler vb)) \<and> dead t1"
    if es: "hears_only en b i (k + 1) es" "news (k + 1) (transport t) + 2 \<le> beats es" for es
    using beats_bounded [OF est fresh assms(12) es(1)] es(2) by (cases "heartbeat t") auto
  then have "(\<exists>v'. BidirectionalSession_recv fresh w (vb\<lparr>bd_handler := st'\<rparr>) = Some (v', Err Disconnected))
        \<and> BidirectionalSession_send en (vb\<lparr>bd_handler := st'\<rparr>) x = (vb\<lparr>bd_handler := st'\<rparr>, Err Disconnected)
        \<and> snd (session_poll rb (Receiving u) w st') = Ready (Err Disconnected)"
    if "hears_only en b i (k + 1) es" "news (k + 1) (transport t) + 2 \<le> beats es" "st' = fold (end_meets en rb) es (bd_handler vb)"
    for es st'
    using that dead_end_disconnects [of i _ nb rb "vb\<lparr>bd_handler := st'\<rparr>"] assms(11) by fastforce
  ultimately show ?thesis using p(1,2) by blast
qed

theorem drop_noticed_witness:
  "\<exists>v'. BidirectionalSession_recv 1 0 ((delegate (vs_delegate demo_end))\<lparr>bd_handler :=
      fold (end_meets (layout_env tag_snow) 0) [Beats, Beats, Beats] (bd_handler (delegate (vs_delegate demo_end)))\<rparr>)
    = Some (v', Err Disconnected)"
proof -
  let ?v = "delegate (vs_delegate demo_end)" and ?en = "layout_env tag_snow"
  have est: "established_at 5 demo_session 11 0 (bd_handler ?v)" and v: "bd_id ?v = 5" "bd_one_time_id ?v = 11"
    and ch: "chan_open (outgoing (rt (bd_handler ?v)))"
    by (simp_all add: established_at_def demo_end_def Chunker_new_def Handler_new_def)
  have s: "can_transmit ?en demo_session" "sess_id demo_session = 5" "next_nonce (transport demo_session) \<noteq> u64_max"
      "heartbeat_runs demo_session"
      "news (next_nonce (transport demo_session) + 1) (transport demo_session) + 2 \<le> beats [Beats, Beats, Beats]"
    by (simp_all add: can_transmit_def demo_session_def from_stateless_sel layout_env_def layout_codec_def news_def
        from_stateless_def LossyTransportState_new_def)
  have es: "hears_only ?en b 5 k [Beats, Beats, Beats]" for b :: u8 and k by (simp add: hears_only_def)
  show ?thesis
    using drop_noticed [OF layout_env_handler_codecs est v s(1-3) ch demo_linked est v(1) s(4) refl refl refl, of 1 0 "[]" 0] es s(5)
    by blast
qed

end
