(* ===== verification/Tests.thy ===== *)
theory Tests
  imports Stack "HOL-Library.Monad_Syntax"
begin

text \<open>
  The repository's own tests of single parts (the modules \<open>tests\<close> of \<open>src/src/transform.rs\<close>,
  \<open>src/src/snow_types.rs\<close> and \<open>src/src/ip_discovery/mod.rs\<close>, and the tests of \<open>src/src/lib.rs\<close> on
  bound sockets) as definitions, and that they pass whatever the packages do within their
  contracts. A test is a value of type \<open>unit option\<close>; a failed assertion, the \<open>unwrap\<close> of an error
  and a call that waits for ever give \<open>None\<close>. The tests that use connections are in \<open>LibTests\<close> and \<open>Reuse\<close>.
\<close>

fun unwrapped :: "('a, 'e) res \<Rightarrow> 'a option" where
  "unwrapped (Ok x) = Some x"
| "unwrapped (Err _) = None"
| "unwrapped (Panic _) = None"

definition assert_eq :: "'a \<Rightarrow> 'a \<Rightarrow> unit option" where
  "assert_eq a b = (if a = b then Some () else None)"

section \<open>transform.rs\<close>

definition test_send_recv :: "bool \<Rightarrow> chunked_data codec \<Rightarrow> unit option" where
  "test_send_recv oc cdc = do {
     let data = [1, 2, 3, 4, 5, 6, 7, 8];
     let (chunker, sent) = Chunker_send oc cdc deque_send (Chunker_new [] 3) data;
     unwrapped sent;
     (_, r) \<leftarrow> Chunker_recv oc cdc deque_recv chunker;
     received \<leftarrow> unwrapped r;
     assert_eq data received
   }"

text \<open>The queue is shared: the test takes the chunk \<open>[1, 2, 3]\<close> out of it.\<close>

definition test_send_recv_lossy :: "bool \<Rightarrow> chunked_data codec \<Rightarrow> unit option" where
  "test_send_recv_lossy oc cdc = do {
     let (chunker, sent) = Chunker_send oc cdc deque_send (Chunker_new [] 3) [1, 2, 3, 4, 5, 6, 7, 8];
     unwrapped sent;
     (queue, stolen) \<leftarrow> deque_recv (delegate chunker);
     unwrapped stolen;
     let data = [9, 10, 11, 12, 13, 14, 15, 16];
     let (chunker, sent) = Chunker_send oc cdc deque_send (chunker\<lparr>delegate := queue\<rparr>) data;
     unwrapped sent;
     (_, r) \<leftarrow> Chunker_recv oc cdc deque_recv chunker;
     received \<leftarrow> unwrapped r;
     assert_eq data received
   }"

section \<open>snow\_types.rs\<close>

text \<open>The beginning of each test: two key pairs, and the handshake between them.\<close>

definition test_transports ::
    "('b, 'h, 's) env \<Rightarrow> bytes \<Rightarrow> bytes \<Rightarrow> ('s lossy_transport_state \<times> 's lossy_transport_state) option" where
  "test_transports en seed1 seed2 = do {
     keypair1 \<leftarrow> unwrapped (SnowKeypair_new (snow_of en) seed1);
     keypair2 \<leftarrow> unwrapped (SnowKeypair_new (snow_of en) seed2);
     initiator \<leftarrow> unwrapped (SnowInitiator_new (snow_of en) keypair1 (keypair_public keypair2));
     responder \<leftarrow> unwrapped (SnowResponder_new (snow_of en) keypair2 (keypair_public keypair1));
     (transport2, response) \<leftarrow> unwrapped (responder_response (snow_of en) responder (initiation initiator));
     received \<leftarrow> unwrapped (receive_response (snow_of en) initiator response);
     transport1 \<leftarrow> unwrapped (receive_response_unwrap received :: (_, unit) res);
     Some (transport1, transport2)
   }"

text \<open>One \<open>write_message\<close> into a buffer, one \<open>read_message\<close> of what was written, and the assertion.\<close>

definition test_message ::
    "('b, 'h, 's) env \<Rightarrow> bytes \<Rightarrow> 's lossy_transport_state \<Rightarrow> 's lossy_transport_state \<Rightarrow>
       ('s lossy_transport_state \<times> 's lossy_transport_state \<times> bytes) option" where
  "test_message en data sender receiver = do {
     let (sender, written) = seal (overflow_checks en) (nonced_codec en) (snow_of en) sender data;
     encrypted \<leftarrow> unwrapped written;
     let (receiver, r) = unseal (nonced_codec en) (snow_of en) receiver encrypted;
     decrypted \<leftarrow> unwrapped r;
     assert_eq data decrypted;
     Some (sender, receiver, encrypted)
   }"

definition test_initiator_to_responder :: "('b, 'h, 's) env \<Rightarrow> bytes \<Rightarrow> bytes \<Rightarrow> unit option" where
  "test_initiator_to_responder en seed1 seed2 = do {
     (transport1, transport2) \<leftarrow> test_transports en seed1 seed2;
     (transport1, transport2, _) \<leftarrow> test_message en [1, 2, 3, 4] transport1 transport2;
     test_message en [5, 6, 7, 8] transport1 transport2;
     Some ()
   }"

definition test_responder_to_initiator :: "('b, 'h, 's) env \<Rightarrow> bytes \<Rightarrow> bytes \<Rightarrow> unit option" where
  "test_responder_to_initiator en seed1 seed2 = do {
     (transport1, transport2) \<leftarrow> test_transports en seed1 seed2;
     (transport2, transport1, _) \<leftarrow> test_message en [1, 2, 3, 4] transport2 transport1;
     test_message en [5, 6, 7, 8] transport2 transport1;
     Some ()
   }"

definition test_bidirectional :: "('b, 'h, 's) env \<Rightarrow> bytes \<Rightarrow> bytes \<Rightarrow> unit option" where
  "test_bidirectional en seed1 seed2 = do {
     (transport1, transport2) \<leftarrow> test_transports en seed1 seed2;
     (transport1, transport2, _) \<leftarrow> test_message en [1, 2, 3, 4] transport1 transport2;
     test_message en [5, 6, 7, 8] transport2 transport1;
     Some ()
   }"

text \<open>The last call of this test should panic: the value is \<open>Some\<close> of what that call gives.\<close>

definition test_nonce_rejects :: "('b, 'h, 's) env \<Rightarrow> bytes \<Rightarrow> bytes \<Rightarrow> bytes option option" where
  "test_nonce_rejects en seed1 seed2 = do {
     (transport1, transport2) \<leftarrow> test_transports en seed1 seed2;
     (_, transport2, encrypted) \<leftarrow> test_message en [1, 2, 3, 4] transport1 transport2;
     Some (unwrapped (snd (unseal (nonced_codec en) (snow_of en) transport2 encrypted)))
   }"

lemma test_transports_ready:
  assumes "kk_completes (snow_of en) hi hr"
    and "SnowKeypair_new (snow_of en) seed1 = Ok k1" and "SnowKeypair_new (snow_of en) seed2 = Ok k2"
    and "build_with (snow_of en) (build_initiator (snow_of en)) k1 (keypair_public k2) = Ok hi"
    and "build_with (snow_of en) (build_responder (snow_of en)) k2 (keypair_public k1) = Ok hr"
  obtains a b where "test_transports en seed1 seed2 = Some (from_stateless a, from_stateless b)"
    and "noise_pair (snow_of en) a b" and "noise_pair (snow_of en) b a"
proof -
  obtain ini rsp resp ti tr where "SnowInitiator_new (snow_of en) k1 (keypair_public k2) = Ok ini"
      "SnowResponder_new (snow_of en) k2 (keypair_public k1) = Ok rsp"
      "raw_size (HandshakeInitiation (initiation ini)) \<le> 66000" "raw_size (HandshakeResponse resp) \<le> 66000"
      "responder_response (snow_of en) rsp (initiation ini) = Ok (from_stateless tr, resp)"
      "receive_response (snow_of en) ini resp = Ok (ReceiveOk (from_stateless ti))"
      "noise_pair (snow_of en) ti tr" "noise_pair (snow_of en) tr ti"
    by (rule handshake_messages [OF assms(1,4,5)])
  then show ?thesis using assms(2,3) by (intro that [of ti tr]) (simp_all add: test_transports_def)
qed

lemma test_message_passes:
  assumes "nonced_wire (nonced_codec en)" and "noise_pair (snow_of en) (stateless x) b"
    and "next_nonce x \<noteq> u64_max" and "length data \<le> 65503" and "fresh_below b (next_nonce x) y"
  obtains y' encrypted where
    "test_message en data x y = Some (x\<lparr>next_nonce := next_nonce x + 1\<rparr>, y', encrypted)"
    and "fresh_below b (next_nonce x + 1) y'"
    and "unseal (nonced_codec en) (snow_of en) y' encrypted = (y', Err (FromSnow Decrypt))"
    and "next_nonce y' = next_nonce y"
proof -
  obtain e where e: "seal (overflow_checks en) (nonced_codec en) (snow_of en) x data
        = (x\<lparr>next_nonce := next_nonce x + 1\<rparr>, Ok e)" "carries (nonced_codec en) (snow_of en) b (next_nonce x) data e"
    by (rule seal_Ok [OF assms(1-4)])
  have short: "length data \<le> 65535" using assms(4) by simp
  obtain y' where y': "unseal (nonced_codec en) (snow_of en) y e = (y', Ok data)" "read_up_to b (next_nonce x + 1) y'"
    by (rule unseal_reads [OF assms(5,3) e(2) short])
  have "next_nonce x < next_nonce x + 1" using unat_plus_1 [OF assms(3)] by (simp add: word_less_nat_alt)
  from unseal_late [OF y'(2) this e(2)] unseal_outward [OF y'(1)] show ?thesis
    using e(1) y' by (intro that [of y' e]) (auto simp: test_message_def assert_eq_def)
qed

section \<open>ip\_discovery\<close>

definition test_ifs :: "'u udp \<Rightarrow> 'u answers \<Rightarrow> unit option" where
  "test_ifs os ans = do {
     udp_socket \<leftarrow> unwrapped (question id (udp_bind os (SocketAddrV4 0 0)));
     here \<leftarrow> unwrapped (question id (udp_local_addr os udp_socket));
     let port = addr_port here;
     ips \<leftarrow> unwrapped (question id (discover_ips os versioned_dual ans (SockV4 udp_socket)));
     assert_eq False (SocketAddrV4 0 port \<in> set ips);
     assert_eq True (SocketAddrV4 0x7F000001 port \<in> set ips)
   }"

section \<open>The keys of sockets\<close>

definition test_bind_with_key ::
    "('b, 'h, 's) snow \<Rightarrow> bytes \<Rightarrow> 'u udp \<Rightarrow> 'u answers \<Rightarrow> 'u answers \<Rightarrow> unit option" where
  "test_bind_with_key sn seed os ans1 ans2 = do {
     keypair \<leftarrow> unwrapped (SnowKeypair_new sn seed);
     (socket1, _) \<leftarrow> unwrapped (bind_with_keypair os ans1 ''0.0.0.0:0'' keypair
        :: (('h, 's) veq_socket \<times> ('u versioned_socket, 'h, 's) node, setup_error) res);
     (socket2, _) \<leftarrow> unwrapped (bind_with_keypair os ans2 ''0.0.0.0:0'' keypair
        :: (('h, 's) veq_socket \<times> ('u versioned_socket, 'h, 's) node, setup_error) res);
     assert_eq (public_key (VeqSocket_connection_info socket1)) (public_key (VeqSocket_connection_info socket2))
   }"

definition test_dualstack_with_key ::
    "('b, 'h, 's) snow \<Rightarrow> bytes \<Rightarrow> 'u udp \<Rightarrow> 'u answers \<Rightarrow> 'u answers \<Rightarrow> unit option" where
  "test_dualstack_with_key sn seed os ans1 ans2 = do {
     keypair \<leftarrow> unwrapped (SnowKeypair_new sn seed);
     (socket1, _) \<leftarrow> unwrapped (dualstack_with_keypair os ans1 (SocketAddrV4 0 0) (SocketAddrV6 0 0 0 0) keypair
        :: (('h, 's) veq_socket \<times> (('u versioned_socket, 'u versioned_socket) dual_socket, 'h, 's) node,
            setup_error) res);
     (socket2, _) \<leftarrow> unwrapped (dualstack_with_keypair os ans2 (SocketAddrV4 0 0) (SocketAddrV6 0 0 0 0) keypair
        :: (('h, 's) veq_socket \<times> (('u versioned_socket, 'u versioned_socket) dual_socket, 'h, 's) node,
            setup_error) res);
     assert_eq (public_key (VeqSocket_connection_info socket1)) (public_key (VeqSocket_connection_info socket2))
   }"

text \<open>The order in which a \<open>HashSet\<close> is iterated is not known: \<open>pick\<close> is the first element.\<close>

definition picks :: "('a list \<Rightarrow> 'a option) \<Rightarrow> bool" where
  "picks pick \<longleftrightarrow> (\<forall>xs. case pick xs of None \<Rightarrow> xs = [] | Some x \<Rightarrow> x \<in> set xs)"

definition test_bind_port ::
    "('b, 'h, 's) snow \<Rightarrow> bytes \<Rightarrow> 'u udp \<Rightarrow> 'u answers \<Rightarrow> (socket_addr list \<Rightarrow> socket_addr option) \<Rightarrow> unit option" where
  "test_bind_port sn seed os ans pick = do {
     let port = 54783;
     (socket, _) \<leftarrow> unwrapped (VeqSocket_bind sn seed os ans ''0.0.0.0:54783''
        :: (('h, 's) veq_socket \<times> ('u versioned_socket, 'h, 's) node, setup_error) res);
     let connection_info = VeqSocket_connection_info socket;
     addr \<leftarrow> pick (addresses connection_info);
     assert_eq port (addr_port addr)
   }"

lemma pick_all:
  "(\<forall>pick. picks pick \<longrightarrow> (\<exists>x. pick xs = Some x \<and> P x)) \<longleftrightarrow> xs \<noteq> [] \<and> (\<forall>x \<in> set xs. P x)"
proof
  let ?hd = "\<lambda>xs :: 'a list. if xs = [] then None else Some (hd xs)"
  assume all: "\<forall>pick. picks pick \<longrightarrow> (\<exists>x. pick xs = Some x \<and> P x)"
  have "picks ?hd" by (simp add: picks_def)
  with all have "xs \<noteq> []" by fastforce
  moreover have "P x" if "x \<in> set xs" for x
  proof -
    have "picks (\<lambda>ys. if x \<in> set ys then Some x else ?hd ys)" by (simp add: picks_def)
    with all that show ?thesis by fastforce
  qed
  ultimately show "xs \<noteq> [] \<and> (\<forall>x \<in> set xs. P x)" by blast
next
  assume "xs \<noteq> [] \<and> (\<forall>x \<in> set xs. P x)"
  then show "\<forall>pick. picks pick \<longrightarrow> (\<exists>x. pick xs = Some x \<and> P x)" by (fastforce simp: picks_def split: option.splits)
qed

lemma two_messages_pass:
  assumes "nonced_wire (nonced_codec en)" and pair: "noise_pair (snow_of en) u v"
  obtains x y e z where "test_message en [1, 2, 3, 4] (from_stateless u) (from_stateless v) = Some (x, y, e)"
    and "test_message en [5, 6, 7, 8] x y = Some z"
    and "unwrapped (snd (unseal (nonced_codec en) (snow_of en) y e)) = None"
    and "stateless y = v" and "next_nonce y = 0" and "fresh_below u 0 x"
proof -
  let ?u = "from_stateless u"
  have x: "noise_pair (snow_of en) (stateless ?u) v" "next_nonce ?u \<noteq> u64_max"
      "fresh_below v (next_nonce ?u) (from_stateless v)"
    using pair by (simp_all add: from_stateless_sel)
  obtain y e where y: "test_message en [1, 2, 3, 4] ?u (from_stateless v) =
        Some (?u\<lparr>next_nonce := next_nonce ?u + 1\<rparr>, y, e)"
      "fresh_below v (next_nonce ?u + 1) y"
      "unseal (nonced_codec en) (snow_of en) y e = (y, Err (FromSnow Decrypt))"
      "next_nonce y = next_nonce (from_stateless v)"
    by (rule test_message_passes [OF assms(1) x(1,2) _ x(3), of "[1, 2, 3, 4]"]) simp_all
  let ?x = "?u\<lparr>next_nonce := next_nonce ?u + 1\<rparr>"
  have x1: "noise_pair (snow_of en) (stateless ?x) v" "next_nonce ?x \<noteq> u64_max" "fresh_below v (next_nonce ?x) y"
    using pair y(2) by (simp_all add: from_stateless_sel)
  obtain y2 f where "test_message en [5, 6, 7, 8] ?x y = Some (?x\<lparr>next_nonce := next_nonce ?x + 1\<rparr>, y2, f)"
    by (rule test_message_passes [OF assms(1) x1(1,2) _ x1(3), of "[5, 6, 7, 8]"]) simp_all
  moreover have "stateless y = v" using y(2) by (simp add: fresh_below_def)
  moreover have "fresh_below u 0 ?x" using from_stateless_sel(3) [of u] by (simp add: fresh_below_def)
  ultimately show ?thesis using that [OF y(1)] y(3,4) by (simp add: from_stateless_sel)
qed

lemma bind_port_addresses:
  assumes bind: "VeqSocket_bind sn seed os ans ''0.0.0.0:54783'' = Ok (socket, nd)"
    and "parse_addr os ''0.0.0.0:54783'' = Some (SocketAddrV4 ip 54783)"
    and u: "udp_bind os (SocketAddrV4 ip 54783) = Inr u" "udp_local_addr os u = Inr here" "addr_port here = 54783"
  shows "(\<forall>a \<in> set (addresses (sock_info socket)). addr_port a = 54783) \<longleftrightarrow>
    (\<forall>a \<in> stun_answer ans is_ipv4 (resolved_v4 ans) u. is_unspecified (addr_ip a) \<or> addr_port a = 54783)"
proof -
  have "discover_ips os versioned_dual ans (SockV4 u) = Inr (addresses (sock_info socket))"
    using bind assms(2) u(1)
    by (auto simp: VeqSocket_bind_def VersionedSocket_bind_def VersionedSocket_v4_def from_socket_def question_def Let_def
        split: res.splits sum.splits)
  then have "set (addresses (sock_info socket)) = {a \<in> found_v4 os ans (Some u). \<not> is_unspecified (addr_ip a)}"
    using discover_ips_set by (fastforce simp: versioned_dual_def found_v6_def)
  moreover have "addr_port (interface_addr port a) = port" for port a by (cases a) simp_all
  ultimately show ?thesis using u(2,3) by (auto simp: found_v4_def interface_addrs_def split: sum.splits)
qed

section \<open>The in-memory queue\<close>

interpretation deque_in: chunker_inbound deque_recv "(=)" oc cdc for oc cdc
  by unfold_locales

lemma deque_chunker_sends:
  assumes "codec_ok chunk_fits cdc" and "chunk_size c \<noteq> 0" and "m \<noteq> []" and "in_memory m"
    and "unat (current_group c) + 1 < 2 ^ 64"
  obtains bs where "Chunker_send oc cdc deque_send c m =
      (c\<lparr>current_group := current_group c + 1, delegate := delegate c @ bs\<rparr>, Ok ())"
    and "map (deserialize cdc) bs = map Inr (make_chunks (current_group c) (slice_chunks (unat (chunk_size c)) m))"
proof -
  have out: "chunker_outbound deque_send (=) (\<lambda>_ _. True) cdc"
    using deque_chunker_over [OF assms(1)] by (simp add: chunker_over_def)
  have "sendable oc cdc (\<lambda>_ _. True) c [m]" using assms(3-5) by (simp add: sendable_def)
  from chunker_outbound.chunker_sends_chunks [OF out refl assms(2) this] show ?thesis using that by metis
qed

text \<open>Some of the chunks of a message are in the queue, in order.\<close>

lemma deque_rest_of_message:
  assumes "0 < n" and "m \<noteq> []" and "in_memory m" and "settled g c" and "g \<noteq> u64_max"
    and "map (deserialize cdc) bs = map Inr (nths (make_chunks g (slice_chunks n m)) I)" and "delegate c = bs @ rest"
  shows "\<exists>c'. delegate c' = rest \<and>
    (if \<forall>i < length (slice_chunks n m). i \<in> I then Chunker_recv oc cdc deque_recv c = Some (c', Ok m)
     else Chunker_recv oc cdc deque_recv c = Chunker_recv oc cdc deque_recv c' \<and> settled (g + 1) c')"
proof -
  let ?L = "make_chunks g (slice_chunks n m)"
  have "distinct ?L" using distinct_chunks_of [of n "\<lambda>_. m" g] assms(1,3) by (simp add: chunks_of_def)
  then have dist: "distinct ([] @ nths ?L I)" by (simp add: distinct_nthsI)
  have pos: "length [] < length (slice_chunks n m)" using assms(1,2) by simp
  have le: "length ([] @ nths ?L I) \<le> length (slice_chunks n m)"
    using length_nths [of ?L I] card_mono [of "{..< length ?L}" "{i. i < length ?L \<and> i \<in> I}"] by fastforce
  have whole: "length (nths ?L I) = length (slice_chunks n m) \<longleftrightarrow> (\<forall>i < length (slice_chunks n m). i \<in> I)"
    using length_nths_full [of ?L I] by simp
  from deque_in.recv_rest_of_message [OF assms(1,3) settled_midway [OF assms(4)] dist set_nths_subset pos le assms(6,7)]
  show ?thesis
    using midway_settled [OF _ assms(5)] unfolding append_Nil whole by (metis (full_types))
qed

section \<open>Properties\<close>

text \<open>The tests of \<open>transform.rs\<close> pass for every serialisation of chunks that reads
  back what it wrote: a message of eight bytes in chunks of three is received as it was sent, and
  a message is received although a chunk of the one before it was taken out of the queue.\<close>

theorem transform_tests_pass:
  assumes "codec_ok chunk_fits cdc"
  shows "test_send_recv oc cdc = Some () \<and> test_send_recv_lossy oc cdc = Some ()"
proof -
  let ?m1 = "[1, 2, 3, 4, 5, 6, 7, 8] :: bytes" and ?m2 = "[9, 10, 11, 12, 13, 14, 15, 16] :: bytes"
  let ?c = "Chunker_new [] 3 :: bytes list chunker"
  have three: "length (slice_chunks 3 ?m1) = 3" "length (slice_chunks 3 ?m2) = 3" by (simp_all add: slice_chunks_step)
  have c: "chunk_size ?c = 3" "delegate ?c = []" "current_group ?c = 0" by (simp_all add: Chunker_new_def)
  have mem: "in_memory ?m1" "in_memory ?m2" by (simp_all add: in_memory_def)
  obtain bs where bs: "Chunker_send oc cdc deque_send ?c ?m1 = (?c\<lparr>current_group := 1, delegate := bs\<rparr>, Ok ())"
      "map (deserialize cdc) bs = map Inr (make_chunks 0 (slice_chunks 3 ?m1))"
    by (rule deque_chunker_sends [OF assms, of ?c ?m1 oc]) (simp_all add: c mem)
  let ?c1 = "?c\<lparr>current_group := 1, delegate := bs\<rparr>"
  have settled: "settled 0 (?c\<lparr>current_group := h, delegate := x\<rparr>)" for h x
    using settled_new [of 0 "[]" 3] by (simp add: settled_def)
  have "\<exists>c'. Chunker_recv oc cdc deque_recv ?c1 = Some (c', Ok ?m1)"
    using deque_rest_of_message [of 3 ?m1 0 ?c1 cdc bs UNIV "[]" oc] settled mem(1) bs(2) by (auto simp: nths_all)
  then have "test_send_recv oc cdc = Some ()" using bs(1) by (auto simp: test_send_recv_def assert_eq_def)
  moreover obtain b bs' where steal: "bs = b # bs'" "map (deserialize cdc) bs' = map Inr (tl (make_chunks 0 (slice_chunks 3 ?m1)))"
    using bs(2) three(1) by (cases bs) (auto simp: slice_chunks_step make_chunks_def)
  let ?c2 = "?c\<lparr>current_group := 1, delegate := bs'\<rparr>"
  obtain cs where cs: "Chunker_send oc cdc deque_send ?c2 ?m2 = (?c\<lparr>current_group := 2, delegate := bs' @ cs\<rparr>, Ok ())"
      "map (deserialize cdc) cs = map Inr (make_chunks 1 (slice_chunks 3 ?m2))"
    by (rule deque_chunker_sends [OF assms, of ?c2 ?m2 oc]) (simp_all add: c mem)
  let ?c3 = "?c\<lparr>current_group := 2, delegate := bs' @ cs\<rparr>"
  have tl: "tl (make_chunks 0 (slice_chunks 3 ?m1)) = nths (make_chunks 0 (slice_chunks 3 ?m1)) {1, 2}"
    by (simp add: slice_chunks_step make_chunks_def nths_Cons numeral_2_eq_2)
  have lost: "\<not> (\<forall>i < length (slice_chunks 3 ?m1). i \<in> {1, 2})" using three(1) by (auto intro!: exI [of _ 0])
  obtain c4 where c4: "delegate c4 = cs" "Chunker_recv oc cdc deque_recv ?c3 = Chunker_recv oc cdc deque_recv c4" "settled 1 c4"
    using deque_rest_of_message [of 3 ?m1 0 ?c3 cdc bs' "{1, 2}" cs oc] settled [of "bs' @ cs" 2] mem(1) steal(2)
    unfolding tl if_not_P [OF lost] by auto
  have "\<exists>c'. Chunker_recv oc cdc deque_recv c4 = Some (c', Ok ?m2)"
    using deque_rest_of_message [of 3 ?m2 1 c4 cdc cs UNIV "[]" oc] c4 mem(2) cs(2) by (auto simp: nths_all)
  then have "test_send_recv_lossy oc cdc = Some ()"
    using bs(1) steal(1) cs(1) c4(2) by (auto simp: test_send_recv_lossy_def deque_recv_def assert_eq_def)
  ultimately show ?thesis by simp
qed

theorem transform_tests_pass_witness:
  "test_send_recv True chunk_layout = Some () \<and> test_send_recv_lossy True chunk_layout = Some ()"
  by (rule transform_tests_pass [OF chunk_layout_ok])

text \<open>The tests of \<open>snow_types.rs\<close> pass whenever the Noise package completes the handshake of
  the two key pairs: messages written by either side are read by the other, in both directions, and
  reading the same packet a second time is an error, on which the last test panics as it should.\<close>

theorem snow_tests_pass:
  assumes "nonced_wire (nonced_codec en)" and "kk_completes (snow_of en) hi hr"
    and "SnowKeypair_new (snow_of en) seed1 = Ok k1" and "SnowKeypair_new (snow_of en) seed2 = Ok k2"
    and "build_with (snow_of en) (build_initiator (snow_of en)) k1 (keypair_public k2) = Ok hi"
    and "build_with (snow_of en) (build_responder (snow_of en)) k2 (keypair_public k1) = Ok hr"
  shows "test_initiator_to_responder en seed1 seed2 = Some ()
    \<and> test_responder_to_initiator en seed1 seed2 = Some ()
    \<and> test_bidirectional en seed1 seed2 = Some ()
    \<and> test_nonce_rejects en seed1 seed2 = Some None"
proof -
  obtain a b where start: "test_transports en seed1 seed2 = Some (from_stateless a, from_stateless b)"
      "noise_pair (snow_of en) a b" "noise_pair (snow_of en) b a"
    by (rule test_transports_ready [OF assms(2-)])
  obtain x y e z where m: "test_message en [1, 2, 3, 4] (from_stateless a) (from_stateless b) = Some (x, y, e)"
      "test_message en [5, 6, 7, 8] x y = Some z"
      "unwrapped (snd (unseal (nonced_codec en) (snow_of en) y e)) = None"
      "stateless y = b" "next_nonce y = 0" "fresh_below a 0 x"
    by (rule two_messages_pass [OF assms(1) start(2)])
  obtain x' y' e' z' where m': "test_message en [1, 2, 3, 4] (from_stateless b) (from_stateless a) = Some (x', y', e')"
      "test_message en [5, 6, 7, 8] x' y' = Some z'"
    by (rule two_messages_pass [OF assms(1) start(3)])
  have answer: "noise_pair (snow_of en) (stateless y) a" "next_nonce y \<noteq> u64_max" "fresh_below a (next_nonce y) x"
    using start(3) m(4-6) by simp_all
  obtain w f where "test_message en [5, 6, 7, 8] y x = Some (y\<lparr>next_nonce := next_nonce y + 1\<rparr>, w, f)"
    by (rule test_message_passes [OF assms(1) answer(1,2) _ answer(3), of "[5, 6, 7, 8]"]) simp_all
  with start(1) m m' show ?thesis
    by (simp add: test_initiator_to_responder_def test_responder_to_initiator_def test_bidirectional_def
        test_nonce_rejects_def)
qed

theorem snow_tests_pass_witness:
  "test_bidirectional (layout_env tag_snow) [1] [9] = Some () \<and> test_nonce_rejects (layout_env tag_snow) [1] [9] = Some None"
proof -
  have en: "snow_of (layout_env tag_snow) = tag_snow" by (simp add: layout_env_def)
  have key: "SnowKeypair_new tag_snow seed = Ok (SnowKeypair (SnowPublicKey seed) (SnowPrivateKey seed))" for seed
    by (simp add: SnowKeypair_new_def snow_builder_def unwrap_result_def question_def tag_snow_def)
  have wire: "nonced_wire (nonced_codec (layout_env tag_snow))"
    using layout_env_handler_codecs [of tag_snow] by (simp add: handler_codecs_def session_codecs_def)
  show ?thesis
    using snow_tests_pass [OF wire, unfolded en, OF tag_snow_completes key key tag_built [unfolded en]] by simp
qed

text \<open>The test of \<open>ip_discovery\<close> passes on a machine that lists its loopback interface, when discovery
  succeeds.\<close>

lemma ifs_test_passes:
  assumes "udp_bind os (SocketAddrV4 0 0) = Inr u" and "udp_local_addr os u = Inr here"
    and "show_v4 ans = Inr ifs" and "lo \<in> set ifs" and "AddrV4 0x7F000001 \<in> set (if_addrs lo)"
    and "discover_ips os versioned_dual ans (SockV4 u) = Inr ips"
  shows "test_ifs os ans = Some ()"
proof -
  have ips: "set ips = {a \<in> found_v4 os ans (Some u) \<union> found_v6 os ans None. \<not> is_unspecified (addr_ip a)}"
    using discover_ips_set [OF assms(6)] by (simp add: versioned_dual_def)
  have "interface_addr (addr_port here) (AddrV4 0x7F000001) \<in> interface_addrs (show_v4 ans) (addr_port here)"
    unfolding interface_addrs_def assms(3)
    using assms(4,5) by (auto intro!: exI [of _ lo] exI [of _ "AddrV4 0x7F000001"])
  then have "SocketAddrV4 0x7F000001 (addr_port here) \<in> set ips" "SocketAddrV4 0 (addr_port here) \<notin> set ips"
    using assms(2) unfolding ips by (auto simp: found_v4_def)
  then show ?thesis using assms(1,2,6) by (simp add: test_ifs_def assert_eq_def question_def)
qed

text \<open>The two tests of \<open>lib.rs\<close> on keys: sockets that were bound with one key pair show one public key.\<close>

lemma from_socket_key:
  "from_socket os md ans k kp = Ok (s, nd) \<Longrightarrow> public_key (VeqSocket_connection_info s) = keypair_public kp"
  by (auto simp: from_socket_def VeqSocket_connection_info_def Let_def split: res.splits)

lemma key_tests_pass:
  assumes "SnowKeypair_new sn seed = Ok kp"
  shows "bind_with_keypair os ans1 ''0.0.0.0:0'' kp = Ok (s1 :: ('h, 's) veq_socket \<times> _) \<Longrightarrow>
      bind_with_keypair os ans2 ''0.0.0.0:0'' kp = Ok (s2 :: ('h, 's) veq_socket \<times> _) \<Longrightarrow>
      test_bind_with_key (sn :: ('b, 'h, 's) snow) seed os ans1 ans2 = Some ()"
    and "dualstack_with_keypair os ans1 (SocketAddrV4 0 0) (SocketAddrV6 0 0 0 0) kp = Ok (t1 :: ('h, 's) veq_socket \<times> _) \<Longrightarrow>
      dualstack_with_keypair os ans2 (SocketAddrV4 0 0) (SocketAddrV6 0 0 0 0) kp = Ok (t2 :: ('h, 's) veq_socket \<times> _) \<Longrightarrow>
      test_dualstack_with_key (sn :: ('b, 'h, 's) snow) seed os ans1 ans2 = Some ()"
  using assms
  by (cases s1; cases s2; cases t1; cases t2;
      auto simp: test_bind_with_key_def test_dualstack_with_key_def bind_with_keypair_def dualstack_with_keypair_def
        assert_eq_def dest!: from_socket_key split: res.splits)+

text \<open>\<open>test_bind_port\<close> looks at the first address of a \<open>HashSet\<close>. It passes in every order of iteration exactly when there
  is an address and the STUN server reports the port that the socket is bound to; behind an address translator that
  changes the port, the outcome is a matter of the order.\<close>

theorem bind_port_test:
  fixes sn :: "('b, 'h, 's) snow" and socket :: "('h, 's) veq_socket"
  assumes bind: "VeqSocket_bind sn seed os ans ''0.0.0.0:54783'' = Ok (socket, nd)"
    and "parse_addr os ''0.0.0.0:54783'' = Some (SocketAddrV4 ip 54783)"
    and "udp_bind os (SocketAddrV4 ip 54783) = Inr u" and "udp_local_addr os u = Inr here" and "addr_port here = 54783"
  shows "(\<forall>pick. picks pick \<longrightarrow> test_bind_port sn seed os ans pick = Some ()) \<longleftrightarrow>
    addresses (sock_info socket) \<noteq> []
    \<and> (\<forall>a \<in> stun_answer ans is_ipv4 (resolved_v4 ans) u. is_unspecified (addr_ip a) \<or> addr_port a = 54783)"
proof -
  have "test_bind_port sn seed os ans pick = Some () \<longleftrightarrow> (\<exists>x. pick (addresses (sock_info socket)) = Some x \<and> addr_port x = 54783)"
    for pick
    using bind by (auto simp: test_bind_port_def VeqSocket_connection_info_def assert_eq_def split: bind_splits if_splits)
  then show ?thesis using bind_port_addresses [OF assms] pick_all [of "addresses (sock_info socket)" "\<lambda>x. addr_port x = 54783"] by simp
qed

end
