(* ===== verification/Awaiting.thy ===== *)
theory Awaiting
  imports Stack Wakeups "HOL-Library.Monad_Syntax"
begin

text \<open>
  A call of \<open>recv\<close> that waits (\<open>Chunker::recv\<close> of \<open>src/src/transform.rs\<close> over \<open>BidirectionalSession::recv\<close> of
  \<open>src/src/veq.rs\<close>): its task is polled, the call goes on until the \<open>Receiving\<close> future of its session is pending, and
  leaves the waker of the task there. The task is polled again only when that waker was called, and the call goes on
  from where it was.
\<close>

section \<open>The two parts of a call\<close>

text \<open>The delegate's \<open>recv\<close> is pending: what its poll leaves behind, the number of the session and the future.\<close>

definition waits_at ::
    "uuid \<Rightarrow> waker \<Rightarrow> ('h, 's) bidirectional_session chunker \<Rightarrow>
       (('h, 's) bidirectional_session chunker \<times> nat \<times> receiving) option" where
  "waits_at fresh w c =
     (case Handler_recv_from (bd_id (delegate c)) fresh (bd_handler (delegate c)) of
        (st, None) \<Rightarrow> None
      | (st, Some (r, f)) \<Rightarrow>
          (case session_poll r f w st of
             (st1, Pending) \<Rightarrow> Some (c\<lparr>delegate := (delegate c)\<lparr>bd_handler := st1\<rparr>\<rparr>, r, f)
           | (st1, Ready x) \<Rightarrow> None))"

text \<open>The call up to its first wait; \<open>None\<close> when it returns before.\<close>

partial_function (option) recv_suspends ::
    "bool \<Rightarrow> chunked_data codec \<Rightarrow> uuid \<Rightarrow> waker \<Rightarrow> ('h, 's) bidirectional_session chunker \<Rightarrow>
       (('h, 's) bidirectional_session chunker \<times> nat \<times> receiving) option" where
  "recv_suspends oc cdc fresh w c =
     (case recv_step oc cdc (BidirectionalSession_recv fresh w) c of
        None \<Rightarrow> waits_at fresh w c
      | Some (c', r) \<Rightarrow> (case r of Some x \<Rightarrow> None | None \<Rightarrow> recv_suspends oc cdc fresh w c'))"

text \<open>The rest of the call: the future is polled again, and then the loop goes on.\<close>

definition resumed_recv :: "nat \<Rightarrow> receiving \<Rightarrow> waker \<Rightarrow> ('h, 's) bidirectional_session bidir_recv" where
  "resumed_recv r f w d =
     (case session_poll r f w (bd_handler d) of
        (st, Ready x) \<Rightarrow> Some (d\<lparr>bd_handler := st\<rparr>, x)
      | (st, Pending) \<Rightarrow> None)"

definition recv_resumes ::
    "bool \<Rightarrow> chunked_data codec \<Rightarrow> nat \<Rightarrow> receiving \<Rightarrow> uuid \<Rightarrow> waker \<Rightarrow> ('h, 's) bidirectional_session chunker \<Rightarrow>
       (('h, 's) bidirectional_session chunker \<times> (bytes, veq_error) res) option" where
  "recv_resumes oc cdc r f fresh w c =
     (case recv_step oc cdc (resumed_recv r f w) c of
        None \<Rightarrow> None
      | Some (c', Some x) \<Rightarrow> Some (c', x)
      | Some (c', None) \<Rightarrow> Chunker_recv oc cdc (BidirectionalSession_recv fresh w) c')"

section \<open>The calls of a peer\<close>

text \<open>Where the call of a peer waits: the number of the session, the future, and how many wakers had been called by then.\<close>

type_synonym wait = "nat \<times> receiving \<times> nat"

definition peer_awaits ::
    "bool \<Rightarrow> chunked_data codec \<Rightarrow> uuid \<Rightarrow> waker \<Rightarrow> ('k, 'h, 's) peer \<Rightarrow> (('k, 'h, 's) peer \<times> wait) option" where
  "peer_awaits oc cdc fresh w p =
     (case recv_suspends oc cdc fresh w (vs_delegate (conn p)) of
        None \<Rightarrow> None
      | Some (c, r, f) \<Rightarrow>
          (let v = (conn p)\<lparr>vs_delegate := c\<rparr>
           in Some (p\<lparr>conn := v, node := (node p)\<lparr>node_handler := veq_handler v\<rparr>\<rparr>, r, f, length (woken (rt (veq_handler v))))))"

text \<open>The handler is as the tasks left it. When the waker has not been called since, nothing happens.\<close>

definition peer_resumes ::
    "bool \<Rightarrow> chunked_data codec \<Rightarrow> uuid \<Rightarrow> waker \<Rightarrow> wait \<Rightarrow> ('k, 'h, 's) peer \<Rightarrow>
       (('k, 'h, 's) peer \<times> (bytes, veq_error) res) option" where
  "peer_resumes oc cdc fresh w at p = (case at of (r, f, since) \<Rightarrow>
     (if w \<in> set (drop since (woken (rt (node_handler (node p)))))
      then map_option (\<lambda>(c, x). let v = (conn p)\<lparr>vs_delegate := c\<rparr>
             in (p\<lparr>conn := v, node := (node p)\<lparr>node_handler := veq_handler v\<rparr>\<rparr>, x))
           (recv_resumes oc cdc r f fresh w (vs_delegate (with_handler (node_handler (node p)) (conn p))))
      else None))"

text \<open>The receiving task takes turns, and the peer gets \<open>n\<close> messages, one after the other; \<open>at\<close> is where the
  first of these calls waits, if it was made before.\<close>

definition peer_hears ::
    "('b, 'h, 's) env \<Rightarrow> bool \<Rightarrow> chunked_data codec \<Rightarrow> 'k bidir_socket \<Rightarrow> uuid \<Rightarrow> waker \<Rightarrow> nat \<Rightarrow> wait option \<Rightarrow> nat \<Rightarrow>
       ('k, 'h, 's) peer \<Rightarrow> (('k, 'h, 's) peer \<times> bytes list) option" where
  "peer_hears en oc cdc ops fresh w fuel at n p =
     (case at of
        None \<Rightarrow> peer_receives en oc cdc ops fresh w fuel n p
      | Some a \<Rightarrow> do {
          nd \<leftarrow> receive_turns en ops fuel (node p);
          (p, x) \<leftarrow> peer_resumes oc cdc fresh w a (p\<lparr>node := nd\<rparr>);
          b \<leftarrow> (case x of Ok b \<Rightarrow> Some b | _ \<Rightarrow> None);
          (v, bs) \<leftarrow> recv_many (VeqSession_recv (Chunker_recv oc cdc (BidirectionalSession_recv fresh w))) (n - 1) (conn p);
          Some (p\<lparr>conn := v, node := (node p)\<lparr>node_handler := veq_handler v\<rparr>\<rparr>, b # bs)
        })"

section \<open>Lemmas\<close>

lemma Chunker_recv_step:
  "Chunker_recv oc cdc drecv c =
     (case recv_step oc cdc drecv c of None \<Rightarrow> None | Some (c', Some x) \<Rightarrow> Some (c', x)
      | Some (c', None) \<Rightarrow> Chunker_recv oc cdc drecv c')"
  by (subst Chunker_recv.simps) (simp split: option.split)

lemma recv_step_cong:
  assumes "drecv (delegate c) = drecv' (delegate c)"
  shows "recv_step oc cdc drecv c = recv_step oc cdc drecv' c"
  using assms by (auto simp: recv_step_def next_ready_chunk_def split: list.split)

text \<open>On a session that is alive the second poll is like that of a new call.\<close>

lemma recv_resumes_alive:
  assumes "established_at i t n r (bd_handler (delegate c))" and "bd_id (delegate c) = i" and "\<not> dead t"
  shows "recv_resumes oc cdc r (Receiving fresh) fresh w c = Chunker_recv oc cdc (BidirectionalSession_recv fresh w) c"
proof -
  have "resumed_recv r (Receiving fresh) w (delegate c) = BidirectionalSession_recv fresh w (delegate c)"
    using assms by (simp add: resumed_recv_def BidirectionalSession_recv_def Handler_recv_from_def established_at_def
        Session_is_dead_def Session_recv_def)
  then have "recv_step oc cdc (resumed_recv r (Receiving fresh) w) c = recv_step oc cdc (BidirectionalSession_recv fresh w) c"
    by (rule recv_step_cong)
  then show ?thesis
    unfolding recv_resumes_def by (subst (2) Chunker_recv_step) (simp split: option.split)
qed

lemma recv_resumes_dead:
  assumes "sessions (bd_handler (delegate c)) r = Some t" and "dead t" and "completed_chunks c = []"
  shows "\<exists>c'. recv_resumes oc cdc r (Receiving fresh) fresh w c = Some (c', Err Disconnected)"
  using assms by (auto simp: recv_resumes_def recv_step_def next_ready_chunk_def resumed_recv_def session_poll_def)

text \<open>A receiver at the head of the queue gets a byte string; if there is none the call waits.\<close>

lemma recv_alive:
  assumes "established_at i t n r (bd_handler d)" and "bd_id d = i" and "\<not> dead t"
  shows "messages t = [] \<Longrightarrow> BidirectionalSession_recv fresh w d = None"
    and "messages t = b # bs \<Longrightarrow> BidirectionalSession_recv fresh w d = Some (d\<lparr>bd_handler := (bd_handler d)\<lparr>sessions :=
      (sessions (bd_handler d))(r \<mapsto> t\<lparr>messages := bs, wakers := btm_remove fresh (wakers t)\<rparr>)\<rparr>\<rparr>, Ok b)"
  using assms
  by (simp_all add: BidirectionalSession_recv_def Handler_recv_from_def established_at_def Session_is_dead_def
      Session_recv_def session_poll_def)

lemma waits_at_alive:
  assumes "established_at i t n r (bd_handler (delegate c))" and "bd_id (delegate c) = i" and "\<not> dead t" and "messages t = []"
  shows "waits_at fresh w c = Some (c\<lparr>delegate := (delegate c)\<lparr>bd_handler := (bd_handler (delegate c))\<lparr>sessions :=
      (sessions (bd_handler (delegate c)))(r \<mapsto> t\<lparr>wakers := btm_insert fresh w (wakers t)\<rparr>)\<rparr>\<rparr>\<rparr>, r, Receiving fresh)"
  using assms by (simp add: waits_at_def Handler_recv_from_def established_at_def Session_is_dead_def Session_recv_def session_poll_def)

lemma btm_insert_mem: "(k, v) \<in> set (btm_insert k v m)"
  by (induction k v m rule: btm_insert.induct) auto

text \<open>A call that would not return waits, with its waker in the map and nothing in the queue.\<close>

lemma suspends:
  assumes "established_at i t n r (bd_handler (delegate c))" and "bd_id (delegate c) = i" and "\<not> dead t"
    and "Chunker_recv oc cdc (BidirectionalSession_recv fresh w) c = None"
  shows "\<exists>c' t'. recv_suspends oc cdc fresh w c = Some (c', r, Receiving fresh) \<and> bd_id (delegate c') = i
    \<and> established_at i t' n r (bd_handler (delegate c')) \<and> (fresh, w) \<in> set (wakers t') \<and> completed_chunks c' = []
    \<and> transport t' = transport t \<and> outward t' = outward t \<and> rt (bd_handler (delegate c')) = rt (bd_handler (delegate c))"
  using assms
proof (induction "length (messages t)" arbitrary: c t)
  case 0
  have none: "completed_chunks c = []"
    using 0 by (cases "completed_chunks c") (simp_all add: Chunker_recv_step [of _ _ _ c] recv_step_def next_ready_chunk_def)
  then have "recv_step oc cdc (BidirectionalSession_recv fresh w) c = None"
    using recv_alive(1) [OF 0(2-4)] 0(1) by (simp add: recv_step_def next_ready_chunk_def)
  moreover have "messages t = []" using 0 by simp
  ultimately show ?case
    using 0(2,3) none btm_insert_mem [of fresh w "wakers t"]
    by (subst recv_suspends.simps) (simp add: waits_at_alive [OF 0(2-4)] established_at_def outward_def)
next
  case (Suc m)
  obtain b bs where bs: "messages t = b # bs" using Suc(2) by (cases "messages t") simp_all
  have none: "completed_chunks c = []"
    using Suc(6) by (cases "completed_chunks c") (simp_all add: Chunker_recv_step [of _ _ _ c] recv_step_def next_ready_chunk_def)
  let ?t = "t\<lparr>messages := bs, wakers := btm_remove fresh (wakers t)\<rparr>"
  let ?d = "(delegate c)\<lparr>bd_handler := (bd_handler (delegate c))\<lparr>sessions := (sessions (bd_handler (delegate c)))(r \<mapsto> ?t)\<rparr>\<rparr>"
  obtain x c1 where x: "deserialize cdc b = Inr x" "Chunker_add_chunk oc (c\<lparr>delegate := ?d\<rparr>) x = (c1, Ok ())"
      "Chunker_recv oc cdc (BidirectionalSession_recv fresh w) c1 = None"
  proof -
    obtain c1 y where y: "\<And>x. deserialize cdc b = Inr x \<Longrightarrow> Chunker_add_chunk oc (c\<lparr>delegate := ?d\<rparr>) x = (c1, y)"
      by (cases "deserialize cdc b"; cases "Chunker_add_chunk oc (c\<lparr>delegate := ?d\<rparr>) (projr (deserialize cdc b))") auto
    show ?thesis
      using Suc(6) none recv_alive(2) [OF Suc(3-5) bs, of fresh w] y that
      by (cases "deserialize cdc b"; cases y)
        (auto simp: Chunker_recv_step [of _ _ _ c] recv_step_def next_ready_chunk_def unwrap_result_def)
  qed
  then have step: "recv_step oc cdc (BidirectionalSession_recv fresh w) c = Some (c1, None)"
    using none recv_alive(2) [OF Suc(3-5) bs, of fresh w] by (simp add: recv_step_def next_ready_chunk_def unwrap_result_def)
  have d: "delegate c1 = ?d" using add_chunk_delegate [of oc "c\<lparr>delegate := ?d\<rparr>" x] x(2) by simp
  have "established_at i ?t n r (bd_handler (delegate c1))" "bd_id (delegate c1) = i" "m = length (messages ?t)" "\<not> dead ?t"
    using Suc(2-5) bs by (simp_all add: d established_at_def)
  from Suc(1) [OF this(3,1,2,4) x(3)] show ?case
    by (subst recv_suspends.simps) (simp add: step d outward_def)
qed

section \<open>A call that waits for a message\<close>

text \<open>The session is alive, nothing is in its queue and nobody waits.\<close>

definition resting :: "session_id \<Rightarrow> ('h, 's) bidirectional_session \<Rightarrow> bool" where
  "resting i d \<longleftrightarrow>
     bd_id d = i
     \<and> (\<exists>s n r. established_at i s n r (bd_handler d) \<and> \<not> dead s \<and> messages s = [] \<and> wakers s = [])"

abbreviation at_rest :: "session_id \<Rightarrow> ('h, 's) veq_session_alias \<Rightarrow> bool" where
  "at_rest i v \<equiv> resting i (delegate (vs_delegate v))"

text \<open>Wakers play no part in sending and receiving.\<close>

definition attended :: "nat \<Rightarrow> 's session \<Rightarrow> ('h, 's) veq_session_alias \<Rightarrow> ('h, 's) veq_session_alias" where
  "attended r t v = with_handler ((veq_handler v)\<lparr>sessions := (sessions (veq_handler v))(r \<mapsto> t)\<rparr>) v"

lemma attended_keeps:
  assumes est: "established_at i t n r (veq_handler v)"
  shows "can_send en b i k (attended r (t\<lparr>wakers := ws\<rparr>) v) = can_send en b i k v"
    and "can_receive cdc b i k g (attended r (t\<lparr>wakers := ws\<rparr>) v) = can_receive cdc b i k g v"
proof -
  have unique: "established_at i s m q (veq_handler v) \<longleftrightarrow> s = t \<and> m = n \<and> q = r"
      "established_at i s m q (veq_handler (attended r (t\<lparr>wakers := ws\<rparr>) v)) \<longleftrightarrow> s = t\<lparr>wakers := ws\<rparr> \<and> m = n \<and> q = r" for s m q
    using est by (auto simp: established_at_def attended_def)
  have left: "leftover cdc 4096 g bs (vs_delegate (attended r (t\<lparr>wakers := ws\<rparr>) v)) = leftover cdc 4096 g bs (vs_delegate v)" for g bs
    by (simp add: leftover_def settled_def attended_def)
  show "can_send en b i k (attended r (t\<lparr>wakers := ws\<rparr>) v) = can_send en b i k v"
    unfolding can_send_def unique by (simp add: attended_def can_transmit_def)
  show "can_receive cdc b i k g (attended r (t\<lparr>wakers := ws\<rparr>) v) = can_receive cdc b i k g v"
    unfolding can_receive_def unique left by (simp add: attended_def)
qed

lemma peer_awaits_at_rest:
  assumes q: "can_receive cdc b i k g (conn q)" and "at_rest i (conn q)"
  obtains t n r where "established_at i t n r (veq_handler (conn q))" and "\<not> dead t" and "fresh_below b k (transport t)"
    and "peer_awaits oc cdc fresh w q = Some (q\<lparr>conn := attended r (t\<lparr>wakers := [(fresh, w)]\<rparr>) (conn q),
      node := (node q)\<lparr>node_handler := veq_handler (attended r (t\<lparr>wakers := [(fresh, w)]\<rparr>) (conn q))\<rparr>\<rparr>,
      r, Receiving fresh, length (woken (rt (veq_handler (conn q)))))"
proof -
  obtain t n r where t: "established_at i t n r (veq_handler (conn q))" "\<not> dead t" "fresh_below b k (transport t)"
      "bd_id (delegate (vs_delegate (conn q))) = i" "completed_chunks (vs_delegate (conn q)) = []"
    using q unfolding can_receive_def leftover_def settled_def by blast
  have rest: "messages t = []" "wakers t = []"
    using assms(2) established_at_unique [OF t(1) [unfolded veq_handler_def]] unfolding resting_def by blast+
  have "recv_step oc cdc (BidirectionalSession_recv fresh w) (vs_delegate (conn q)) = None"
    using recv_alive(1) [OF t(1) [unfolded veq_handler_def] t(4,2) rest(1)] t(5) by (simp add: recv_step_def next_ready_chunk_def)
  then have "recv_suspends oc cdc fresh w (vs_delegate (conn q)) =
      Some (vs_delegate (attended r (t\<lparr>wakers := [(fresh, w)]\<rparr>) (conn q)), r, Receiving fresh)"
    using waits_at_alive [OF t(1) [unfolded veq_handler_def] t(4,2) rest(1), of fresh w] rest(2)
    by (subst recv_suspends.simps) (simp add: attended_def with_handler_def veq_handler_def)
  moreover have "(conn q)\<lparr>vs_delegate := vs_delegate (attended r (t\<lparr>wakers := [(fresh, w)]\<rparr>) (conn q))\<rparr>
      = attended r (t\<lparr>wakers := [(fresh, w)]\<rparr>) (conn q)"
    by (simp add: attended_def with_handler_def)
  ultimately show ?thesis
    using t(1-3) by (intro that [of t n r]) (simp_all add: peer_awaits_def Let_def, simp add: attended_def)
qed

lemma take_in_wakes:
  assumes "wire_message en b i k m d" and "established_at i t n r st"
  shows "\<exists>ws. woken (rt (take_in en src d st)) = woken (rt st) @ ws"
proof -
  obtain p where p: "deserialize (packet_codec en) d = Inr p" "packet_id p = i"
    using assms(1) by (rule wire_messageE)
  obtain t1 ws x where "Session_handle_incoming en p t = (t1, ws, x)" by (cases "Session_handle_incoming en p t")
  then show ?thesis
    using assms(2) p by (simp add: take_in_def Handler_handle_incoming_def established_at_def incoming_established_def wake_def)
qed

lemma fold_take_in_wakes:
  assumes "\<forall>d \<in> set ds. \<exists>k m. wire_message en b i k m d" and "established_at i t n r st"
  shows "(\<exists>ws. woken (rt (fold (take_in en src) ds st)) = woken (rt st) @ ws)
    \<and> (\<exists>t1. established_at i t1 n r (fold (take_in en src) ds st) \<and> outward t1 = outward t)"
  using assms
proof (induction ds arbitrary: t st)
  case (Cons d ds)
  obtain k m where d: "wire_message en b i k m d" using Cons.prems(1) by auto
  obtain t1 where t1: "established_at i t1 n r (take_in en src d st)" "outward t1 = outward t"
    using take_in_established(2) [OF d Cons.prems(2)] by blast
  have "\<forall>d \<in> set ds. \<exists>k m. wire_message en b i k m d" using Cons.prems(1) by simp
  from Cons.IH [OF this t1(1)] show ?case using take_in_wakes [OF d Cons.prems(2), of src] t1(2) by auto
qed auto

lemma carried_wire: "carry_messages en cdc b i k g ms ds \<Longrightarrow> \<forall>d \<in> set ds. \<exists>k m. wire_message en b i k m d"
proof
  fix e
  assume "carry_messages en cdc b i k g ms ds" "e \<in> set ds"
  then obtain bs j where bs: "length ds = length bs" "borne_from (\<lambda>k x d. wire_message en b i k (Payload x) d) k (zip bs ds)"
      "j < length (zip bs ds)" "e = ds ! j"
    unfolding carry_messages_def by (auto simp: in_set_conv_nth)
  then show "\<exists>k m. wire_message en b i k m e" using borne_from_nth [OF bs(2)] by fastforce
qed

text \<open>The first datagram of a message wakes the one who waits.\<close>

lemma arrival_wakes:
  assumes est: "established_at i t n r st" and "wakers t = [(fresh, w)]" and "fresh_below b k (transport t)"
    and carry: "carry_messages en cdc b i k g ms ds" and "ds \<noteq> []"
  shows "w \<in> set (drop (length (woken (rt st))) (woken (rt (fold (take_in en src) ds st))))"
proof -
  obtain bs where bs: "length ds = length bs" "borne_from (\<lambda>k x d. wire_message en b i k (Payload x) d) k (zip bs ds)"
    using carry unfolding carry_messages_def by blast
  obtain d ds' x bs' where ds: "ds = d # ds'" "bs = x # bs'" using assms(5) bs(1) by (cases ds; cases bs) simp_all
  then have d: "wire_message en b i k (Payload x) d" "k \<noteq> u64_max" using bs(2) by simp_all
  have all: "\<forall>d \<in> set ds'. \<exists>k m. wire_message en b i k m d" using carried_wire [OF carry] ds(1) by simp
  obtain p where p: "deserialize (packet_codec en) d = Inr p" "packet_id p = i" "bears en b k (Payload x) p"
    using d(1) by (rule wire_messageE)
  obtain lt where "Session_handle_incoming en p t = (fst (taken_in (Payload x) lt t), snd (taken_in (Payload x) lt t), Ok ())"
    using handle_incoming_bears [OF assms(3) d(2) p(3)] by blast
  then have "woken (rt (take_in en src d st)) = woken (rt st) @ [w]"
    using est p(1,2) assms(2)
    by (simp add: take_in_def Handler_handle_incoming_def established_at_def incoming_established_def wake_def taken_in_def)
  moreover obtain t1 where "established_at i t1 n r (take_in en src d st)" using take_in_established(2) [OF d(1) est] by blast
  then obtain ws where "woken (rt (fold (take_in en src) ds' (take_in en src d st))) = woken (rt (take_in en src d st)) @ ws"
    using fold_take_in_wakes [OF all] by blast
  ultimately show ?thesis by (simp add: ds(1))
qed

text \<open>A call that was woken on a session that is alive returns what a new call would return.\<close>

lemma peer_hears_woken:
  assumes turns: "receive_turns en ops fuel (node q) = Some nd" and est: "established_at i t n r (node_handler nd)" and "\<not> dead t"
    and "bd_id (delegate (vs_delegate (conn q))) = i" and "w \<in> set (drop since (woken (rt (node_handler nd))))" and "0 < m"
  shows "peer_hears en oc cdc ops fresh w fuel (Some (r, Receiving fresh, since)) m q = peer_receives en oc cdc ops fresh w fuel m q"
proof -
  let ?v = "with_handler (node_handler nd) (conn q)" and ?recv = "Chunker_recv oc cdc (BidirectionalSession_recv fresh w)"
  have "recv_resumes oc cdc r (Receiving fresh) fresh w (vs_delegate ?v) = ?recv (vs_delegate ?v)"
    using assms(2-4) by (intro recv_resumes_alive [of i t n]) (simp_all add: with_handler_def)
  then have "peer_resumes oc cdc fresh w (r, Receiving fresh, since) (q\<lparr>node := nd\<rparr>) =
      map_option (\<lambda>(c, x). let v = (conn q)\<lparr>vs_delegate := c\<rparr> in (q\<lparr>conn := v, node := nd\<lparr>node_handler := veq_handler v\<rparr>\<rparr>, x))
        (?recv (vs_delegate ?v))"
    using assms(5) by (simp add: peer_resumes_def)
  moreover have "(conn q)\<lparr>vs_delegate := c\<rparr> = ?v\<lparr>vs_delegate := c\<rparr>" for c
    by (simp add: with_handler_def)
  moreover obtain m' where "m = Suc m'" using assms(6) by (cases m) simp_all
  ultimately show ?thesis
    using turns
    by (cases "?recv (vs_delegate ?v)")
      (simp_all add: peer_hears_def peer_receives_def VeqSession_recv_def Let_def split: prod.split res.split option.split)
qed

text \<open>A peer that begins to wait receives as before, and its call returns when the datagrams of the messages came.\<close>

lemma peer_waits_for:
  fixes q :: "('k, 'h, 's) peer"
  assumes q: "can_receive cdc b i k g (conn q)" "at_rest i (conn q)" "node_handler (node q) = veq_handler (conn q)"
  obtains q' at where "peer_awaits oc cdc fresh w q = Some (q', at)" and "can_receive cdc b i k g (conn q')"
    and "\<forall>a l. can_send en a i l (conn q) \<longrightarrow> can_send en a i l (conn q')"
    and "current_group (vs_delegate (conn q')) = current_group (vs_delegate (conn q))"
    and "node_handler (node q') = veq_handler (conn q')" and "node_socket (node q') = node_socket (node q)"
    and "receiving_runs (node q') = receiving_runs (node q)" and "node_queue (node q') = node_queue (node q)"
    and "\<forall>(x :: ('k, 'h, 's) peer) ms ds src ops fuel m nd. conn x = conn q' \<longrightarrow> carry_messages en cdc b i k g ms ds \<longrightarrow> ds \<noteq> [] \<longrightarrow> 0 < m \<longrightarrow>
      receive_turns en ops fuel (node x) = Some nd \<longrightarrow> node_handler nd = fold (take_in en src) ds (node_handler (node q')) \<longrightarrow>
      peer_hears en oc cdc ops fresh w fuel (Some at) m x = peer_receives en oc cdc ops fresh w fuel m x"
proof -
  obtain t n r where t: "established_at i t n r (veq_handler (conn q))" "\<not> dead t" "fresh_below b k (transport t)"
    and at: "peer_awaits oc cdc fresh w q = Some (q\<lparr>conn := attended r (t\<lparr>wakers := [(fresh, w)]\<rparr>) (conn q),
      node := (node q)\<lparr>node_handler := veq_handler (attended r (t\<lparr>wakers := [(fresh, w)]\<rparr>) (conn q))\<rparr>\<rparr>,
      r, Receiving fresh, length (woken (rt (veq_handler (conn q)))))"
    by (rule peer_awaits_at_rest [OF q(1,2)])
  let ?t = "t\<lparr>wakers := [(fresh, w)]\<rparr>"
  let ?v = "attended r ?t (conn q)"
  have est: "established_at i ?t n r (veq_handler ?v)" and rt: "rt (veq_handler ?v) = rt (veq_handler (conn q))"
    using t(1) by (simp_all add: attended_def established_at_def)
  have id: "bd_id (delegate (vs_delegate ?v)) = i" using q(2) by (simp add: attended_def resting_def)
  have hears: "peer_hears en oc cdc ops fresh w fuel (Some (r, Receiving fresh, length (woken (rt (veq_handler (conn q)))))) m x
      = peer_receives en oc cdc ops fresh w fuel m x"
    if x: "conn x = ?v" and carry: "carry_messages en cdc b i k g ms ds" and "ds \<noteq> []" "0 < m"
      and turns: "receive_turns en ops fuel (node x) = Some nd" "node_handler nd = fold (take_in en src) ds (veq_handler ?v)"
    for x :: "('k, 'h, 's) peer" and ms ds src ops fuel m nd
  proof -
    obtain t1 where t1: "established_at i t1 n r (fold (take_in en src) ds (veq_handler ?v))" "outward t1 = outward ?t"
      using fold_take_in_wakes [OF carried_wire [OF carry] est] by blast
    have "w \<in> set (drop (length (woken (rt (veq_handler ?v)))) (woken (rt (fold (take_in en src) ds (veq_handler ?v)))))"
      by (rule arrival_wakes [OF est _ _ carry that(3)]) (simp_all add: t(3))
    then have "w \<in> set (drop (length (woken (rt (veq_handler (conn q))))) (woken (rt (node_handler nd))))"
      unfolding rt turns(2) .
    then show ?thesis
      using t1 t(2) id x that(4) by (intro peer_hears_woken [OF turns(1), of i t1 n r]) (simp_all add: turns(2) outward_def)
  qed
  have "current_group (vs_delegate ?v) = current_group (vs_delegate (conn q))" "outgoing (rt (veq_handler ?v)) = outgoing (rt (veq_handler (conn q)))"
    by (simp_all add: attended_def)
  moreover have "\<forall>(x :: ('k, 'h, 's) peer) ms ds src ops fuel m nd. conn x = ?v \<longrightarrow> carry_messages en cdc b i k g ms ds \<longrightarrow> ds \<noteq> [] \<longrightarrow> 0 < m \<longrightarrow>
      receive_turns en ops fuel (node x) = Some nd \<longrightarrow> node_handler nd = fold (take_in en src) ds (veq_handler ?v) \<longrightarrow>
      peer_hears en oc cdc ops fresh w fuel (Some (r, Receiving fresh, length (woken (rt (veq_handler (conn q)))))) m x
        = peer_receives en oc cdc ops fresh w fuel m x"
    using hears by blast
  ultimately show ?thesis
    using q
    by (intro that [OF at]) (simp_all add: attended_keeps(1) [OF t(1), of en] attended_keeps(2) [OF t(1)] node_queue_def)
qed

section \<open>A call that waits for the end\<close>

lemma no_message_waits:
  fixes en :: "('b, 'h, 's) env" and v :: "('h, 's) veq_session_alias"
  assumes "can_receive cdc b i k g v"
  shows "Chunker_recv oc cdc (BidirectionalSession_recv fresh w) (vs_delegate v) = None"
proof -
  have "unat g < 2 ^ LENGTH(64)" by (rule unsigned_less)
  then have room: "unat g < 2 ^ 64" by simp
  have carry: "carry_messages en cdc b i k g [] []" by (simp add: carry_messages_def)
  obtain v' where "recv_many (VeqSession_recv (Chunker_recv oc cdc (BidirectionalSession_recv fresh w))) 0
      (with_handler (arrive en [] [] (veq_handler v)) v) = Some (v', [])"
      "VeqSession_recv (Chunker_recv oc cdc (BidirectionalSession_recv fresh w)) v' = None"
    by (rule end_hears [OF assms carry, where arr = "[]" and got = "[]" and oc = oc and fresh = fresh and w = w])
      (simp, simp only: list.size add_0_right room, simp, simp, rule that, simp)
  then show ?thesis by (simp add: arrive_def VeqSession_recv_def with_handler_def veq_handler_def)
qed

lemma peer_waits:
  assumes q: "can_receive cdc b i k g (conn q)" and "established_at i t n r (veq_handler (conn q))"
  obtains v t' where "peer_awaits oc cdc fresh w q = Some (q\<lparr>conn := v, node := (node q)\<lparr>node_handler := veq_handler v\<rparr>\<rparr>,
      r, Receiving fresh, length (woken (rt (veq_handler v))))"
    and "established_at i t' n r (veq_handler v)" and "(fresh, w) \<in> set (wakers t')" and "completed_chunks (vs_delegate v) = []"
    and "transport t' = transport t" and "outward t' = outward t" and "bd_id (delegate (vs_delegate v)) = i"
proof -
  have t: "\<not> dead t" "bd_id (delegate (vs_delegate (conn q))) = i"
    using q established_at_unique [OF assms(2)] unfolding can_receive_def by blast+
  obtain c t' where c: "recv_suspends oc cdc fresh w (vs_delegate (conn q)) = Some (c, r, Receiving fresh)" "bd_id (delegate c) = i"
      "established_at i t' n r (bd_handler (delegate c))" "(fresh, w) \<in> set (wakers t')" "completed_chunks c = []"
      "transport t' = transport t" "outward t' = outward t"
    using suspends [OF assms(2) [unfolded veq_handler_def] t(2,1) no_message_waits [OF q]] by blast
  show ?thesis
    by (rule that [of "(conn q)\<lparr>vs_delegate := c\<rparr>" t']) (use c in \<open>simp_all add: peer_awaits_def veq_handler_def Let_def\<close>)
qed

text \<open>When the heartbeat task ends the session, the waker is called and the call is an error.\<close>

lemma peer_resumes_dead:
  assumes "w \<in> set (drop since (woken (rt (node_handler (node q)))))" and "sessions (node_handler (node q)) r = Some t" and "dead t"
    and "completed_chunks (vs_delegate (conn q)) = []"
  shows "\<exists>q'. peer_resumes oc cdc fresh w (r, Receiving fresh, since) q = Some (q', Err Disconnected)"
proof -
  let ?c = "vs_delegate (with_handler (node_handler (node q)) (conn q))"
  have "\<exists>c'. recv_resumes oc cdc r (Receiving fresh) fresh w ?c = Some (c', Err Disconnected)"
    using assms(2-4) by (intro recv_resumes_dead [of _ _ t]) (simp_all add: with_handler_def)
  then show ?thesis using assms(1) by (auto simp: peer_resumes_def Let_def)
qed

section \<open>Sending disturbs nobody\<close>

lemma send_resting: "resting i d \<Longrightarrow> resting i (fst (BidirectionalSession_send en d x))"
proof -
  assume "resting i d"
  then obtain s n r where d: "bd_id d = i" "established_at i s n r (bd_handler d)" "\<not> dead s" "messages s = []" "wakers s = []"
    unfolding resting_def by blast
  obtain s1 ch y where s1: "Session_send en (outgoing (rt (bd_handler d))) s x = (s1, ch, y)"
    by (cases "Session_send en (outgoing (rt (bd_handler d))) s x")
  then have "\<not> dead s1" "messages s1 = []" "wakers s1 = []"
    using Session_send_frame [of en "outgoing (rt (bd_handler d))" s x] d(3-5) by simp_all
  moreover have "established_at i s1 n r (bd_handler (fst (BidirectionalSession_send en d x)))"
      "bd_id (fst (BidirectionalSession_send en d x)) = i"
    using d(1-3) s1
    by (auto simp: BidirectionalSession_send_def Handler_send_def established_at_def Session_is_dead_def split: res.split)
  ultimately show ?thesis unfolding resting_def by blast
qed

lemma send_each_inv: "(\<And>d x. P d \<Longrightarrow> P (fst (dsend d x))) \<Longrightarrow> P d \<Longrightarrow> P (fst (send_each dsend d xs))"
proof (induction xs arbitrary: d)
  case (Cons x xs)
  have "P (fst (dsend d x))" by (rule Cons.prems(1) [OF Cons.prems(2)])
  with Cons.IH [OF Cons.prems(1)] Cons.prems(1) show ?case by (auto split: prod.split res.split)
qed simp

lemma Chunker_send_inv:
  assumes "\<And>d x. P d \<Longrightarrow> P (fst (dsend d x))" and "P (delegate c)"
  shows "P (delegate (fst (Chunker_send oc cdc dsend c x)))"
  using assms(2) send_each_inv [of P dsend, OF assms(1)]
  by (auto simp: Chunker_send_def Let_def split: res.split prod.split) (metis fst_conv)+

lemma peer_sends_at_rest:
  fixes p :: "('k, 'h, 's) peer"
  assumes "at_rest i (conn p)"
  shows "at_rest i (conn (fst (peer_sends en oc cdc ops ms p)))"
proof -
  let ?send = "VeqSession_send (Chunker_send oc cdc (BidirectionalSession_send en))"
  have "at_rest i (fst (?send v x))" if "at_rest i v" for v :: "('h, 's) veq_session_alias" and x
    using Chunker_send_inv [of "resting i" "BidirectionalSession_send en", OF send_resting that, of oc cdc x]
    by (auto simp: VeqSession_send_def split: prod.split)
  from send_each_inv [of "at_rest i" ?send, OF this assms]
  have "at_rest i (fst (send_each ?send (conn p) ms))" .
  moreover have "resting i (d\<lparr>bd_handler := (bd_handler d)\<lparr>rt := x\<rparr>\<rparr>) = resting i d" for d :: "('h, 's) bidirectional_session" and x
    by (simp add: resting_def established_at_def)
  moreover obtain v r where "send_each ?send (conn p) ms = (v, r)" by (cases "send_each ?send (conn p) ms")
  ultimately show ?thesis
    using send_turns_handler [of en ops]
    by (simp add: peer_sends_def with_handler_def veq_handler_def Let_def split: prod.split)
qed

end
