(* ===== verification/Loopback.thy ===== *)
theory Loopback
  imports Closing Tests Awaiting
begin

text \<open>
  The network of the tests in \<open>src/src/lib.rs\<close>: the loopback device, which loses nothing. Messages over it, and two
  calls of \<open>connect\<close> over it (\<open>get_conns\<close>), which are a run of the steps in \<open>Connecting\<close>.
\<close>

section \<open>Messages\<close>

text \<open>Everything that one socket was given arrives
  at the other, in order, from the address \<open>src\<close>.\<close>

definition carry_over ::
    "socket_addr \<Rightarrow> (queue_socket, 'h, 's) peer \<Rightarrow> (queue_socket, 'h, 's) peer \<Rightarrow>
       (queue_socket, 'h, 's) peer \<times> (queue_socket, 'h, 's) peer" where
  "carry_over src p q =
     (let k = node_socket (node p); l = node_socket (node q)
      in (p\<lparr>node := (node p)\<lparr>node_socket := k\<lparr>outbox := []\<rparr>\<rparr>\<rparr>,
          q\<lparr>node := (node q)\<lparr>node_socket := l\<lparr>inbox := inbox l @ map (\<lambda>(d, _). (d, src)) (outbox k)\<rparr>\<rparr>\<rparr>))"

text \<open>The messages are sent by one connection and received by the other. The first call of \<open>recv\<close> is made when the
  messages came, or (\<open>waits\<close>) before: then it waits, and goes on only if its waker was called.\<close>

definition test_exchange ::
    "('b, 'h, 's) env \<Rightarrow> chunked_data codec \<Rightarrow> bool \<Rightarrow> socket_addr \<Rightarrow> bytes list \<Rightarrow>
       (queue_socket, 'h, 's) peer \<Rightarrow> (queue_socket, 'h, 's) peer \<Rightarrow>
       ((queue_socket, 'h, 's) peer \<times> (queue_socket, 'h, 's) peer) option" where
  "test_exchange en cdc waits src data sender receiver = do {
     let (sender, sent) = peer_sends en (overflow_checks en) cdc queue_socket_ops data sender;
     unwrapped sent;
     (receiver, at) \<leftarrow> (if waits then map_option (\<lambda>(q, a). (q, Some a)) (peer_awaits (overflow_checks en) cdc 0 0 receiver)
        else Some (receiver, None));
     let (sender, receiver) = carry_over src sender receiver;
     (receiver, received) \<leftarrow> peer_hears en (overflow_checks en) cdc queue_socket_ops 0 0
        (Suc (length (inbox (node_socket (node receiver))))) at (length data) receiver;
     assert_eq data received;
     Some (sender, receiver)
   }"

lemma slice_received:
  "slice_to (overwrite d buf) (min (length d) (length buf)) = Ok (take (length buf) d)"
  using take_min_overwrite [of d buf] by (simp add: slice_to_def overwrite_def)

lemma queue_turn:
  assumes "outputs_fit (snow_of en)" and "receiving_runs nd" and "inbox (node_socket nd) = (d, a) # rest"
  shows "receive_turn en queue_socket_ops nd = Some (nd\<lparr>node_socket := (node_socket nd)\<lparr>inbox := rest\<rparr>,
    node_handler := fst (Handler_handle_incoming en a (take 65536 d) (node_handler nd))\<rparr>)"
proof -
  define buf :: bytes where "buf = replicate 65536 0"
  have len: "length buf = 65536" by (simp only: buf_def length_replicate)
  obtain st r where h: "Handler_handle_incoming en a (take 65536 d) (node_handler nd) = (st, r)" by fastforce
  then have "\<not> is_Panic r"
    using handle_incoming_no_panic [OF assms(1), of a "take 65536 d" "node_handler nd"] by simp
  moreover have "slice_to (overwrite d buf) (min (length d) 65536) = (Ok (take 65536 d) :: (_, unit) res)"
    using slice_received [of d buf] unfolding len .
  moreover have "bs_recv_from queue_socket_ops (node_socket nd) buf =
      Some ((node_socket nd)\<lparr>inbox := rest\<rparr>, overwrite d buf, Inr (min (length d) 65536, a))"
    by (simp add: queue_socket_ops_def assms(3) len)
  ultimately show ?thesis
    using assms(2) h unfolding receive_turn_def buf_def [symmetric] by (cases r) simp_all
qed

lemma queue_turns:
  assumes "outputs_fit (snow_of en)"
  shows "receiving_runs nd \<Longrightarrow> inbox (node_socket nd) = xs \<Longrightarrow>
     receive_turns en queue_socket_ops (Suc (length xs)) nd =
       Some (nd\<lparr>node_socket := (node_socket nd)\<lparr>inbox := []\<rparr>,
         node_handler := fold (\<lambda>(d, a) st. fst (Handler_handle_incoming en a (take 65536 d) st)) xs (node_handler nd)\<rparr>)"
proof (induction xs arbitrary: nd)
  case Nil
  have "receive_turn en queue_socket_ops nd = None"
    by (intro receive_turn_waits [OF queue_udp.datagram_socket_axioms]) (simp add: Nil.prems)
  moreover have "(node_socket nd)\<lparr>inbox := []\<rparr> = node_socket nd" using Nil.prems by (cases "node_socket nd") simp
  ultimately show ?case by simp
next
  case (Cons x xs)
  obtain d a where x: "x = (d, a)" by (cases x)
  let ?nd = "nd\<lparr>node_socket := (node_socket nd)\<lparr>inbox := xs\<rparr>,
    node_handler := fst (Handler_handle_incoming en a (take 65536 d) (node_handler nd))\<rparr>"
  have "receive_turn en queue_socket_ops nd = Some ?nd"
    using Cons.prems x by (intro queue_turn [OF assms]) simp_all
  moreover have "receive_turns en queue_socket_ops (Suc (length xs)) ?nd =
      Some (?nd\<lparr>node_socket := (node_socket ?nd)\<lparr>inbox := []\<rparr>,
         node_handler := fold (\<lambda>(d, a) st. fst (Handler_handle_incoming en a (take 65536 d) st)) xs (node_handler ?nd)\<rparr>)"
    using Cons.prems by (intro Cons.IH) simp_all
  ultimately show ?case
    unfolding receive_turns.simps(2) [of _ _ "Suc (length xs)"] list.size add_Suc_right add_0_right by (simp add: x)
qed

text \<open>Nothing is on its way.\<close>

definition quiet :: "(queue_socket, 'h, 's) peer \<Rightarrow> bool" where
  "quiet p \<longleftrightarrow> node_queue (node p) = [] \<and> inbox (node_socket (node p)) = [] \<and> outbox (node_socket (node p)) = []"

lemma send_turns_inbox: "inbox (node_socket (send_turns en queue_socket_ops n nd)) = inbox (node_socket nd)"
  by (induction n arbitrary: nd)
    (simp_all add: send_turn_def queue_socket_ops_def Let_def split: list.split prod.split sum.split option.split)

lemma peer_sends_inbox:
  "inbox (node_socket (node (fst (peer_sends en oc cdc queue_socket_ops ms p)))) = inbox (node_socket (node p))"
  by (simp add: peer_sends_def send_turns_inbox Let_def split: prod.split)

lemma loopback_in_flight: "map (\<lambda>(d, _). (d, src)) (map (\<lambda>d. (d, addr)) ds) = in_flight ds (map (\<lambda>j. (j, src)) [0 ..< length ds])"
  by (rule nth_equalityI) (simp_all add: in_flight_def)

lemma arrive_in_order: "arrive en ds (map (\<lambda>j. (j, src)) [0 ..< length ds]) st = fold (take_in en src) ds st"
proof -
  have "arrive en ds (map (\<lambda>j. (j, src)) [0 ..< length ds]) st = fold (take_in en src) (map ((!) ds) [0 ..< length ds]) st"
    by (simp add: arrive_def fold_map comp_def)
  then show ?thesis by (simp add: map_nth)
qed

text \<open>A peer that waits, or not, for the datagrams of the messages.\<close>

lemma peer_ready:
  fixes q :: "(queue_socket, 'h, 's) peer"
  assumes q: "can_receive cdc b i k g (conn q)" "node_handler (node q) = veq_handler (conn q)"
    and "waits \<longrightarrow> at_rest i (conn q)"
  obtains q' at where "(if waits then map_option (\<lambda>(q, a). (q, Some a)) (peer_awaits oc cdc 0 0 q) else Some (q, None)) = Some (q', at)"
    and "can_receive cdc b i k g (conn q')" and "\<forall>a l. can_send en a i l (conn q) \<longrightarrow> can_send en a i l (conn q')"
    and "current_group (vs_delegate (conn q')) = current_group (vs_delegate (conn q))"
    and "node_handler (node q') = veq_handler (conn q')" and "node_socket (node q') = node_socket (node q)"
    and "receiving_runs (node q') = receiving_runs (node q)" and "node_queue (node q') = node_queue (node q)"
    and "\<forall>(x :: (queue_socket, 'h, 's) peer) ms ds src ops fuel m nd. conn x = conn q' \<longrightarrow> carry_messages en cdc b i k g ms ds \<longrightarrow> ds \<noteq> [] \<longrightarrow> 0 < m \<longrightarrow>
      receive_turns en ops fuel (node x) = Some nd \<longrightarrow> node_handler nd = fold (take_in en src) ds (node_handler (node q')) \<longrightarrow>
      peer_hears en oc cdc ops 0 0 fuel at m x = peer_receives en oc cdc ops 0 0 fuel m x"
proof (cases waits)
  case True
  then have rest: "at_rest i (conn q)" using assms(3) by simp
  obtain q' at where at: "peer_awaits oc cdc 0 0 q = Some (q', at)" "can_receive cdc b i k g (conn q')"
      "\<forall>a l. can_send en a i l (conn q) \<longrightarrow> can_send en a i l (conn q')"
      "current_group (vs_delegate (conn q')) = current_group (vs_delegate (conn q))"
      "node_handler (node q') = veq_handler (conn q')" "node_socket (node q') = node_socket (node q)"
      "receiving_runs (node q') = receiving_runs (node q)" "node_queue (node q') = node_queue (node q)"
      "\<forall>(x :: (queue_socket, 'h, 's) peer) ms ds src ops fuel m nd. conn x = conn q' \<longrightarrow> carry_messages en cdc b i k g ms ds \<longrightarrow> ds \<noteq> [] \<longrightarrow> 0 < m \<longrightarrow>
      receive_turns en ops fuel (node x) = Some nd \<longrightarrow> node_handler nd = fold (take_in en src) ds (node_handler (node q')) \<longrightarrow>
      peer_hears en oc cdc ops 0 0 fuel (Some at) m x = peer_receives en oc cdc ops 0 0 fuel m x"
    by (rule peer_waits_for [OF q(1) rest q(2)])
  show ?thesis by (rule that [OF _ at(2-9)]) (simp add: at(1) True)
next
  case False
  show ?thesis by (rule that [of q None]) (use q False in \<open>simp_all add: peer_hears_def\<close>)
qed

lemma test_exchange_passes:
  fixes q :: "(queue_socket, 'h, 's) peer"
  assumes "handler_codecs en" and "codec_ok chunk_fits cdc" and "chunk_sizes cdc" and "outputs_fit (snow_of en)"
    and talk: "talking en cdc i k l p q" and "quiet p" and "quiet q" and "\<forall>m \<in> set ms. m \<noteq> [] \<and> in_memory m"
    and "unat (current_group (vs_delegate (conn p))) + length ms < 2 ^ 64"
    and "unat k + length (all_chunks (current_group (vs_delegate (conn p))) 4096 ms) < 2 ^ 64"
    and "ms \<noteq> []" and waits: "waits \<longrightarrow> at_rest i (conn q)"
  obtains p' q' k' where "test_exchange en cdc waits src ms p q = Some (p', q')" and "talking en cdc i k' l p' q'"
    and "quiet p'" and "quiet q'" and "current_group (vs_delegate (conn q')) = current_group (vs_delegate (conn q))"
    and "k' = k + of_nat (length (all_chunks (current_group (vs_delegate (conn p))) 4096 ms))"
    and "at_rest i (conn p) \<longrightarrow> at_rest i (conn p')"
proof -
  let ?oc = "overflow_checks en" and ?g = "current_group (vs_delegate (conn p))"
  have logs: "logs_sends queue_socket_ops outbox" by (simp add: logs_sends_def queue_socket_ops_def)
  obtain b where b: "can_send en b i k (conn p)" "can_receive cdc b i k ?g (conn q)"
    and peers: "node_handler (node p) = veq_handler (conn p)" "node_handler (node q) = veq_handler (conn q)"
      "receiving_runs (node p)" "receiving_runs (node q)"
    using talk unfolding talking_def connected_ends_def by blast
  obtain p1 ds where sent: "peer_sends en ?oc cdc queue_socket_ops ms p = (p1, Ok ())" "node_queue (node p1) = []"
      "outbox (node_socket (node p1)) = outbox (node_socket (node p))
        @ List.map_filter (item_datagram en) (node_queue (node p)) @ map (\<lambda>d. (d, vs_remote_addr (conn p))) ds"
    and ds: "\<forall>d \<in> set ds. length d \<le> 65536" "carry_messages en cdc b i k ?g ms ds"
    and p1: "can_send en b i (k + of_nat (length ds)) (conn p1)"
      "current_group (vs_delegate (conn p1)) = ?g + of_nat (length ms)"
      "\<forall>a l g. can_receive cdc a i l g (conn p) \<longrightarrow> can_receive cdc a i l g (conn p1)"
      "node_handler (node p1) = veq_handler (conn p1)" "receiving_runs (node p1) = receiving_runs (node p)"
    by (rule peer_sends_all [OF assms(1-3) b(1) peers(1) assms(8-10) logs])
  obtain q0 at where at: "(if waits then map_option (\<lambda>(q, a). (q, Some a)) (peer_awaits ?oc cdc 0 0 q) else Some (q, None)) = Some (q0, at)"
    and q0: "can_receive cdc b i k ?g (conn q0)" "\<forall>a l. can_send en a i l (conn q) \<longrightarrow> can_send en a i l (conn q0)"
      "current_group (vs_delegate (conn q0)) = current_group (vs_delegate (conn q))"
      "node_handler (node q0) = veq_handler (conn q0)" "node_socket (node q0) = node_socket (node q)"
      "receiving_runs (node q0) = receiving_runs (node q)" "node_queue (node q0) = node_queue (node q)"
    and hears: "\<forall>(x :: (queue_socket, 'h, 's) peer) ms ds src ops fuel m nd. conn x = conn q0 \<longrightarrow> carry_messages en cdc b i k ?g ms ds \<longrightarrow> ds \<noteq> [] \<longrightarrow> 0 < m \<longrightarrow>
      receive_turns en ops fuel (node x) = Some nd \<longrightarrow> node_handler nd = fold (take_in en src) ds (node_handler (node q0)) \<longrightarrow>
      peer_hears en ?oc cdc ops 0 0 fuel at m x = peer_receives en ?oc cdc ops 0 0 fuel m x"
    by (rule peer_ready [OF b(2) peers(2) waits])
  let ?arr = "map (\<lambda>j. (j, src)) [0 ..< length ds]" and ?k = "node_socket (node p1)" and ?l = "node_socket (node q0)"
  let ?p = "p1\<lparr>node := (node p1)\<lparr>node_socket := ?k\<lparr>outbox := []\<rparr>\<rparr>\<rparr>"
  let ?q = "q0\<lparr>node := (node q0)\<lparr>node_socket := ?l\<lparr>inbox := in_flight ds ?arr\<rparr>\<rparr>\<rparr>"
  let ?fuel = "Suc (length (inbox (node_socket (node ?q))))"
  have out: "outbox ?k = map (\<lambda>d. (d, vs_remote_addr (conn p))) ds"
    using sent(3) assms(6) by (simp add: quiet_def map_filter_simps)
  have "inbox ?l = []" using assms(7) q0(5) by (simp add: quiet_def)
  then have over: "carry_over src p1 q0 = (?p, ?q)"
    unfolding carry_over_def Let_def out loopback_in_flight by simp
  have range: "\<forall>a \<in> set ?arr. fst a < length ds" by auto
  let ?nd = "(node ?q)\<lparr>node_socket := (node_socket (node ?q))\<lparr>inbox := []\<rparr>,
      node_handler := arrive en ds ?arr (node_handler (node ?q))\<rparr>"
  have turns: "receive_turns en queue_socket_ops ?fuel (node ?q) = Some ?nd"
    using queue_turns [OF assms(4), of "node ?q"] peers(4) q0(6) by (simp add: hand_over [OF ds(1) range])
  have "map fst ?arr = [0 ..< length ds]" by (simp add: comp_def)
  then have "arrived_messages 4096 (set (newest 0 (map fst ?arr))) ms = ms"
    using carry_messages_length [OF ds(2)] by (intro arrived_all [of ?g]) (auto simp: newest_id)
  then have got: "ms = arrived_messages 4096 (set (newest 0 (map fst ?arr))) ms" by simp
  have q: "can_receive cdc b i k ?g (conn ?q)"
      "node_handler (node ?q) = veq_handler (conn ?q)" and arr: "node_handler ?nd = arrive en ds ?arr (node_handler (node ?q))"
    using q0(1,4) by simp_all
  obtain q' where q': "peer_receives en ?oc cdc queue_socket_ops 0 0 ?fuel (length ms) ?q = Some (q', ms)"
      "VeqSession_recv (Chunker_recv ?oc cdc (BidirectionalSession_recv 0 0)) (conn q') = None"
      "can_receive cdc b i (k + of_nat (length ds)) (?g + of_nat (length ms)) (conn q')"
      "current_group (vs_delegate (conn q')) = current_group (vs_delegate (conn ?q))"
      "\<forall>a l. can_send en a i l (conn ?q) \<longrightarrow> can_send en a i l (conn q')"
      "node_handler (node q') = veq_handler (conn q')" "node_socket (node q') = node_socket ?nd"
      "receiving_runs (node q') = receiving_runs ?nd" "node_queue (node q') = node_queue (node ?q)"
    by (rule peer_receives_arrivals [OF q ds(2) assms(8,9) range got turns arr])
  have "ds \<noteq> []" using carry_messages_length [OF ds(2)] assms(8,11) by (cases ms) (auto simp: slice_chunks_step make_chunks_def)
  then have heard: "peer_hears en ?oc cdc queue_socket_ops 0 0 ?fuel at (length ms) ?q = Some (q', ms)"
    using hears [rule_format, of ?q ms ds "length ms" queue_socket_ops ?fuel ?nd src] ds(2) assms(11) turns q'(1)
    by (simp add: arrive_in_order del: receive_turns.simps)
  have "talking en cdc i (k + of_nat (length ds)) l ?p q'"
    by (rule talking_turn [OF talk b]) (use p1 q' q0 peers(3,4) in simp_all)
  moreover have "inbox ?k = []"
    using peer_sends_inbox [of en ?oc cdc ms p] sent(1) assms(6) by (simp add: quiet_def)
  then have "quiet ?p" "quiet q'"
    using sent(2) assms(7) q'(7,9) q0(5,7) by (simp_all add: quiet_def node_queue_def)
  moreover have "test_exchange en cdc waits src ms p q = Some (?p, q')"
    using sent(1) at heard over by (simp add: test_exchange_def assert_eq_def)
  moreover have "at_rest i (conn p) \<longrightarrow> at_rest i (conn ?p)"
    using peer_sends_at_rest [of i p en ?oc cdc queue_socket_ops ms] sent(1) by simp
  ultimately show ?thesis using that q'(4) q0(3) carry_messages_length [OF ds(2)] by simp
qed

section \<open>Connections\<close>

text \<open>The tasks of the session \<open>i\<close> take a turn, and the sending task empties the channel.\<close>

definition caller_works :: "('b, 'h, 's) env \<Rightarrow> session_id \<Rightarrow> ('h, 's) caller \<Rightarrow> ('h, 's) caller" where
  "caller_works en i x =
     (case task_of (state x) i of
        Some h \<Rightarrow> with_state (handler_announce en h (state x)) x
      | None \<Rightarrow>
          (case established (state x) i of
             Some (_, r) \<Rightarrow> with_state (session_keepalive en r (state x)) x
           | None \<Rightarrow> x))"

definition caller_flushes :: "('b, 'h, 's) env \<Rightarrow> ('h, 's) caller \<Rightarrow> ('h, 's) caller" where
  "caller_flushes en x = (caller_transmits en ^^ length (chan_queue (outgoing (rt (state x))))) x"

definition caller_waits :: "('h, 's) caller \<Rightarrow> ('h, 's) caller" where
  "caller_waits x = (if returned x = None then caller_polls 0 x else x)"

text \<open>A second: all tasks, the loopback in both directions, and a poll of both calls.\<close>

definition loopback_round ::
    "('b, 'h, 's) env \<Rightarrow> session_id \<Rightarrow> socket_addr \<Rightarrow> socket_addr \<Rightarrow>
       ('h, 's) caller \<times> ('h, 's) caller \<Rightarrow> ('h, 's) caller \<times> ('h, 's) caller" where
  "loopback_round en i addr1 addr2 = (\<lambda>(x, y).
     let x1 = caller_flushes en (caller_works en i x);
         y1 = caller_flushes en (caller_works en i y);
         x2 = fold (caller_takes en addr2) (drop (length (sent y)) (sent y1)) x1;
         y2 = fold (caller_takes en addr1) (drop (length (sent x)) (sent x1)) y1
     in (caller_waits x2, caller_waits y2))"

lemma caller_flushes_queue:
  "sent (caller_flushes en x) = sent x @ queued en (state x) \<and> chan_queue (outgoing (rt (state (caller_flushes en x)))) = []
    \<and> by_itself en i x (caller_flushes en x)"
proof (induction "chan_queue (outgoing (rt (state x)))" arbitrary: x)
  case Nil
  then show ?case by (simp add: caller_flushes_def queued_def map_filter_simps flip: Nil)
next
  case (Cons it q)
  let ?x = "caller_transmits en x"
  have q: "q = chan_queue (outgoing (rt (state ?x)))" by (simp add: caller_transmits_def flip: Cons.hyps(2))
  have "caller_flushes en x = caller_flushes en ?x"
    by (simp add: caller_flushes_def funpow_swap1 flip: Cons.hyps(2) q)
  moreover have "sent ?x @ queued en (state ?x) = sent x @ queued en (state x)"
    by (simp add: caller_transmits_def queued_def map_filter_simps flip: Cons.hyps(2) split: option.split)
  moreover have "caller_step en i {} x ?x" by (rule caller_step.transmits)
  ultimately show ?case using Cons.hyps(1) [OF q] by (auto intro: converse_rtranclp_into_rtranclp)
qed

text \<open>What a side sends in a round.\<close>

abbreviation sends_now :: "('b, 'h, 's) env \<Rightarrow> session_id \<Rightarrow> ('h, 's) caller \<Rightarrow> bytes list" where
  "sends_now en i x \<equiv> drop (length (sent x)) (sent (caller_flushes en (caller_works en i x)))"

lemma works_sent: "sent (caller_works en i x) = sent x"
  by (simp add: caller_works_def split: option.split)

lemma sends_now_queued: "sends_now en i x = queued en (state (caller_works en i x))"
  using caller_flushes_queue [of en "caller_works en i x"] works_sent [of en i x] by simp

lemma announcing_works:
  assumes "handler_codecs en" and "raw_size m \<le> 65000" and "{d. says en i m d} \<subseteq> S" and "of_pending i n P"
    and x: "announcing en i n c P addrs m S x"
  shows "announcing en i n c P addrs m S (caller_flushes en (caller_works en i x))"
    and "set (sends_now en i x) \<subseteq> S" and "addrs \<noteq> [] \<Longrightarrow> \<exists>d \<in> set (sends_now en i x). says en i m d"
proof -
  obtain h where h: "task_of (state x) i = Some h"
      "tasks (rt (state x)) h = Some \<lparr>ann_addresses = addrs, ann_id = i, ann_message = m\<rparr>"
    and ch: "chan_open (outgoing (rt (state x)))"
    using x unfolding announcing_def by blast
  obtain p d where d: "says en i m d" "serialize (packet_codec en) p = Inr d"
      "handler_announce en h (state x) = (state x)\<lparr>rt := (rt (state x))\<lparr>outgoing := (outgoing (rt (state x)))\<lparr>chan_queue :=
        chan_queue (outgoing (rt (state x))) @ map (\<lambda>a. (a, p, 64)) addrs\<rparr>\<rparr>\<rparr>"
    by (rule announce_says [OF assms(1,2) ch h(2)])
  have works: "caller_works en i x = with_state (handler_announce en h (state x)) x" using h(1) by (simp add: caller_works_def)
  have "caller_step en i {} x (caller_works en i x)" unfolding works by (rule caller_step.announces_again [OF h(1)])
  with caller_flushes_queue [of en "caller_works en i x" i]
  have "by_itself en i x (caller_flushes en (caller_works en i x))" by (meson converse_rtranclp_into_rtranclp)
  then show now: "announcing en i n c P addrs m S (caller_flushes en (caller_works en i x))"
    by (rule announcing_alone [OF _ assms])
  show "set (sends_now en i x) \<subseteq> S" using announcing_sent [OF now] by (meson order.trans set_drop_subset)
  show "\<exists>d \<in> set (sends_now en i x). says en i m d" if "addrs \<noteq> []"
  proof -
    have "d \<in> set (queued en (state (caller_works en i x)))"
      using works d that by (cases addrs) (auto simp: queued_def map_filter_append map_filter_simps item_datagram_def)
    then show ?thesis using d(1) sends_now_queued [of x en i] by auto
  qed
qed

lemma joined_works:
  assumes "handler_codecs en" and "noise_pair (snow_of en) a b" and x: "joined False en i n c a b S k l x" and "k \<noteq> u64_max"
  shows "joined False en i n c a b S (k + 1) l (caller_flushes en (caller_works en i x))"
    and "set (sends_now en i x) \<subseteq> S \<union> {d. ticks en i b (k + 1) d}"
    and "\<exists>d \<in> set (sends_now en i x). ticks en i b (k + 1) d"
proof -
  obtain s r where est: "established_at i s n r (state x)" using x unfolding joined_def by blast
  then have works: "caller_works en i x = with_state (session_keepalive en r (state x)) x"
    by (simp add: caller_works_def established_at_def task_of_def)
  obtain d where d: "joined False en i n c a b S (k + 1) l (caller_works en i x)"
      "d \<in> set (queued en (state (caller_works en i x)))" "ticks en i b (k + 1) d"
    unfolding works with_state_sel
    by (rule joined_keeps_alive [OF assms(1,2) x est assms(4)]) (use joinedE(3) [OF x est] in \<open>simp split: if_splits\<close>)
  have "joined False en i n c a b S (k + 1) l ((caller_transmits en ^^ m) (caller_works en i x))" for m
    by (induction m) (simp_all add: d(1) joined_transmits)
  then show now: "joined False en i n c a b S (k + 1) l (caller_flushes en (caller_works en i x))"
    by (simp add: caller_flushes_def)
  show "set (sends_now en i x) \<subseteq> S \<union> {d. ticks en i b (k + 1) d}"
    using joined_sent [OF now] by (meson order.trans set_drop_subset)
  show "\<exists>d \<in> set (sends_now en i x). ticks en i b (k + 1) d"
    using d(2,3) sends_now_queued [of x en i] by auto
qed

text \<open>What a side makes of the datagrams of a round.\<close>

lemma says_unique: "says en i m d \<Longrightarrow> says en i m' d \<Longrightarrow> m = m'"
  by (auto simp: says_def on_wire_def)

lemma ticks_says: "ticks en i b k d \<Longrightarrow> says en i m d \<Longrightarrow> \<exists>e. m = Encrypted e"
  by (auto simp: ticks_def says_def wire_message_def on_wire_def)

lemma joined_takes_all:
  "joined False en i n c a b S k l x \<Longrightarrow> \<forall>d \<in> set ds. harmless en i a l d \<Longrightarrow>
     joined False en i n c a b S k l (fold (caller_takes en src) ds x)"
  by (induction ds arbitrary: x) (simp_all add: joined_takes)

lemma asking_takes_all:
  assumes "agreed en ini rsp resp ti tr" and "asking en i n c ini addrs S x" and "set ds \<subseteq> replies en i resp"
  shows "if set ds \<subseteq> pokes en i then fold (caller_takes en src) ds x = x
    else joined False en i n c ti tr S 0 0 (fold (caller_takes en src) ds x)"
  using assms(2,3)
proof (induction ds arbitrary: x)
  case (Cons d ds)
  show ?case
  proof (cases "says en i HandshakePoke d")
    case True
    then have "caller_takes en src d x = x" by (rule asking_poked [OF Cons.prems(1)])
    then show ?thesis using Cons.IH [OF Cons.prems(1)] Cons.prems(2) True by simp
  next
    case False
    then have "says en i (HandshakeResponse resp) d" using Cons.prems(2) by auto
    then have "joined False en i n c ti tr S 0 0 (caller_takes en src d x)"
      using asking_answered [OF _ Cons.prems(1)] assms(1) unfolding agreed_def by blast
    moreover have "\<forall>d \<in> set ds. harmless en i ti 0 d"
      using Cons.prems(2) by (intro harmless_replies [of _ en i resp]) auto
    ultimately show ?thesis using False joined_takes_all by auto
  qed
qed simp

lemma responding_takes_all:
  assumes "agreed en ini rsp resp ti tr" and "responding en i n c (from_stateless tr) resp addr S x"
    and "set ds \<subseteq> asks en i ini \<union> {d. ticks en i tr k d}"
  shows "if set ds \<subseteq> asks en i ini then fold (caller_takes en src) ds x = x
    else joined False en i n c tr ti S 0 k (fold (caller_takes en src) ds x)"
  using assms(2,3)
proof (induction ds arbitrary: x)
  case (Cons d ds)
  show ?case
  proof (cases "says en i (HandshakeInitiation (initiation ini)) d")
    case True
    then have "caller_takes en src d x = x" by (rule responding_ignores [OF Cons.prems(1)])
    then show ?thesis using Cons.IH [OF Cons.prems(1)] Cons.prems(2) True by simp
  next
    case False
    then have "ticks en i tr k d" using Cons.prems(2) by auto
    then have "joined False en i n c tr ti S 0 k (caller_takes en src d x)"
      using responding_ticked [OF _ Cons.prems(1)] assms(1) unfolding agreed_def by blast
    moreover have "\<forall>d \<in> set ds. harmless en i tr k d"
      using Cons.prems(2) by (intro harmless_asks [of _ en i ini]) auto
    ultimately show ?thesis using False joined_takes_all by auto
  qed
qed simp

lemma poking_takes_all:
  assumes ag: "agreed en ini rsp resp ti tr" and "poking en i n c rsp addrs (pokes en i) x"
    and "set ds \<subseteq> asks en i ini" and "ds \<noteq> []"
  shows "responding en i n c (from_stateless tr) resp src (replies en i resp) (fold (caller_takes en src) ds x)"
proof -
  obtain d ds' where ds: "ds = d # ds'" using assms(4) by (cases ds) simp_all
  have "responding en i n c (from_stateless tr) resp src (replies en i resp) (caller_takes en src d x)"
    by (rule poking_answers [OF assms(2)]) (use assms(1,3) ds in \<open>auto simp: agreed_def\<close>)
  from responding_takes_all [OF ag this, of ds' 0 src] this show ?thesis using assms(3) ds by (simp add: le_supI1)
qed

text \<open>Waiting leaves the stage as it is, and makes an established side return.\<close>

lemma announcing_waits_on:
  assumes "handler_codecs en" and "raw_size m \<le> 65000" and "{d. says en i m d} \<subseteq> S" and "of_pending i n P"
    and "announcing en i n c P addrs m S x"
  shows "announcing en i n c P addrs m S (caller_waits x)"
  using announcing_step [OF assms caller_step.polls [of x _ _ "{}"]] assms(5) by (auto simp: caller_waits_def)

lemma joined_waits:
  "joined False en i n c a b S k l x \<Longrightarrow> joined False en i n c a b S k l (caller_waits x) \<and> returned (caller_waits x) \<noteq> None"
  by (cases "returned x") (simp_all add: caller_waits_def joined_polls)

text \<open>After a round the channels are empty.\<close>

lemma entries_outgoing:
  "poker_handle_incoming en src p rt0 e1 = (rt1, e1') \<Longrightarrow> outgoing rt1 = outgoing rt0"
  "poker_into_responder en e1 rt0 = (rt1, r1) \<Longrightarrow> outgoing rt1 = outgoing rt0"
  "initiator_handle_incoming en src p rt0 e2 = (rt1, e2') \<Longrightarrow> outgoing rt1 = outgoing rt0"
  "initiator_session en e2 rt0 = (rt1, r2) \<Longrightarrow> outgoing rt1 = outgoing rt0"
  "responder_handle_incoming en src p rt0 e3 = (rt1, e3', r3) \<Longrightarrow> outgoing rt1 = outgoing rt0"
  "responder_session en e3 rt0 = (rt1, r4) \<Longrightarrow> outgoing rt1 = outgoing rt0"
  subgoal by (auto simp: poker_handle_incoming_def frame_simps split: sum.splits raw_message.splits option.splits)
  subgoal by (auto simp: poker_into_responder_def PendingSessionResponder_new_def spawn_def frame_simps Let_def
        split: option.splits res.splits prod.splits)
  subgoal by (auto simp: initiator_handle_incoming_def frame_simps split: sum.splits raw_message.splits option.splits)
  subgoal by (auto simp: initiator_session_def frame_simps Let_def split: option.splits res.splits receive_response_result.splits)
  subgoal by (auto simp: responder_handle_incoming_def frame_simps Let_def
        split: sum.splits raw_message.splits option.splits res.splits prod.splits message.splits)
  subgoal by (auto simp: responder_session_def frame_simps split: if_splits)
  done

lemma upgrade_outgoing: "outgoing (rt (fst (upgrade_session i n s c st))) = outgoing (rt st)"
  by (simp add: upgrade_session_def remove_established_def drop_session_def frame_simps Let_def split: option.split)

lemma stages_outgoing:
  "outgoing (rt (fst (incoming_poker en src p e1 st))) = outgoing (rt st)"
  "outgoing (rt (fst (incoming_initiator en src p e2 st))) = outgoing (rt st)"
  "outgoing (rt (fst (incoming_responder en src p e3 st))) = outgoing (rt st)"
  "outgoing (rt (fst (incoming_established en p st))) = outgoing (rt st)"
  subgoal by (auto simp: incoming_poker_def dest!: entries_outgoing(1,2) split: prod.split res.split)
  subgoal by (auto simp: incoming_initiator_def upgrade_outgoing dest!: entries_outgoing(3,4)
        split: prod.split res.split session_result.split)
  subgoal by (auto simp: incoming_responder_def upgrade_outgoing dest!: entries_outgoing(5,6) split: prod.split res.split)
  subgoal by (simp add: incoming_established_def frame_simps split: prod.split option.split)
  done

lemma takes_outgoing: "outgoing (rt (state (caller_takes en src d x))) = outgoing (rt (state x))"
  by (simp add: caller_takes_def Handler_handle_incoming_def stages_outgoing Let_def split: sum.split option.split)

lemma takes_all_outgoing: "outgoing (rt (state (fold (caller_takes en src) ds x))) = outgoing (rt (state x))"
  by (induction ds arbitrary: x) (simp_all add: takes_outgoing)

lemma waits_outgoing: "rt (state (caller_waits x)) = rt (state x)"
  by (simp add: caller_waits_def caller_polls_def connect_poll_def SessionReady_poll_def SessionReady_drop_def
      close_session_def Let_def)

lemma loopback_round_drained:
  assumes "loopback_round en i addr1 addr2 u = (x, y)"
  shows "chan_queue (outgoing (rt (state x))) = [] \<and> chan_queue (outgoing (rt (state y))) = []"
  using assms caller_flushes_queue [of en]
  by (auto simp: loopback_round_def Let_def waits_outgoing takes_all_outgoing split: prod.splits)

text \<open>The three rounds.\<close>

lemma round_started:
  assumes ag: "agreed en ini rsp resp ti tr" and x: "asking en i na ca ini addrb (asks en i ini) x"
    and y: "poking en i nb cb rsp addra (pokes en i) y" and "addrb \<noteq> []"
  obtains x' y' where "loopback_round en i addr1 addr2 (x, y) = (x', y')" and "asking en i na ca ini addrb (asks en i ini) x'"
    and "responding en i nb cb (from_stateless tr) resp addr1 (replies en i resp) y'"
proof -
  have sizes: "handler_codecs en" "raw_size (HandshakeInitiation (initiation ini)) \<le> 65000" "raw_size HandshakePoke \<le> 65000"
      "raw_size (HandshakeResponse resp) \<le> 65000"
    using ag by (simp_all add: agreed_def)
  note xw = announcing_works [OF sizes(1,2) order.refl of_pending_entries(1) x]
    and yw = announcing_works [OF sizes(1,3) order.refl of_pending_entries(2) y]
  have "sends_now en i x \<noteq> []" using xw(3) assms(4) by auto
  then have y2: "responding en i nb cb (from_stateless tr) resp addr1 (replies en i resp)
      (fold (caller_takes en addr1) (sends_now en i x) (caller_flushes en (caller_works en i y)))"
    using poking_takes_all [OF ag yw(1) xw(2)] by blast
  have "set (sends_now en i y) \<subseteq> replies en i resp" using yw(2) by blast
  then have x2: "fold (caller_takes en addr2) (sends_now en i y) (caller_flushes en (caller_works en i x))
      = caller_flushes en (caller_works en i x)"
    using asking_takes_all [OF ag xw(1), of "sends_now en i y" addr2] yw(2) by simp
  show ?thesis
    by (rule that [OF _ announcing_waits_on [OF sizes(1,2) order.refl of_pending_entries(1) xw(1)]
          announcing_waits_on [OF sizes(1,4) Un_upper2 of_pending_entries(3) y2]])
      (simp add: loopback_round_def Let_def x2)
qed

lemma round_asked:
  assumes ag: "agreed en ini rsp resp ti tr" and x: "asking en i na ca ini addrb (asks en i ini) x"
    and y: "responding en i nb cb (from_stateless tr) resp addr (replies en i resp) y"
  obtains x' y' where "loopback_round en i addr1 addr2 (x, y) = (x', y')" and "joined False en i na ca ti tr (asks en i ini) 0 0 x'"
    and "responding en i nb cb (from_stateless tr) resp addr (replies en i resp) y'"
proof -
  have sizes: "handler_codecs en" "raw_size (HandshakeInitiation (initiation ini)) \<le> 65000" "raw_size (HandshakeResponse resp) \<le> 65000"
    using ag by (simp_all add: agreed_def)
  note xw = announcing_works [OF sizes(1,2) order.refl of_pending_entries(1) x]
    and yw = announcing_works [OF sizes(1,3) Un_upper2 of_pending_entries(3) y]
  have "\<not> set (sends_now en i y) \<subseteq> pokes en i" using yw(3) says_unique by blast
  then have x2: "joined False en i na ca ti tr (asks en i ini) 0 0
      (fold (caller_takes en addr2) (sends_now en i y) (caller_flushes en (caller_works en i x)))"
    using asking_takes_all [OF ag xw(1) yw(2), of addr2] by simp
  have y2: "fold (caller_takes en addr1) (sends_now en i x) (caller_flushes en (caller_works en i y))
      = caller_flushes en (caller_works en i y)"
    using responding_takes_all [OF ag yw(1), of "sends_now en i x" 0 addr1] xw(2) by (simp add: le_supI1)
  show ?thesis
    by (rule that [OF _ conjunct1 [OF joined_waits [OF x2]]
          announcing_waits_on [OF sizes(1,3) Un_upper2 of_pending_entries(3) yw(1)]])
      (simp add: loopback_round_def Let_def y2)
qed

lemma round_replied:
  assumes ag: "agreed en ini rsp resp ti tr" and x: "joined False en i na ca ti tr (asks en i ini) 0 0 x"
    and y: "responding en i nb cb (from_stateless tr) resp addr (replies en i resp) y"
  obtains x' y' where "loopback_round en i addr1 addr2 (x, y) = (x', y')" and "joined False en i na ca ti tr (asks en i ini) 1 0 x'"
    and "joined False en i nb cb tr ti (replies en i resp) 0 1 y'" and "returned x' \<noteq> None" and "returned y' \<noteq> None"
proof -
  have en: "handler_codecs en" "noise_pair (snow_of en) ti tr" "raw_size (HandshakeResponse resp) \<le> 65000"
    using ag by (simp_all add: agreed_def)
  note xw = joined_works [OF en(1,2) x zero_not_max, unfolded add_0]
    and yw = announcing_works [OF en(1,3) Un_upper2 of_pending_entries(3) y]
  have "\<forall>d \<in> set (sends_now en i y). harmless en i ti 0 d"
    using yw(2) by (intro harmless_replies [of _ en i resp]) blast
  then have x2: "joined False en i na ca ti tr (asks en i ini) 1 0
      (fold (caller_takes en addr2) (sends_now en i y) (caller_flushes en (caller_works en i x)))"
    by (rule joined_takes_all [OF xw(1)])
  have "\<not> set (sends_now en i x) \<subseteq> asks en i ini" using xw(3) by (auto dest: ticks_says)
  then have y2: "joined False en i nb cb tr ti (replies en i resp) 0 1
      (fold (caller_takes en addr1) (sends_now en i x) (caller_flushes en (caller_works en i y)))"
    using responding_takes_all [OF ag yw(1) xw(2), of addr1] by simp
  from that [OF _ conjunct1 [OF joined_waits [OF x2]] conjunct1 [OF joined_waits [OF y2]]
      conjunct2 [OF joined_waits [OF x2]] conjunct2 [OF joined_waits [OF y2]]]
  show ?thesis by (simp add: loopback_round_def Let_def)
qed

end
