(* ===== verification/LibTests.thy ===== *)
theory LibTests
  imports Loopback
begin

text \<open>
  The tests of \<open>src/src/lib.rs\<close> that use connections, as definitions over the loopback of \<open>Loopback\<close>, and
  that they pass. A test is a value of type \<open>unit option\<close>, as in \<open>Tests\<close>.
\<close>

section \<open>Two connections\<close>

text \<open>A connection with the tasks of its socket; nothing waits at the socket.\<close>

definition connected_peer ::
    "socket_addr \<Rightarrow> ('h, 's) caller \<Rightarrow> ('h, 's) veq_session_alias \<Rightarrow> (queue_socket, 'h, 's) peer" where
  "connected_peer addr x v =
     \<lparr>conn = with_handler (state x) v,
      node = \<lparr>node_socket = demo_queue addr [], node_handler = state x, receiving_runs = True\<rparr>\<rparr>"

text \<open>Both sockets connect at once. Three seconds of the loopback are enough.\<close>

definition connect_both ::
    "('b, 'h, 's) env \<Rightarrow> session_id \<Rightarrow> uuid \<Rightarrow> uuid \<Rightarrow> socket_addr \<Rightarrow> socket_addr \<Rightarrow> ('h, 's) veq_socket \<Rightarrow>
       ('h, 's) veq_socket \<Rightarrow> ((queue_socket, 'h, 's) peer \<times> (queue_socket, 'h, 's) peer) option" where
  "connect_both en i fresh1 fresh2 addr1 addr2 socket1 socket2 = do {
     let info1 = VeqSocket_connection_info socket1;
     let info2 = VeqSocket_connection_info socket2;
     x \<leftarrow> unwrapped (connect_calls en fresh1 i info2 socket1);
     y \<leftarrow> unwrapped (connect_calls en fresh2 i info1 socket2);
     let (x, y) = (loopback_round en i addr1 addr2 ^^ 3) (x, y);
     r1 \<leftarrow> returned x;
     alias1 \<leftarrow> unwrapped r1;
     r2 \<leftarrow> returned y;
     alias2 \<leftarrow> unwrapped r2;
     Some (connected_peer addr1 x alias1, connected_peer addr2 y alias2)
   }"

definition get_conns ::
    "('b, 'h, 's) env \<Rightarrow> 'u udp \<Rightarrow> 'u answers \<Rightarrow> 'u answers \<Rightarrow> bytes \<Rightarrow> bytes \<Rightarrow> session_id \<Rightarrow> uuid \<Rightarrow> uuid \<Rightarrow>
       socket_addr \<Rightarrow> socket_addr \<Rightarrow> ((queue_socket, 'h, 's) peer \<times> (queue_socket, 'h, 's) peer) option" where
  "get_conns en os ans1 ans2 seed1 seed2 i fresh1 fresh2 addr1 addr2 = do {
     (socket1, _) \<leftarrow> unwrapped (VeqSocket_dualstack (snow_of en) seed1 os ans1 ''0.0.0.0:0'' ''[::]:0''
        :: (('h, 's) veq_socket \<times> _, setup_error) res);
     (socket2, _) \<leftarrow> unwrapped (VeqSocket_bind (snow_of en) seed2 os ans2 ''0.0.0.0:0''
        :: (('h, 's) veq_socket \<times> _, setup_error) res);
     connect_both en i fresh1 fresh2 addr1 addr2 socket1 socket2
   }"

text \<open>One of the two may initiate, and knows an address of the other; no removals wait to run.\<close>

definition can_join :: "('b, 'h, 's) env \<Rightarrow> ('h, 's) veq_socket \<Rightarrow> ('h, 's) veq_socket \<Rightarrow> bool" where
  "can_join en a b \<longleftrightarrow>
     (may_connect en a b \<and> addresses (sock_info b) \<noteq> [] \<or> may_connect en b a \<and> addresses (sock_info a) \<noteq> [])
     \<and> closing (sock_handler a) = [] \<and> closing (sock_handler b) = []"

lemma funpow_three: "(f ^^ 3) x = f (f (f x))"
  by (simp add: numeral_3_eq_3)

lemma loopback_three:
  assumes ag: "agreed en ini rsp resp ti tr" and start: "asking en i na ca ini addrb (asks en i ini) x"
      "poking en i nb cb rsp addra (pokes en i) y" "addrb \<noteq> []"
  obtains x' y' where "(loopback_round en i addr1 addr2 ^^ 3) (x, y) = (x', y')"
    and "joined False en i na ca ti tr (asks en i ini) 1 0 x'" and "joined False en i nb cb tr ti (replies en i resp) 0 1 y'"
    and "returned x' \<noteq> None" and "returned y' \<noteq> None"
    and "chan_queue (outgoing (rt (state x'))) = []" and "chan_queue (outgoing (rt (state y'))) = []"
proof -
  obtain x1 y1 where s1: "loopback_round en i addr1 addr2 (x, y) = (x1, y1)" "asking en i na ca ini addrb (asks en i ini) x1"
      "responding en i nb cb (from_stateless tr) resp addr1 (replies en i resp) y1"
    by (rule round_started [OF ag start])
  obtain x2 y2 where s2: "loopback_round en i addr1 addr2 (x1, y1) = (x2, y2)" "joined False en i na ca ti tr (asks en i ini) 0 0 x2"
      "responding en i nb cb (from_stateless tr) resp addr1 (replies en i resp) y2"
    by (rule round_asked [OF ag s1(2,3)])
  obtain x3 y3 where s3: "loopback_round en i addr1 addr2 (x2, y2) = (x3, y3)" "joined False en i na ca ti tr (asks en i ini) 1 0 x3"
      "joined False en i nb cb tr ti (replies en i resp) 0 1 y3" "returned x3 \<noteq> None" "returned y3 \<noteq> None"
    by (rule round_replied [OF ag s2(2,3)])
  show ?thesis
    by (rule that [OF _ s3(2-5)]) (use s1(1) s2(1) s3(1) loopback_round_drained [OF s3(1)] in \<open>simp_all add: funpow_three\<close>)
qed

lemma loopback_swap:
  "loopback_round en i addr1 addr2 (prod.swap u) = prod.swap (loopback_round en i addr2 addr1 u)"
  by (simp add: loopback_round_def Let_def split: prod.split)

lemma connected_at_rest:
  assumes x: "joined False en i n c a b S k l x" and "returned x = Some (Ok v)"
  shows "at_rest i (conn (connected_peer addr x v))"
proof -
  obtain st s r where s: "established_at i s n r (state x)" "v = new_end i n st (remote_addr s)"
    by (rule joined_returned [OF assms]) (rule that, simp_all)
  have "\<not> dead s" "messages s = []" "wakers s = []" using joinedE(3,4,11) [OF x s(1)] by (simp_all split: if_splits)
  with s show ?thesis by (auto simp: resting_def connected_peer_def with_handler_def Chunker_new_def)
qed

lemma peers_talking:
  assumes "agreed en ini rsp resp ti tr" and x: "joined False en i na ca ti tr (asks en i ini) 1 0 x"
    and y: "joined False en i nb cb tr ti (replies en i resp) 0 1 y"
    and "returned x = Some (Ok va)" and "returned y = Some (Ok vb)"
    and "chan_queue (outgoing (rt (state x))) = []" and "chan_queue (outgoing (rt (state y))) = []"
  shows "talking en cdc i 1 0 (connected_peer addr1 x va) (connected_peer addr2 y vb)"
    and "quiet (connected_peer addr1 x va)" and "quiet (connected_peer addr2 y vb)"
    and "current_group (vs_delegate (conn (connected_peer addr1 x va))) = 0"
    and "current_group (vs_delegate (conn (connected_peer addr2 y vb))) = 0"
    and "at_rest i (conn (connected_peer addr1 x va))" and "at_rest i (conn (connected_peer addr2 y vb))"
proof -
  have pair: "noise_pair (snow_of en) ti tr" "noise_pair (snow_of en) tr ti" using assms(1) by (simp_all add: agreed_def)
  have alive: "\<forall>s n r. established_at i s n r (state x) \<longrightarrow> \<not> dead s" "\<forall>s n r. established_at i s n r (state y) \<longrightarrow> \<not> dead s"
    using x y established_at_unique unfolding joined_def by (metis (full_types))+
  show "talking en cdc i 1 0 (connected_peer addr1 x va) (connected_peer addr2 y vb)"
    using joined_connected [OF x y pair(1) assms(4,5) alive, of cdc] joined_connected [OF y x pair(2) assms(5,4) alive(2,1), of cdc]
    by (simp add: talking_def connected_peer_def)
  show "quiet (connected_peer addr1 x va)" "quiet (connected_peer addr2 y vb)"
    using assms(6,7) by (simp_all add: quiet_def connected_peer_def node_queue_def demo_queue_def)
  show "current_group (vs_delegate (conn (connected_peer addr1 x va))) = 0"
    by (rule joined_returned [OF x assms(4)]) (simp add: connected_peer_def Chunker_new_def)
  show "current_group (vs_delegate (conn (connected_peer addr2 y vb))) = 0"
    by (rule joined_returned [OF y assms(5)]) (simp add: connected_peer_def Chunker_new_def)
  show "at_rest i (conn (connected_peer addr1 x va))" by (rule connected_at_rest [OF x assms(4)])
  show "at_rest i (conn (connected_peer addr2 y vb))" by (rule connected_at_rest [OF y assms(5)])
qed

lemma connect_both_first:
  assumes "may_connect en a b" and "addresses (sock_info b) \<noteq> []"
    and "closing (sock_handler a) = []" and "closing (sock_handler b) = []"
  obtains p q where "connect_both en i na nb addr1 addr2 a b = Some (p, q)"
    and "connect_both en i nb na addr2 addr1 b a = Some (q, p)"
    and "talking en cdc i 1 0 p q" and "quiet p" and "quiet q"
    and "current_group (vs_delegate (conn p)) = 0" and "current_group (vs_delegate (conn q)) = 0"
    and "at_rest i (conn p)" and "at_rest i (conn q)"
proof -
  obtain x y ca cb ini rsp resp ti tr where calls: "connect_calls en na i (VeqSocket_connection_info b) a = Ok x"
      "connect_calls en nb i (VeqSocket_connection_info a) b = Ok y"
    and start: "agreed en ini rsp resp ti tr" "asking en i na ca ini (addresses (sock_info b)) (asks en i ini) x"
      "poking en i nb cb rsp (addresses (sock_info a)) (pokes en i) y"
    by (rule connect_starts [OF assms(1)]) (simp_all add: unused_def assms(3,4))
  obtain x' y' where x': "(loopback_round en i addr1 addr2 ^^ 3) (x, y) = (x', y')"
      "joined False en i na ca ti tr (asks en i ini) 1 0 x'" "joined False en i nb cb tr ti (replies en i resp) 0 1 y'"
      "returned x' \<noteq> None" "returned y' \<noteq> None"
      "chan_queue (outgoing (rt (state x'))) = []" "chan_queue (outgoing (rt (state y'))) = []"
    by (rule loopback_three [OF start assms(2)])
  obtain va vb where ret: "returned x' = Some (Ok va)" "returned y' = Some (Ok vb)"
    using x'(4,5) joined_returned [OF x'(2)] joined_returned [OF x'(3)] by (metis not_None_eq)
  have "(loopback_round en i addr2 addr1 ^^ 3) (y, x) = (y', x')"
    using x'(1) loopback_swap [of en i addr2 addr1] by (simp add: funpow_three) (metis swap_simp)
  then show ?thesis
    using calls x'(1) ret
    by (intro that [OF _ _ peers_talking [OF start(1) x'(2,3) ret x'(6,7)]]) (simp_all add: connect_both_def)
qed

text \<open>Whoever initiates.\<close>

lemma connect_both_connects:
  assumes "can_join en a b"
  obtains p q k l where "connect_both en i na nb addr1 addr2 a b = Some (p, q)" and "talking en cdc i k l p q"
    and "k \<in> {0, 1}" and "l \<in> {0, 1}" and "quiet p" and "quiet q"
    and "current_group (vs_delegate (conn p)) = 0" and "current_group (vs_delegate (conn q)) = 0"
    and "at_rest i (conn p)" and "at_rest i (conn q)"
proof (cases "may_connect en a b \<and> addresses (sock_info b) \<noteq> []")
  case True
  then have may: "may_connect en a b" "addresses (sock_info b) \<noteq> []" "closing (sock_handler a) = []" "closing (sock_handler b) = []"
    using assms by (simp_all add: can_join_def)
  show ?thesis by (rule connect_both_first [OF may, of i na nb addr1 addr2 cdc]) (rule that, assumption+, simp_all)
next
  case False
  then have "may_connect en b a" "addresses (sock_info a) \<noteq> []" "closing (sock_handler b) = []" "closing (sock_handler a) = []"
    using assms by (auto simp: can_join_def)
  from connect_both_first [OF this, of i nb na addr2 addr1 cdc]
  obtain p q where "connect_both en i na nb addr1 addr2 a b = Some (p, q)" "talking en cdc i 0 1 p q" "quiet p" "quiet q"
      "current_group (vs_delegate (conn p)) = 0" "current_group (vs_delegate (conn q)) = 0"
      "at_rest i (conn p)" "at_rest i (conn q)"
    unfolding talking_sym [of en cdc i 1 0] by blast
  then show ?thesis by (intro that [of p q 0 1]) simp_all
qed

section \<open>The tests\<close>

text \<open>Each test begins with a call of \<open>get_conns\<close>, whose value is the argument \<open>conns\<close>.\<close>

definition test_bidirectional_small ::
    "('b, 'h, 's) env \<Rightarrow> chunked_data codec \<Rightarrow> bool \<Rightarrow> socket_addr \<Rightarrow> socket_addr \<Rightarrow>
       ((queue_socket, 'h, 's) peer \<times> (queue_socket, 'h, 's) peer) option \<Rightarrow> unit option" where
  "test_bidirectional_small en cdc waits addr1 addr2 conns = do {
     (conn1, conn2) \<leftarrow> conns;
     (conn1, conn2) \<leftarrow> test_exchange en cdc waits addr1 [[0, 1, 2, 3]] conn1 conn2;
     test_exchange en cdc waits addr2 [[5, 6, 7, 8]] conn2 conn1;
     Some ()
   }"

definition test_queued_small ::
    "('b, 'h, 's) env \<Rightarrow> chunked_data codec \<Rightarrow> bool \<Rightarrow> socket_addr \<Rightarrow>
       ((queue_socket, 'h, 's) peer \<times> (queue_socket, 'h, 's) peer) option \<Rightarrow> unit option" where
  "test_queued_small en cdc waits addr1 conns = do {
     (conn1, conn2) \<leftarrow> conns;
     test_exchange en cdc waits addr1 [[0, 1, 2, 3], [5, 4, 3, 2], [7, 8, 9, 10]] conn1 conn2;
     Some ()
   }"

definition test_large_payload ::
    "('b, 'h, 's) env \<Rightarrow> chunked_data codec \<Rightarrow> bool \<Rightarrow> socket_addr \<Rightarrow>
       ((queue_socket, 'h, 's) peer \<times> (queue_socket, 'h, 's) peer) option \<Rightarrow> unit option" where
  "test_large_payload en cdc waits addr1 conns = do {
     (conn1, conn2) \<leftarrow> conns;
     let data = map (\<lambda>n. of_nat (n mod 256)) [1 ..< 655350];
     test_exchange en cdc waits addr1 [data] conn1 conn2;
     Some ()
   }"

text \<open>\<open>Arc\<close>: a value with the number of its owners. \<open>clone\<close> makes one more owner of the same value, and \<open>drop\<close> one
  less; the value itself is dropped with the last.\<close>

datatype 'a arc = Arc (arc_strong: nat) (arc_value: 'a)

definition Arc_new :: "'a \<Rightarrow> 'a arc" where
  "Arc_new x = Arc 1 x"

definition Arc_clone :: "'a arc \<Rightarrow> 'a arc" where
  "Arc_clone a = Arc (arc_strong a + 1) (arc_value a)"

definition Arc_drop :: "('a \<Rightarrow> 'a) \<Rightarrow> 'a arc \<Rightarrow> 'a arc" where
  "Arc_drop dtor a = Arc (arc_strong a - 1) (if arc_strong a = 1 then dtor (arc_value a) else arc_value a)"

text \<open>The drop of the handle of a connection: the removal is spawned, and runs.\<close>

definition peer_drops :: "('k, 'h, 's) peer \<Rightarrow> ('k, 'h, 's) peer" where
  "peer_drops p =
     (let st = closer_tick (length (closing (veq_handler (conn p)))) (BidirectionalSession_drop (delegate (vs_delegate (conn p))))
      in p\<lparr>conn := with_handler st (conn p), node := (node p)\<lparr>node_handler := st\<rparr>\<rparr>)"

text \<open>The number of the session behind a connection.\<close>

definition peer_session :: "('k, 'h, 's) peer \<Rightarrow> nat option" where
  "peer_session p = map_option snd (established (veq_handler (conn p)) (bd_id (delegate (vs_delegate (conn p)))))"

text \<open>
  Time passes after one side was dropped: the keepalive task of its session takes a turn, the sending task empties the
  channel, the loopback carries everything to the other side, whose receiving task takes it, and there the heartbeat task takes a turn.
\<close>

definition idle_round ::
    "('b, 'h, 's) env \<Rightarrow> socket_addr \<Rightarrow> nat \<Rightarrow> nat \<Rightarrow> (queue_socket, 'h, 's) peer \<times> (queue_socket, 'h, 's) peer \<Rightarrow>
       ((queue_socket, 'h, 's) peer \<times> (queue_socket, 'h, 's) peer) option" where
  "idle_round en src r1 r2 = (\<lambda>(p, q). do {
     let nd = (node p)\<lparr>node_handler := session_keepalive en r1 (node_handler (node p))\<rparr>;
     let p = p\<lparr>node := send_turns en queue_socket_ops (length (node_queue nd)) nd\<rparr>;
     let (p, q) = carry_over src p q;
     nd \<leftarrow> receive_turns en queue_socket_ops (Suc (length (inbox (node_socket (node q))))) (node q);
     let st = session_heartbeat r2 (node_handler nd);
     Some (p, q\<lparr>conn := with_handler st (conn q), node := nd\<lparr>node_handler := st\<rparr>\<rparr>)
   })"

text \<open>The last lines of two tests: \<open>assert!(conn2.recv().await.is_err())\<close> after the other side was dropped. The call
  waits, and goes on only if its waker was called.\<close>

definition test_disconnected ::
    "('b, 'h, 's) env \<Rightarrow> chunked_data codec \<Rightarrow> socket_addr \<Rightarrow> nat \<Rightarrow>
       (queue_socket, 'h, 's) peer \<Rightarrow> (queue_socket, 'h, 's) peer \<Rightarrow> unit option" where
  "test_disconnected en cdc src r1 conn1 conn2 = do {
     r2 \<leftarrow> peer_session conn2;
     (conn2, at) \<leftarrow> peer_awaits (overflow_checks en) cdc 0 0 conn2;
     (conn1, conn2) \<leftarrow> idle_round en src r1 r2 (conn1, conn2);
     (conn1, conn2) \<leftarrow> idle_round en src r1 r2 (conn1, conn2);
     (_, received) \<leftarrow> peer_resumes (overflow_checks en) cdc 0 0 at conn2;
     (case received of Err _ \<Rightarrow> Some () | _ \<Rightarrow> None)
   }"

definition test_drop_session ::
    "('b, 'h, 's) env \<Rightarrow> chunked_data codec \<Rightarrow> socket_addr \<Rightarrow>
       ((queue_socket, 'h, 's) peer \<times> (queue_socket, 'h, 's) peer) option \<Rightarrow> unit option" where
  "test_drop_session en cdc addr1 conns = do {
     (conn1, conn2) \<leftarrow> conns;
     r1 \<leftarrow> peer_session conn1;
     let alias1 = Arc_drop peer_drops (Arc_new conn1);
     test_disconnected en cdc addr1 r1 (arc_value alias1) conn2
   }"

definition test_no_premature_drop ::
    "('b, 'h, 's) env \<Rightarrow> chunked_data codec \<Rightarrow> bool \<Rightarrow> socket_addr \<Rightarrow> socket_addr \<Rightarrow>
       ((queue_socket, 'h, 's) peer \<times> (queue_socket, 'h, 's) peer) option \<Rightarrow> unit option" where
  "test_no_premature_drop en cdc waits addr1 addr2 conns = do {
     (conn1, conn2) \<leftarrow> conns;
     let alias1 = Arc_clone (Arc_new conn1);
     let alias1 = Arc_drop peer_drops alias1;
     (conn1, conn2) \<leftarrow> test_exchange en cdc waits addr1 [[0, 1, 2, 3]] (arc_value alias1) conn2;
     (conn2, conn1) \<leftarrow> test_exchange en cdc waits addr2 [[5, 6, 7, 8]] conn2 conn1;
     r1 \<leftarrow> peer_session conn1;
     let alias1 = Arc_drop peer_drops (Arc (arc_strong alias1) conn1);
     test_disconnected en cdc addr1 r1 (arc_value alias1) conn2
   }"

lemma length_slice_chunks_bound: "0 < n \<Longrightarrow> n * length (slice_chunks n xs) < length xs + n"
proof (induction n xs rule: slice_chunks.induct)
  case (1 n xs)
  then show ?case by (cases "xs = []"; cases "length xs \<le> n") (auto simp: slice_chunks_step)
qed

lemma queue_logs: "logs_sends queue_socket_ops outbox"
  by (simp add: logs_sends_def queue_socket_ops_def)

text \<open>What an idle round does to the side that stays.\<close>

lemma idle_round_carries:
  assumes "outputs_fit (snow_of en)" and "inbox (node_socket (node q)) = []" and "receiving_runs (node q)" and "outbox (node_socket (node p)) = []"
    and "map fst (List.map_filter (item_datagram en) (chan_queue (outgoing (rt (session_keepalive en r1 (node_handler (node p))))))) = ds"
    and "\<forall>d \<in> set ds. length d \<le> 65536"
    and "st = session_heartbeat r2 (fold (take_in en src) ds (node_handler (node q)))"
  obtains p' q' where "idle_round en src r1 r2 (p, q) = Some (p', q')" and "outbox (node_socket (node p')) = []"
    and "sessions (node_handler (node p')) = sessions (session_keepalive en r1 (node_handler (node p)))"
    and "node_queue (node p') = []"
    and "keypair (node_handler (node p')) = keypair (session_keepalive en r1 (node_handler (node p)))"
    and "chan_open (outgoing (rt (node_handler (node p')))) = chan_open (outgoing (rt (session_keepalive en r1 (node_handler (node p)))))"
    and "inbox (node_socket (node q')) = []" and "receiving_runs (node q')" and "node_handler (node q') = st"
    and "conn q' = with_handler st (conn q)"
proof -
  let ?nd = "(node p)\<lparr>node_handler := session_keepalive en r1 (node_handler (node p))\<rparr>"
  let ?sent = "send_turns en queue_socket_ops (length (node_queue ?nd)) ?nd"
  have drained: "node_queue ?sent = []"
      "outbox (node_socket ?sent) = List.map_filter (item_datagram en) (node_queue ?nd)"
    using send_turns_drain [OF queue_logs, of en ?nd] assms(4) by simp_all
  have ds: "ds = map fst (List.map_filter (item_datagram en) (node_queue ?nd))" using assms(5) by (simp add: node_queue_def)
  let ?p = "p\<lparr>node := ?sent\<lparr>node_socket := (node_socket ?sent)\<lparr>outbox := []\<rparr>\<rparr>\<rparr>"
  let ?q = "q\<lparr>node := (node q)\<lparr>node_socket := (node_socket (node q))\<lparr>inbox := map (\<lambda>d. (d, src)) ds\<rparr>\<rparr>\<rparr>"
  have over: "carry_over src (p\<lparr>node := ?sent\<rparr>) q = (?p, ?q)"
    using assms(2) drained(2) unfolding ds by (simp add: carry_over_def case_prod_beta comp_def)
  have "fold (\<lambda>(d, a) st. fst (Handler_handle_incoming en a (take 65536 d) st)) (map (\<lambda>d. (d, src)) ds) st0
      = fold (take_in en src) ds st0" for st0
    using assms(6) by (induction ds arbitrary: st0) (simp_all add: take_in_def)
  then have turns: "receive_turns en queue_socket_ops (Suc (length (inbox (node_socket (node ?q))))) (node ?q)
      = Some ((node ?q)\<lparr>node_socket := (node_socket (node ?q))\<lparr>inbox := []\<rparr>,
          node_handler := fold (take_in en src) ds (node_handler (node q))\<rparr>)"
    using queue_turns [OF assms(1), of "node ?q"] assms(3) by (simp del: receive_turns.simps)
  have "sessions (node_handler ?sent) = sessions (session_keepalive en r1 (node_handler (node p)))"
      "keypair (node_handler ?sent) = keypair (session_keepalive en r1 (node_handler (node p)))"
      "chan_open (outgoing (rt (node_handler ?sent))) = chan_open (outgoing (rt (session_keepalive en r1 (node_handler (node p)))))"
    using send_turns_handler [of en queue_socket_ops "length (node_queue ?nd)" ?nd] by simp_all
  moreover have "idle_round en src r1 r2 (p, q) = Some (?p, q\<lparr>conn := with_handler st (conn q), node :=
      (node ?q)\<lparr>node_socket := (node_socket (node ?q))\<lparr>inbox := []\<rparr>, node_handler := st\<rparr>\<rparr>)"
    using turns over unfolding assms(7) by (simp add: idle_round_def Let_def del: receive_turns.simps)
  ultimately show ?thesis using that drained(1) assms(3) by (simp add: node_queue_def)
qed

text \<open>The side whose handle is dropped sends one more datagram.\<close>

lemma peer_drops_sends:
  assumes "handler_codecs en" and "can_send en b i k (conn p)" and "k \<noteq> u64_max" and "quiet p"
    and node: "node_handler (node p) = veq_handler (conn p)"
  obtains r d s1 where "peer_session p = Some r" and "wire_message en b i k Keepalive d" and "length d \<le> 65536"
    and "map fst (List.map_filter (item_datagram en)
          (chan_queue (outgoing (rt (session_keepalive en r (node_handler (node (peer_drops p)))))))) = [d]"
    and "sessions (session_keepalive en r (node_handler (node (peer_drops p)))) r = Some s1" and "\<not> keepalive_runs s1"
    and "outbox (node_socket (node (peer_drops p))) = []"
proof -
  let ?v = "delegate (vs_delegate (conn p))" and ?st = "node_handler (node (peer_drops p))"
  obtain s n r where s: "established_at i s n r (bd_handler ?v)" "can_transmit en s" "sess_id s = i" "bd_one_time_id ?v = n"
      "noise_pair (snow_of en) (stateless (transport s)) b" "next_nonce (transport s) = k" "chan_open (outgoing (rt (bd_handler ?v)))"
      "bd_id ?v = i"
    using assms(2) unfolding can_send_def veq_handler_def by blast
  have quiet: "chan_queue (outgoing (rt (bd_handler ?v))) = []" "outbox (node_socket (node (peer_drops p))) = []"
    using assms(4) node by (simp_all add: quiet_def node_queue_def veq_handler_def peer_drops_def Let_def)
  have st: "?st = closer_tick (length (closing (bd_handler ?v))) (BidirectionalSession_drop ?v)"
    by (simp add: peer_drops_def veq_handler_def Let_def)
  have max: "next_nonce (transport s) \<noteq> u64_max" using s(6) assms(3) by simp
  obtain x d s1 where x: "serialize (packet_codec en) x = Inr d" "wire_message en b i (next_nonce (transport s)) Keepalive d"
      "chan_queue (outgoing (rt ?st)) = chan_queue (outgoing (rt (bd_handler ?v)))"
      "\<forall>m. chan_queue (outgoing (rt ((session_keepalive en r ^^ Suc m) ?st)))
        = chan_queue (outgoing (rt (bd_handler ?v))) @ [(remote_addr s, x, 64)]" "length d \<le> 65536"
      "sessions (session_keepalive en r ?st) r = Some s1" "\<not> keepalive_runs s1"
    by (rule dropped_sends_once [OF assms(1) s(1,8,4,2,3) max s(5,7) st])
  have "chan_queue (outgoing (rt (session_keepalive en r ?st))) = [(remote_addr s, x, 64)]"
    using x(4) [THEN spec, of 0] quiet(1) by simp
  then show ?thesis
    using s(1,6,8) x(1,2,5-7) quiet(2)
    by (intro that [of r d s1]) (simp_all add: peer_session_def veq_handler_def established_at_def map_filter_simps item_datagram_def)
qed

text \<open>The other side finds out within two turns of its heartbeat task.\<close>

lemma drop_disconnects:
  assumes "handler_codecs en" and "outputs_fit (snow_of en)" and talk: "talking en cdc i k l p q" and "quiet p" and "quiet q"
    and "k \<noteq> u64_max"
  obtains r1 where "peer_session p = Some r1" and "test_disconnected en cdc src r1 (peer_drops p) q = Some ()"
proof -
  obtain b t0 m z where b: "can_send en b i k (conn p)" "can_receive cdc b i k (current_group (vs_delegate (conn p))) (conn q)"
    and t0: "established_at i t0 m z (veq_handler (conn q))" "fresh_below b k (transport t0)" "bd_id (delegate (vs_delegate (conn q))) = i"
    using talk unfolding talking_def connected_ends_def can_receive_def by blast
  have beats: "heartbeat_runs t0"
    using talk established_at_unique [OF t0(1)] unfolding talking_def connected_ends_def can_send_def by blast
  have nodes: "node_handler (node p) = veq_handler (conn p)" "receiving_runs (node q)" "inbox (node_socket (node q)) = []"
    using talk assms(5) by (simp_all add: talking_def quiet_def)
  obtain v t where awaits: "peer_awaits (overflow_checks en) cdc 0 0 q = Some (q\<lparr>conn := v, node := (node q)\<lparr>node_handler := veq_handler v\<rparr>\<rparr>,
      z, Receiving 0, length (woken (rt (veq_handler v))))"
    and t: "established_at i t m z (veq_handler v)" "(0, 0) \<in> set (wakers t)" "completed_chunks (vs_delegate v) = []"
      "transport t = transport t0" "outward t = outward t0"
    by (rule peer_waits [OF b(2) t0(1)])
  let ?q = "q\<lparr>conn := v, node := (node q)\<lparr>node_handler := veq_handler v\<rparr>\<rparr>"
  have q: "receiving_runs (node ?q)" "inbox (node_socket (node ?q)) = []" "fresh_below b k (transport t)" "heartbeat_runs t"
    using nodes(2,3) t0(2) t(4,5) beats by (simp_all add: outward_def)
  obtain r d s1 where r: "peer_session p = Some r" "wire_message en b i k Keepalive d" "length d \<le> 65536"
      "map fst (List.map_filter (item_datagram en)
          (chan_queue (outgoing (rt (session_keepalive en r (node_handler (node (peer_drops p)))))))) = [d]"
      "sessions (session_keepalive en r (node_handler (node (peer_drops p)))) r = Some s1" "\<not> keepalive_runs s1"
      "outbox (node_socket (node (peer_drops p))) = []"
    by (rule peer_drops_sends [OF assms(1) b(1) assms(6,4) nodes(1)])
  obtain st1 lt where st1: "Handler_handle_incoming en src d (veq_handler v) = (st1, Ok ())"
      "established_at i (t\<lparr>transport := lt, heartbeat := True\<rparr>) m z st1"
    by (rule established_receives [OF t(1) q(3) assms(6) r(2), of src]) (simp add: taken_in_def)
  obtain ws where ws: "woken (rt st1) = woken (rt (veq_handler v)) @ ws"
    using take_in_wakes [OF r(2) t(1), of src] st1(1) by (auto simp: take_in_def)
  let ?st1 = "session_heartbeat z st1" and ?st2 = "session_heartbeat z (session_heartbeat z st1)"
  let ?t2 = "fst (heartbeat_tick (t\<lparr>transport := lt, heartbeat := False\<rparr>))"
  have t2: "sessions ?st2 z = Some ?t2" "dead ?t2" "woken (rt ?st2) = woken (rt (veq_handler v)) @ ws @ map snd (wakers t)"
    using st1(2) q(4) ws by (simp_all add: session_heartbeat_def heartbeat_tick_def established_at_def wake_def)
  obtain p1 q1 where one: "idle_round en src r z (peer_drops p, ?q) = Some (p1, q1)" "outbox (node_socket (node p1)) = []"
      "sessions (node_handler (node p1)) = sessions (session_keepalive en r (node_handler (node (peer_drops p))))"
      "node_queue (node p1) = []"
      "keypair (node_handler (node p1)) = keypair (session_keepalive en r (node_handler (node (peer_drops p))))"
      "chan_open (outgoing (rt (node_handler (node p1))))
        = chan_open (outgoing (rt (session_keepalive en r (node_handler (node (peer_drops p))))))"
      "inbox (node_socket (node q1)) = []" "receiving_runs (node q1)" "node_handler (node q1) = ?st1"
      "conn q1 = with_handler ?st1 (conn ?q)"
    by (rule idle_round_carries [OF assms(2) q(2,1) r(7,4), of ?st1 z src])
      (use r(3) st1(1) in \<open>simp_all add: take_in_def\<close>)
  have "session_keepalive en r (node_handler (node p1)) = node_handler (node p1)"
    using stopped_keepalive [where en = en and n = 1] one(3) r(5,6) by simp
  then have still: "map fst (List.map_filter (item_datagram en)
      (chan_queue (outgoing (rt (session_keepalive en r (node_handler (node p1))))))) = []"
    using one(4) by (simp add: node_queue_def map_filter_simps)
  obtain p2 q2 where two: "idle_round en src r z (p1, q1) = Some (p2, q2)" "node_handler (node q2) = ?st2"
      "conn q2 = with_handler ?st2 (conn q1)"
    by (rule idle_round_carries [OF assms(2) one(7,8,2) still, of ?st2 z src]) (simp, simp add: one(9), rule that)
  have "\<exists>q'. peer_resumes (overflow_checks en) cdc 0 0 (z, Receiving 0, length (woken (rt (veq_handler v)))) q2 = Some (q', Err Disconnected)"
    by (rule peer_resumes_dead [of _ _ _ _ ?t2]) (use t2 t(2,3) one(10) two(2,3) in force)+
  then have "test_disconnected en cdc src r (peer_drops p) q = Some ()"
    using t0(1,3) awaits one(1) two(1) by (auto simp: test_disconnected_def peer_session_def established_at_def)
  with r(1) show ?thesis by (rule that)
qed

text \<open>The first message of four bytes over a new connection.\<close>

lemma short_exchange:
  assumes "handler_codecs en" and "codec_ok chunk_fits cdc" and "chunk_sizes cdc" and "outputs_fit (snow_of en)"
    and "talking en cdc i k l p q" and "quiet p" and "quiet q" and "current_group (vs_delegate (conn p)) = 0" and "k \<in> {0, 1}"
    and "length m = 4" and "at_rest i (conn q)"
  obtains p' q' k' where "test_exchange en cdc waits src [m] p q = Some (p', q')" and "talking en cdc i k' l p' q'"
    and "quiet p'" and "quiet q'" and "k' \<noteq> u64_max" and "current_group (vs_delegate (conn q')) = current_group (vs_delegate (conn q))"
    and "at_rest i (conn p) \<longrightarrow> at_rest i (conn p')"
proof -
  have "m \<noteq> []" using assms(10) by auto
  then have m: "m \<noteq> []" "slice_chunks 4096 m = [m]" using assms(10) by (simp_all add: slice_chunks_step)
  have k: "unat k \<le> 1" "k + 1 \<noteq> u64_max" using assms(9) by auto
  obtain p' q' k' where "test_exchange en cdc waits src [m] p q = Some (p', q')" "talking en cdc i k' l p' q'" "quiet p'" "quiet q'"
      "current_group (vs_delegate (conn q')) = current_group (vs_delegate (conn q))" "k' = k + 1"
      "at_rest i (conn p) \<longrightarrow> at_rest i (conn p')"
    by (rule test_exchange_passes [OF assms(1-7), of "[m]" waits src]) (use assms(8,10,11) m k(1) in \<open>simp_all add: in_memory_def\<close>)
  with k(2) show ?thesis by (intro that [of p' q' k']) simp_all
qed

section \<open>Properties\<close>


text \<open>Sockets that open.\<close>

definition test_udp :: "queue_socket udp" where
  "test_udp = demo_udp\<lparr>parse_addr := (\<lambda>s. if s = ''0.0.0.0:0'' then Some (SocketAddrV4 0 0)
     else if s = ''[::]:0'' then Some (SocketAddrV6 0 0 0 0) else None)\<rparr>"

definition opened :: "bytes \<Rightarrow> socket_addr list \<Rightarrow> (unit, u8) veq_socket" where
  "opened k addrs = (let kp = SnowKeypair (SnowPublicKey k) (SnowPrivateKey k)
     in \<lparr>sock_info = \<lparr>addresses = addrs, public_key = SnowPublicKey k\<rparr>, sock_keypair = kp, sock_handler = Handler_new kp\<rparr>)"

lemma from_socket_opened:
  "discover_ips os md ans k = Inr addrs \<Longrightarrow>
     \<exists>nd. from_socket os md ans k (SnowKeypair (SnowPublicKey key) (SnowPrivateKey key)) = Ok (opened key addrs, nd)"
  by (simp add: from_socket_def question_def Let_def opened_def)

lemma opened_join:
  assumes "addrs2 \<noteq> []"
  shows "can_join (layout_env tag_snow) (opened [1] addrs1) (opened [9] addrs2)"
  using demo_may_connect assms
  by (simp add: can_join_def may_connect_def demo_socket_def opened_def Handler_new_def Let_def del: build_with.simps)

lemma test_udp_sel:
  "parse_addr test_udp ''0.0.0.0:0'' = Some (SocketAddrV4 0 0)" "parse_addr test_udp ''[::]:0'' = Some (SocketAddrV6 0 0 0 0)"
  "udp_bind test_udp a = Inr (demo_queue a [])" "udp_local_addr test_udp u = Inr (bound_to u)"
  by (simp_all add: test_udp_def demo_udp_def)

lemmas discovery_defs = discover_ips_def discover_v4_def discover_v6_def versioned_dual_def
  demo_queue_def demo_answers_def demo_interfaces_def local_ips_v4_def local_ips_v6_def public_v4_def public_v6_def
  hs_collect_def hs_extend_def hs_insert_def hs_retain_def map_filter_def

lemma tag_keypair: "SnowKeypair_new tag_snow seed = Ok (SnowKeypair (SnowPublicKey seed) (SnowPrivateKey seed))"
  by (simp add: SnowKeypair_new_def snow_builder_def unwrap_result_def question_def tag_snow_def)

lemma test_bind:
  obtains addrs nd where "VeqSocket_bind tag_snow seed test_udp demo_answers ''0.0.0.0:0'' = Ok (opened seed addrs, nd)"
    and "addrs \<noteq> []"
proof -
  have "discover_ips test_udp versioned_dual demo_answers (SockV4 (demo_queue (SocketAddrV4 0 0) [])) =
      Inr [SocketAddrV4 0x7F000001 0, SocketAddrV4 0x0A000002 0, SocketAddrV4 0x05060708 4000]"
    by (simp add: discovery_defs test_udp_sel)
  from from_socket_opened [OF this, of seed] that show ?thesis
    by (auto simp: VeqSocket_bind_def VersionedSocket_bind_def VersionedSocket_v4_def question_def tag_keypair test_udp_sel)
qed

lemma test_dualstack:
  obtains addrs nd where
    "VeqSocket_dualstack tag_snow seed test_udp demo_answers ''0.0.0.0:0'' ''[::]:0'' = Ok (opened seed addrs, nd)"
proof -
  obtain addrs where "discover_ips test_udp (dual_maybe_dual versioned_dual) demo_answers
      (DualSocket_new (SockV4 (demo_queue (SocketAddrV4 0 0) [])) (SockV6 (demo_queue (SocketAddrV6 0 0 0 0) []))) = Inr addrs"
    by (simp add: discovery_defs test_udp_sel dual_maybe_dual_def DualSocket_new_def)
  from from_socket_opened [OF this, of seed] that show ?thesis
    by (auto simp: VeqSocket_dualstack_def dualstack_with_keypair_def DualSocket_dualstack_def parse_family_def
        VersionedSocket_v4_def VersionedSocket_v6_def question_def tag_keypair test_udp_sel)
qed


end
