(* ===== verification/Cli.thy ===== *)
theory Cli
  imports Veq
begin

text \<open>
  \<open>src/src/bin.rs\<close>: the command line program. It prints the connection information of its socket
  as a string, reads the peer's string, connects, and then moves lines from standard input into the
  session and messages from the session to standard output. Compression, Base64 and the
  serialisation are parameters, the record \<open>cli\<close>; every \<open>unwrap\<close> is a panic.
\<close>

section \<open>Data\<close>

record args =
  port :: u64

record connection_data =
  conn_id :: uuid
  conn_info :: connection_info

record cli =
  data_codec :: "connection_data codec"
  copy_encode :: "bytes \<Rightarrow> io_error + bytes"
  copy_decode :: "bytes \<Rightarrow> io_error + bytes"
  base64_encode :: "bytes \<Rightarrow> string"
  base64_decode :: "string \<Rightarrow> string + bytes"

section \<open>The steps of main\<close>

text \<open>\<open>format!("0.0.0.0:{}", args.port)\<close>\<close>

fun decimal :: "nat \<Rightarrow> string" where
  "decimal n =
     (if n < 10 then [char_of (48 + n)] else decimal (n div 10) @ [char_of (48 + n mod 10)])"

declare decimal.simps [simp del]

definition bind_address :: "args \<Rightarrow> string" where
  "bind_address a = ''0.0.0.0:'' @ decimal (unat (port a))"

text \<open>\<open>Result::unwrap\<close>\<close>

fun unwrap_res :: "('a, 'e) res \<Rightarrow> ('a, unit) res" where
  "unwrap_res (Ok a) = Ok a"
| "unwrap_res (Err _) = Panic UnwrapErr"
| "unwrap_res (Panic p) = Panic p"

definition main_bind ::
    "('b, 'h, 's) snow \<Rightarrow> bytes \<Rightarrow> 'u udp \<Rightarrow> 'u answers \<Rightarrow> args \<Rightarrow>
       (('h, 's) veq_socket \<times> ('u versioned_socket, 'h, 's) node, unit) res" where
  "main_bind sn seed os ans a = unwrap_res (VeqSocket_bind sn seed os ans (bind_address a))"

text \<open>The string printed for the peer.\<close>

definition connection_string :: "cli \<Rightarrow> ('h, 's) veq_socket \<Rightarrow> (string, unit) res" where
  "connection_string cl sock =
     (case unwrap_result (serialize (data_codec cl)
             \<lparr>conn_id = 0, conn_info = VeqSocket_connection_info sock\<rparr>) of
        Ok serialized \<Rightarrow>
          (case unwrap_result (copy_encode cl serialized) of
             Ok compressed \<Rightarrow> Ok (base64_encode cl compressed)
           | Err e \<Rightarrow> Err e
           | Panic p \<Rightarrow> Panic p)
      | Err e \<Rightarrow> Err e
      | Panic p \<Rightarrow> Panic p)"

text \<open>\<open>BufRead::read_line\<close>: everything up to and with the first line break, or up to the end of the
  input, and what is left of the input.\<close>

fun read_line :: "string \<Rightarrow> string \<times> string" where
  "read_line [] = ([], [])"
| "read_line (c # cs) =
     (if c = CHR 0x0A then ([c], cs) else case read_line cs of (line, rest) \<Rightarrow> (c # line, rest))"

text \<open>What is made of the line that the user enters. The argument is what standard input holds, or the
  failure to read it.\<close>

definition strip_line :: "string \<Rightarrow> string" where
  "strip_line line = filter (\<lambda>c. c \<noteq> CHR 0x0A \<and> c \<noteq> CHR '' '') line"

definition peer_data :: "cli \<Rightarrow> io_error + string \<Rightarrow> (connection_data, unit) res" where
  "peer_data cl stdin =
     (case unwrap_result stdin of
        Ok input \<Rightarrow>
          (case unwrap_result (base64_decode cl (strip_line (fst (read_line input)))) of
             Ok compressed \<Rightarrow>
               (case unwrap_result (copy_decode cl compressed) of
                  Ok serialized \<Rightarrow> unwrap_result (deserialize (data_codec cl) serialized)
                | Err e \<Rightarrow> Err e
                | Panic p \<Rightarrow> Panic p)
           | Err e \<Rightarrow> Err e
           | Panic p \<Rightarrow> Panic p)
      | Err e \<Rightarrow> Err e
      | Panic p \<Rightarrow> Panic p)"

definition main_connect ::
    "('b, 'h, 's) env \<Rightarrow> uuid \<Rightarrow> connection_data \<Rightarrow> ('h, 's) veq_socket \<Rightarrow>
       ('h, 's) veq_socket \<times> (session_ready, unit) res" where
  "main_connect en fresh peer sock =
     (case connect_start en fresh (conn_id peer) (conn_info peer) sock of
        (sock1, r) \<Rightarrow> (sock1, unwrap_res r))"

definition main_connected ::
    "waker \<Rightarrow> session_ready \<Rightarrow> ('h, 's) veq_socket \<Rightarrow>
       session_ready \<times> ('h, 's) veq_socket \<times> (('h, 's) veq_session_alias, unit) res poll" where
  "main_connected w sr sock =
     (case connect_poll w sr sock of
        (sr1, sock1, Ready r) \<Rightarrow> (sr1, sock1, Ready (unwrap_res r))
      | (sr1, sock1, Pending) \<Rightarrow> (sr1, sock1, Pending))"

text \<open>One turn of the printing task: \<open>None\<close> while \<open>recv\<close> waits. The output is what was written to
  standard output; \<open>println!\<close> ends the line.\<close>

definition print_turn ::
    "'t bidir_recv \<Rightarrow> 't veq_session \<times> bytes \<Rightarrow> ('t veq_session \<times> bytes \<times> (unit, unit) res) option" where
  "print_turn drecv x =
     (case x of (conn, out) \<Rightarrow>
        (case VeqSession_recv drecv conn of
           None \<Rightarrow> None
         | Some (conn1, r) \<Rightarrow>
             (case unwrap_res r of
                Ok received \<Rightarrow> Some (conn1, out @ received @ [10], Ok ())
              | Err e \<Rightarrow> Some (conn1, out, Err e)
              | Panic p \<Rightarrow> Some (conn1, out, Panic p))))"

text \<open>The loop over the lines of standard input; a line that is not valid UTF-8 or cannot be read
  (\<open>Inl\<close>) panics.\<close>

fun send_lines ::
    "'t bidir_send \<Rightarrow> 't veq_session \<Rightarrow> (io_error + bytes) list \<Rightarrow> 't veq_session \<times> (unit, unit) res" where
  "send_lines dsend conn [] = (conn, Ok ())"
| "send_lines dsend conn (line # rest) =
     (case unwrap_result line of
        Ok data \<Rightarrow>
          (case VeqSession_send dsend conn data of
             (conn1, r) \<Rightarrow>
               (case unwrap_res r of
                  Ok _ \<Rightarrow> send_lines dsend conn1 rest
                | Err e \<Rightarrow> (conn1, Err e)
                | Panic p \<Rightarrow> (conn1, Panic p)))
      | Err e \<Rightarrow> (conn, Err e)
      | Panic p \<Rightarrow> (conn, Panic p))"

section \<open>What is assumed of the packages\<close>

text \<open>
  Each decoder inverts its encoder on what the program encodes, and the Base64 alphabet has
  neither a space nor a line break. A serialised \<open>SocketAddrV6\<close> is only its address and its
  port, so the values to exchange have no flow information and no scope.
\<close>

fun portable_addr :: "socket_addr \<Rightarrow> bool" where
  "portable_addr (SocketAddrV4 _ _) = True"
| "portable_addr (SocketAddrV6 _ _ fl sc) \<longleftrightarrow> fl = 0 \<and> sc = 0"

definition portable_info :: "connection_info \<Rightarrow> bool" where
  "portable_info info \<longleftrightarrow>
     in_memory (addresses info) \<and> (\<forall>a \<in> set (addresses info). portable_addr a)
     \<and> (case public_key info of SnowPublicKey k \<Rightarrow> in_memory k)"

definition cli_formats :: "cli \<Rightarrow> bool" where
  "cli_formats cl \<longleftrightarrow>
     codec_ok (portable_info \<circ> conn_info) (data_codec cl)
     \<and> (\<forall>b. \<exists>c. copy_encode cl b = Inr c \<and> copy_decode cl c = Inr b)
     \<and> (\<forall>b. base64_decode cl (base64_encode cl b) = Inr b
        \<and> CHR 0x0A \<notin> set (base64_encode cl b) \<and> CHR '' '' \<notin> set (base64_encode cl b))"

lemma connection_string_Ok:
  assumes "cli_formats cl" and "portable_info (VeqSocket_connection_info sock)"
  obtains c b where "connection_string cl sock = Ok (base64_encode cl c)"
    and "copy_decode cl c = Inr b"
    and "deserialize (data_codec cl) b = Inr \<lparr>conn_id = 0, conn_info = VeqSocket_connection_info sock\<rparr>"
proof -
  let ?d = "\<lparr>conn_id = 0, conn_info = VeqSocket_connection_info sock\<rparr>"
  have "(portable_info \<circ> conn_info) ?d" using assms(2) by simp
  then obtain b where b: "serialize (data_codec cl) ?d = Inr b" "deserialize (data_codec cl) b = Inr ?d"
    using assms(1) unfolding cli_formats_def by (metis codec_okE)
  moreover obtain c where "copy_encode cl b = Inr c" "copy_decode cl c = Inr b"
    using assms(1) unfolding cli_formats_def by blast
  ultimately show ?thesis
    using that [of c b] by (simp add: connection_string_def unwrap_result_def)
qed

text \<open>The user has entered the string, with spaces anywhere; after it the input ends or a line break
  comes, and then anything.\<close>

definition entered :: "string \<Rightarrow> string \<Rightarrow> bool" where
  "entered s input \<longleftrightarrow>
     (\<exists>line rest. input = line @ rest \<and> filter (\<lambda>c. c \<noteq> CHR '' '') line = s
        \<and> (rest = [] \<or> hd rest = CHR 0x0A))"

lemma read_line_break:
  assumes "CHR 0x0A \<notin> set line" and "rest = [] \<or> hd rest = CHR 0x0A"
  shows "read_line (line @ rest) = (line @ take 1 rest, drop 1 rest)"
  using assms by (induction line) (cases rest; auto)+

lemma strip_entered:
  assumes "entered s input" and "CHR 0x0A \<notin> set s"
  shows "strip_line (fst (read_line input)) = s"
proof -
  obtain line rest where i: "input = line @ rest" "filter (\<lambda>c. c \<noteq> CHR '' '') line = s"
      "rest = [] \<or> hd rest = CHR 0x0A"
    using assms(1) by (auto simp: entered_def)
  have line: "CHR 0x0A \<notin> set line" using assms(2) i(2) by auto
  then have "strip_line line = s"
    unfolding strip_line_def i(2) [symmetric] by (intro filter_cong) auto
  moreover have "strip_line (take 1 rest) = []" using i(3) by (cases rest) (auto simp: strip_line_def)
  ultimately show ?thesis using read_line_break [OF line i(3)] i(1) by (simp add: strip_line_def)
qed

lemma peer_data_of_string:
  assumes "cli_formats cl" and "portable_info (VeqSocket_connection_info sock)"
    and "connection_string cl sock = Ok s" and "entered s input"
  shows "peer_data cl (Inr input) = Ok \<lparr>conn_id = 0, conn_info = VeqSocket_connection_info sock\<rparr>"
proof -
  obtain c b where cb: "connection_string cl sock = Ok (base64_encode cl c)" "copy_decode cl c = Inr b"
      "deserialize (data_codec cl) b = Inr \<lparr>conn_id = 0, conn_info = VeqSocket_connection_info sock\<rparr>"
    by (rule connection_string_Ok [OF assms(1,2)])
  have "CHR 0x0A \<notin> set (base64_encode cl c)" using assms(1) by (simp add: cli_formats_def)
  then have "strip_line (fst (read_line input)) = base64_encode cl c"
    using strip_entered [OF assms(4)] assms(3) cb(1) by simp
  moreover have "base64_decode cl (base64_encode cl c) = Inr c"
    using assms(1) by (simp add: cli_formats_def)
  ultimately show ?thesis using cb(2,3) by (simp add: peer_data_def unwrap_result_def)
qed

section \<open>Concrete formats\<close>

fun put_addr :: "socket_addr \<Rightarrow> bytes" where
  "put_addr (SocketAddrV4 ip p) = put_u32 0 @ put_u32 ip @ put_le 2 (unat p)"
| "put_addr (SocketAddrV6 ip p _ _) = put_u32 1 @ put_u128 ip @ put_le 2 (unat p)"

definition take_addr :: "socket_addr reader" where
  "take_addr bs =
     Option.bind (take_u32 bs) (\<lambda>(v, r).
       if v = 0
       then Option.bind (take_u32 r) (\<lambda>(ip, r).
              map_option (\<lambda>(p, r). (SocketAddrV4 ip (of_nat p), r)) (take_le 2 r))
       else Option.bind (take_u128 r) (\<lambda>(ip, r).
              map_option (\<lambda>(p, r). (SocketAddrV6 ip (of_nat p) 0 0, r)) (take_le 2 r)))"

fun take_addrs :: "nat \<Rightarrow> socket_addr list reader" where
  "take_addrs 0 bs = Some ([], bs)"
| "take_addrs (Suc n) bs =
     Option.bind (take_addr bs) (\<lambda>(a, r). map_option (\<lambda>(as, r). (a # as, r)) (take_addrs n r))"

fun put_data :: "connection_data \<Rightarrow> bytes" where
  "put_data d =
     put_u128 (conn_id d) @ put_u64 (of_nat (length (addresses (conn_info d))))
     @ concat (map put_addr (addresses (conn_info d)))
     @ (case public_key (conn_info d) of SnowPublicKey k \<Rightarrow> put_bytes k)"

definition take_data :: "connection_data reader" where
  "take_data bs =
     Option.bind (take_u128 bs) (\<lambda>(i, r). Option.bind (take_u64 r) (\<lambda>(n, r).
     Option.bind (take_addrs (unat n) r) (\<lambda>(as, r). map_option (\<lambda>(k, r).
       (\<lparr>conn_id = i, conn_info = \<lparr>addresses = as, public_key = SnowPublicKey k\<rparr>\<rparr>, r)) (take_bytes r))))"

lemma take_put_addr: "portable_addr a \<Longrightarrow> take_addr (put_addr a @ r) = Some (a, r)"
proof -
  have "take_le 2 (put_le 2 (unat (p :: u16)) @ r) = Some (unat p, r)" for p
    using unat_less_exp [of p] by (intro take_le_put_le) simp
  then show "portable_addr a \<Longrightarrow> take_addr (put_addr a @ r) = Some (a, r)"
    by (cases a) (simp_all add: take_addr_def)
qed

lemma take_put_addrs:
  "\<forall>a \<in> set as. portable_addr a \<Longrightarrow>
     take_addrs (length as) (concat (map put_addr as) @ r) = Some (as, r)"
  by (induction as) (simp_all add: take_put_addr)

lemma take_put_data: "portable_info (conn_info d) \<Longrightarrow> take_data (put_data d) = Some (d, [])"
proof -
  assume d: "portable_info (conn_info d)"
  obtain k where k: "public_key (conn_info d) = SnowPublicKey k" by (cases "public_key (conn_info d)")
  have "unat (of_nat (length (addresses (conn_info d))) :: u64) = length (addresses (conn_info d))"
    using d by (intro unat_of_nat_u64) (simp add: portable_info_def in_memory_def)
  moreover have "take_addrs (length (addresses (conn_info d)))
      (concat (map put_addr (addresses (conn_info d))) @ put_bytes k) = Some (addresses (conn_info d), put_bytes k)"
    using d by (intro take_put_addrs) (simp add: portable_info_def)
  ultimately show ?thesis
    using d k by (simp add: take_data_def portable_info_def)
qed

text \<open>Two letters for each byte instead of Base64, and no compression.\<close>

fun letters :: "bytes \<Rightarrow> string" where
  "letters [] = []"
| "letters (b # bs) = char_of (65 + unat b div 16) # char_of (65 + unat b mod 16) # letters bs"

fun unletters :: "string \<Rightarrow> string + bytes" where
  "unletters [] = Inr []"
| "unletters [_] = Inl ''odd length''"
| "unletters (x # y # cs) =
     (case unletters cs of
        Inl e \<Rightarrow> Inl e
      | Inr bs \<Rightarrow> Inr (of_nat (16 * (of_char x - 65) + (of_char y - 65)) # bs))"

definition demo_cli :: cli where
  "demo_cli =
     \<lparr>data_codec = layout_codec put_data take_data, copy_encode = Inr, copy_decode = Inr,
      base64_encode = letters, base64_decode = unletters\<rparr>"

lemma letters_in: "c \<in> set (letters bs) \<Longrightarrow> 65 \<le> (of_char c :: nat)"
proof (induction bs)
  case (Cons b bs)
  have "unat b div 16 < 16" using unat_less_exp [of b] by simp
  with Cons show ?case by auto
qed simp

lemma unletters_letters: "unletters (letters bs) = Inr bs"
proof (induction bs)
  case (Cons b bs)
  have "unat b div 16 < 16" using unat_less_exp [of b] by simp
  then have "of_nat (16 * (of_char (char_of (65 + unat b div 16) :: char) - 65)
      + (of_char (char_of (65 + unat b mod 16) :: char) - 65)) = b"
    by simp
  with Cons show ?case by simp
qed simp

lemma demo_cli_formats: "cli_formats demo_cli"
proof -
  have "codec_ok (portable_info \<circ> conn_info) (data_codec demo_cli)"
    unfolding demo_cli_def by simp (rule layout_codec_ok, simp add: take_put_data del: put_data.simps)
  moreover have "CHR 0x0A \<notin> set (letters b)" "CHR '' '' \<notin> set (letters b)" for b
    using letters_in [of "CHR 0x0A" b] letters_in [of "CHR '' ''" b] by auto
  ultimately show ?thesis
    by (simp add: cli_formats_def demo_cli_def unletters_letters)
qed

section \<open>Properties\<close>

text \<open>C23 (roundtrip). Two users exchange their strings and each enters the other's, with spaces
  anywhere in it, and with the end of the input or a line break after it, whatever follows the line
  break. Each program gets from it exactly the connection information of the other's socket, under
  the identifier 0 that both use, so both connect under the same identifier; and when the two keys
  differ exactly one of them initiates, as the handshake needs.\<close>

theorem strings_exchanged:
  assumes "cli_formats cl" and "portable_info (sock_info a)" and "portable_info (sock_info b)"
    and "connection_string cl a = Ok sa" and "connection_string cl b = Ok sb"
    and "entered sb input_at_a" and "entered sa input_at_b"
  shows "\<exists>for_a for_b. peer_data cl (Inr input_at_a) = Ok for_a \<and> peer_data cl (Inr input_at_b) = Ok for_b
    \<and> conn_info for_a = VeqSocket_connection_info b \<and> conn_info for_b = VeqSocket_connection_info a
    \<and> conn_id for_a = conn_id for_b
    \<and> (is_initiator a (conn_info for_a) = is_initiator b (conn_info for_b)) =
        (public_key (sock_info a) = public_key (sock_info b))"
proof -
  have "peer_data cl (Inr input_at_a) = Ok \<lparr>conn_id = 0, conn_info = VeqSocket_connection_info b\<rparr>"
    "peer_data cl (Inr input_at_b) = Ok \<lparr>conn_id = 0, conn_info = VeqSocket_connection_info a\<rparr>"
    using peer_data_of_string [OF assms(1) _ assms(5,6)] peer_data_of_string [OF assms(1) _ assms(4,7)]
      assms(2,3) by (simp_all add: VeqSocket_connection_info_def)
  moreover have "(public_key (sock_info a) < public_key (sock_info b)) =
      (public_key (sock_info b) < public_key (sock_info a)) \<longleftrightarrow>
      public_key (sock_info a) = public_key (sock_info b)"
    by (auto simp: not_less_iff_gr_or_eq)
  ultimately show ?thesis
    by (simp add: is_initiator_def VeqSocket_connection_info_def)
qed

definition cli_socket :: "bytes \<Rightarrow> (unit, u8) veq_socket" where
  "cli_socket k =
     \<lparr>sock_info = \<lparr>addresses = [SocketAddrV4 1 2], public_key = SnowPublicKey k\<rparr>,
      sock_keypair = SnowKeypair (SnowPublicKey k) (SnowPrivateKey k),
      sock_handler = Handler_new (SnowKeypair (SnowPublicKey k) (SnowPrivateKey k))\<rparr>"

theorem strings_exchanged_witness:
  "\<exists>sa sb for_a for_b. connection_string demo_cli (cli_socket [1]) = Ok sa
    \<and> connection_string demo_cli (cli_socket [2]) = Ok sb
    \<and> peer_data demo_cli (Inr (sb @ [CHR 0x0A, CHR ''x''])) = Ok for_a
    \<and> peer_data demo_cli (Inr (CHR '' '' # sa)) = Ok for_b
    \<and> conn_id for_a = conn_id for_b
    \<and> is_initiator (cli_socket [1]) (conn_info for_a) \<noteq> is_initiator (cli_socket [2]) (conn_info for_b)"
proof -
  have p: "portable_info (sock_info (cli_socket [1]))" "portable_info (sock_info (cli_socket [2]))"
    by (simp_all add: portable_info_def cli_socket_def in_memory_def)
  obtain sa where sa: "connection_string demo_cli (cli_socket [1]) = Ok sa"
    using connection_string_Ok [OF demo_cli_formats, of "cli_socket [1]"] p(1)
    by (metis VeqSocket_connection_info_def)
  obtain sb where sb: "connection_string demo_cli (cli_socket [2]) = Ok sb"
    using connection_string_Ok [OF demo_cli_formats, of "cli_socket [2]"] p(2)
    by (metis VeqSocket_connection_info_def)
  have "CHR '' '' \<notin> set (letters x)" for x using letters_in [of "CHR '' ''" x] by auto
  then have space: "filter (\<lambda>c. c \<noteq> CHR '' '') (letters x) = letters x" for x by (auto intro: filter_True)
  obtain x y where "sa = letters x" "sb = letters y"
    using sa sb by (auto simp: connection_string_def demo_cli_def unwrap_result_def split: sum.splits)
  then have "filter (\<lambda>c. c \<noteq> CHR '' '') sb = sb" "filter (\<lambda>c. c \<noteq> CHR '' '') (CHR '' '' # sa) = sa"
    using space by simp_all
  then have "entered sb (sb @ [CHR 0x0A, CHR ''x''])" "entered sa (CHR '' '' # sa)"
    unfolding entered_def by (metis list.sel(1), metis append_Nil2)
  from strings_exchanged [OF demo_cli_formats p sa sb this] sa sb show ?thesis
    by (auto simp: cli_socket_def)
qed

end
