(* ===== verification/Spec2Isabelle.thy ===== *)
theory Spec2Isabelle
  imports Races Wakeups HandlerOverlap Reuse LibTests Cli
begin

text \<open>
  \<^bold>\<open>A verification of veq (udpp): encrypted sessions over UDP\<close>

  \<^bold>\<open>The program.\<close> The library (\<open>src/src/\<close>) lets two peers that know each other's addresses and
  public keys exchange messages over UDP. From the outside in:

  \<^item> \<open>veq.rs\<close>: \<open>VeqSocket\<close> binds a socket, finds out where it can be reached, starts a task that
    hands arriving datagrams to the handler and one that sends what the handler puts into its
    channel, and connects to a peer. A connection is a \<open>VeqSession\<close>: a \<open>Chunker\<close> over a
    \<open>BidirectionalSession\<close>, which calls the handler.
  \<^item> \<open>transform.rs\<close>: \<open>Chunker\<close> splits a message into numbered chunks and reassembles them.
  \<^item> \<open>handler.rs\<close>: \<open>Handler\<close> keeps four maps of sessions by identifier (poking, initiating,
    responding, established), dispatches packets, moves a session from stage to stage and removes
    it; \<open>SessionReady\<close> is the future that a connecting caller waits for.
  \<^item> \<open>session.rs\<close>: the three pending stages with the tasks that announce them every second, the
    established \<open>Session\<close> with its keepalive and its heartbeat task, and the future \<open>Receiving\<close>.
  \<^item> \<open>snow_types.rs\<close>: keys, the two messages of the Noise handshake, and \<open>LossyTransportState\<close>,
    which encrypts under explicit nonces and rejects replays.
  \<^item> \<open>dualstack/\<close>: sockets of one and of both IP versions; \<open>ip_discovery/\<close>: the addresses a
    socket can be reached at; \<open>bin.rs\<close>: a command line program.

  \<^bold>\<open>Conventions.\<close> A struct is a \<open>record\<close>, an enum a \<open>datatype\<close>, a method a function that takes and
  returns the state it changes. \<open>u8\<close> to \<open>u128\<close> are words; a \<open>usize\<close> is a \<open>nat\<close>. The outcome
  of a fallible call is \<open>Ok\<close>, \<open>Err\<close> or \<open>Panic\<close>, so every \<open>?\<close>, \<open>unwrap\<close>, slice and \<open>+\<close> is a
  branch; the flag \<open>oc\<close> says whether overflow panics (debug build) or wraps (release build). What
  is shared behind \<open>Arc\<close> is a field of the state of its owner. A spawned task is one step per turn
  of its loop, which may be taken at any time: no property depends on timing. A call that waits for
  something that has not happened is \<open>None\<close> or \<open>Pending\<close>. Third-party code (the packages snow,
  bincode, uuid, stunclient, network-interface, zstd, base64, tokio's sockets) is a parameter: the
  records \<open>snow\<close>, \<open>codec\<close>, \<open>udp\<close>, \<open>answers\<close> and \<open>cli\<close>. What is assumed of it are named
  predicates that state documented behaviour: \<open>codec_ok\<close>, \<open>nonced_wire\<close>, \<open>session_codecs\<close>,
  \<open>handler_codecs\<close>, \<open>chunk_sizes\<close> (round trip and size of serialised values), \<open>noise_pair\<close>,
  \<open>kk_completes\<close>, \<open>kk_short\<close>, \<open>outputs_fit\<close> (the cipher and the handshake), \<open>datagram_socket\<close>, \<open>logs_sends\<close>
  (sockets), \<open>cli_formats\<close>. Each is shown to hold of a concrete instance (\<open>layout_env tag_snow\<close>,
  \<open>chunk_layout\<close>, \<open>demo_udp\<close>, \<open>demo_cli\<close>), on which the witnesses evaluate.

  \<^bold>\<open>The theories.\<close>

  \<^item> \<open>Prelude\<close>, \<open>Collections\<close>, \<open>Bincode\<close>: outcomes, words, vectors and slices with their panics;
    \<open>BTreeMap\<close> and \<open>BTreeSet\<close> as sorted lists; codecs and the documented byte layout.
  \<^item> \<open>Chunker\<close> (\<open>transform.rs\<close>): \<open>ChunkGroup\<close>, \<open>Chunker\<close>, the trait \<open>Bidirectional\<close> and its
    in-memory queue. \<open>Reassembly\<close>: chunks that arrive in any order with losses are assembled to
    messages that were sent, each once; with at most ten open groups to all of them; which chunks
    panic the receiver. \<open>Fifo\<close>: the contract of a channel, in two halves (\<open>outbound_channel\<close>,
    \<open>inbound_channel\<close>), and that a chunker over a channel is a channel again; \<open>recv\<close> returns.
    \<open>InOrder\<close>: over a link that loses chunks but keeps their order, exactly the messages of which
    nothing was lost are returned, however many are not, and what is left in the queue afterwards
    (\<open>leftover\<close>) does not disturb what comes next. \<open>Races\<close>: overlapping calls of \<open>send\<close> as a
    step relation.
  \<^item> \<open>Transport\<close> (\<open>snow_types.rs\<close>): keys, handshake, \<open>LossyTransportState\<close>. \<open>Replay\<close>: no nonce
    is accepted twice, the remembered nonces stay ordered and within the window, a forged nonce blocks
    the state. \<open>Delivery\<close>: nonces are never reused; what arrives in order is read back, whatever is
    lost (locale \<open>lossy_link\<close>), and of what arrives in any order, any number of times, exactly that
    which is newer than all before it (locale \<open>ordered_link\<close>, which extends it; both are used again
    for sessions and for handlers); the sizes at which writing panics.
  \<^item> \<open>Net\<close>, \<open>Session\<close> (\<open>session.rs\<close>): addresses, packets, channels, the table of announcing
    tasks; pending sessions, sessions, \<open>Receiving\<close>. \<open>SessionLink\<close>: two linked sessions deliver;
    when the heartbeat declares a session dead. \<open>Wakeups\<close>: receivers, wakers and messages as a
    step relation; no message is queued without a woken receiver, except for the race in \<open>poll\<close>.
  \<^item> \<open>Handler\<close> (\<open>handler.rs\<close>): all methods and \<open>SessionReady\<close>. \<open>HandlerInv\<close>, \<open>HandlerTasks\<close>,
    \<open>HandlerSessions\<close>: what each operation keeps. \<open>HandlerSteps\<close>: the step relation \<open>hstep\<close> of
    all operations, tasks and polls, its invariant \<open>handler_inv\<close> and the protocol \<open>proto\<close> of one
    identifier that it refines. \<open>HandlerProps\<close>: the properties of reachable states, isolation of
    identifiers, stale removals, forged packets. \<open>HandlerLocks\<close>: the methods as sequences of locked
    sections (\<open>block\<close>), which any other task may interrupt (\<open>lstep\<close>). \<open>HandlerOverlap\<close>: uninterrupted
    they are the methods; calls on different identifiers keep the invariant in every interleaving;
    three ways in which calls on one identifier disturb each other. \<open>Handshake\<close>: the steps from two calls of
    \<open>initiate\<close> and \<open>respond\<close> to two linked sessions. \<open>HandlerLink\<close>: what established handlers
    exchange, and the payload that comes before the first keepalive.
  \<^item> \<open>Sockets\<close> (\<open>dualstack/\<close>): the contract \<open>datagram_socket\<close> and that both socket types keep it;
    sending by family. \<open>Discovery\<close> (\<open>ip_discovery/\<close>): the set of advertised addresses.
  \<^item> \<open>Veq\<close> (\<open>veq.rs\<close>): sockets, tasks, \<open>connect\<close>, sessions. \<open>VeqEnds\<close>: what an end of a connection
    needs to send (\<open>can_send\<close>) and to receive (\<open>can_receive\<close>), and that neither disturbs the other.
    \<open>VeqLink\<close>: the shortest run in which both calls of \<open>connect\<close> return; what a dropped connection answers.
    \<open>VeqTasks\<close>: no datagram stops the receiving task; the sending task sends everything.
    \<open>Stack\<close>: all parts together. Two peers (\<open>talking\<close>) converse over their sockets and tasks and a
    network that loses, repeats and reorders datagrams; every turn ends in a state in which either
    of them can go on.
  \<^item> \<open>Connecting\<close>: two calls of \<open>connect\<close> as a state machine (\<open>caller_step\<close>, \<open>connect_step\<close>): the tasks that
    announce, the keepalive, heartbeat, sending and receiving tasks, the polls, the removals that earlier sessions under
    the identifier have left to run, and a network that may deliver any datagram it was given at any time, any number of times, or
    lose it for good. A session may time out. Its invariant \<open>connecting\<close> has four stages.
    \<open>ConnectProps\<close>: no call fails and both agree on the connection; as long as the initiator's session has not timed out both calls can
    still return, and when it has the responder's call may hang for ever.
    \<open>Closing\<close>: a dropped session sends one more keepalive, and the other end finds out.
    \<open>Reuse\<close>: a second connection under the same identifier while the removals of the first are still to run.
  \<^item> \<open>Awaiting\<close>: a call of \<open>recv\<close> that waits, cut where its task sleeps; it goes on only when its waker was called.
  \<^item> \<open>Tests\<close>: the tests of \<open>transform.rs\<close>, \<open>snow_types.rs\<close>, \<open>ip_discovery/\<close> and those of \<open>lib.rs\<close> on bound sockets as
    definitions, and that they pass. \<open>Loopback\<close>: the network of the tests in \<open>lib.rs\<close>, as runs of \<open>Stack\<close>
    and of \<open>Connecting\<close>. \<open>LibTests\<close>: the tests that open sockets, connect, talk, wait and drop.
  \<^item> \<open>Cli\<close> (\<open>bin.rs\<close>): the steps of \<open>main\<close>; the exchange of connection strings.

  \<^bold>\<open>Termination and bounds.\<close> Every definition is total but \<open>Chunker_recv\<close>, whose loop may wait for
  ever, and \<open>recv_suspends\<close>, the same loop up to its first wait: they are \<open>partial_function\<close>s, \<open>None\<close> when they do not return, and the
  properties say that they return. \<open>drain\<close> and \<open>receive_turns\<close> take a number of turns; one more than the datagrams pending is
  enough. Three rounds of the loopback are enough for two calls of \<open>connect\<close>. \<open>alone\<close> takes a number of locked sections; no method has more than six. The nonce
  and the group number are 64-bit words: where a property excludes their overflow it says so
  (fewer than \<open>2 ^ 64\<close> messages).

  \<^bold>\<open>Not modelled.\<close> Timing (intervals and time-outs fire at any time instead), log output, memory
  exhaustion, the parsing of command line arguments and the module declarations. A method is one step, except where the order of its locks matters: the
  sections of the methods of \<open>Handler\<close> are separate steps in \<open>HandlerLocks\<close>, the halves of
  \<open>SessionReady::poll\<close> in \<open>HandlerOverlap\<close>, those of \<open>Chunker::send\<close> in \<open>Races\<close> and those of
  \<open>Receiving::poll\<close> in \<open>Wakeups\<close>. In \<open>Stack\<close> the datagrams of a turn arrive before the next turn
  begins. In \<open>Connecting\<close> nothing arrives but what the two calls' sides sent, so no forged packets and no datagrams of earlier
  sessions, and the calls are not dropped; forged packets and overlapping calls are the subject of \<open>HandlerProps\<close>
  and \<open>HandlerOverlap\<close>. A \<open>Receiving\<close> future that is dropped while it waits is left out of \<open>Wakeups\<close>. In the tests of \<open>lib.rs\<close> all tasks take their turns in rounds, one of the possible schedules. Secrecy and authenticity of the cipher are those of the package snow.
\<close>

end
